(* ===== verification/Prelude.thy ===== *)
theory Prelude
  imports Main "HOL-Library.Word" "HOL-Library.Finite_Map"
begin

text \<open>
  Shared vocabulary of the RSafeFS development: undefined behaviour as a value, the error
  monad it lives in, \<^verbatim>\<open>size_t\<close>/\<^verbatim>\<open>off_t\<close>/\<^verbatim>\<open>int\<close> arithmetic with the wrap-around of C++
  written out, \<^verbatim>\<open>memcpy\<close> with its bounds, the part of \<^verbatim>\<open>std::filesystem::path\<close> the code
  uses, and the lemma collections the component theories feed and use.
\<close>

named_theorems res_simps \<open>rewriting in the error monad\<close>
named_theorems arith64 \<open>wrap-around arithmetic inside its exact range\<close>
named_theorems fmap_simps \<open>domains of finite maps\<close>

section \<open>Types\<close>

type_synonym byte = char
type_synonym bytes = "byte list"
type_synonym path = string

text \<open>
  What a C++ execution may run into. Every operation that can reach one of these returns
  it as the left summand, so that "no undefined behaviour" is a statement about the result.
\<close>

datatype ub =
    Null_deref      \<comment> \<open>member access through a null pointer\<close>
  | Null_call       \<comment> \<open>call through a null function pointer\<close>
  | End_deref       \<comment> \<open>dereference of an \<^verbatim>\<open>end()\<close> iterator\<close>
  | Out_of_bounds   \<comment> \<open>\<^verbatim>\<open>memcpy\<close> outside an array\<close>
  | Div_by_zero     \<comment> \<open>integer division by zero\<close>
  | Dangling        \<comment> \<open>member access through a deleted object\<close>
  | Assertion       \<comment> \<open>a failed \<^verbatim>\<open>GPR_ASSERT\<close>\<close>
  | Diverges        \<comment> \<open>a loop that never leaves\<close>

type_synonym 'a res = "ub + 'a"
type_synonym ('s, 'a) action = "'s \<Rightarrow> ub + ('a \<times> 's)"

section \<open>The error monad\<close>

definition rbind :: "'e + 'a \<Rightarrow> ('a \<Rightarrow> 'e + 'b) \<Rightarrow> 'e + 'b" where
  "rbind m f = (case m of Inl e \<Rightarrow> Inl e | Inr a \<Rightarrow> f a)"

lemma rbind_Inl [simp, res_simps]: "rbind (Inl e) f = Inl e"
  by (simp add: rbind_def)

lemma rbind_Inr [simp, res_simps]: "rbind (Inr a) f = f a"
  by (simp add: rbind_def)

lemma rbind_assoc: "rbind (rbind m f) g = rbind m (\<lambda>a. rbind (f a) g)"
  by (cases m) simp_all

lemma rbind_eq_Inr_conv: "rbind m f = Inr b \<longleftrightarrow> (\<exists>a. m = Inr a \<and> f a = Inr b)"
  by (cases m) simp_all

lemma rbind_cong [fundef_cong]:
  "m = m' \<Longrightarrow> (\<And>a. m' = Inr a \<Longrightarrow> f a = f' a) \<Longrightarrow> rbind m f = rbind m' f'"
  by (cases m') simp_all

text \<open>Dereferencing a pointer parameter that may be null.\<close>

definition deref :: "'a option \<Rightarrow> 'a res" where
  "deref p = (case p of None \<Rightarrow> Inl Null_deref | Some a \<Rightarrow> Inr a)"

text \<open>Calling through a function pointer that may be null.\<close>

definition fn :: "'f option \<Rightarrow> 'f res" where
  "fn p = (case p of None \<Rightarrow> Inl Null_call | Some f \<Rightarrow> Inr f)"

lemma deref_simps [simp, res_simps]: "deref None = Inl Null_deref" "deref (Some a) = Inr a"
  by (simp_all add: deref_def)

lemma fn_simps [simp, res_simps]: "fn None = Inl Null_call" "fn (Some f) = Inr f"
  by (simp_all add: fn_def)

section \<open>Machine integers\<close>

text \<open>
  \<^verbatim>\<open>size_t\<close> values are naturals below \<open>2 ^ 64\<close>, \<^verbatim>\<open>off_t\<close> values integers in the signed 64-bit
  range, \<^verbatim>\<open>int\<close> values integers in the signed 32-bit range.
\<close>

definition size_add :: "nat \<Rightarrow> nat \<Rightarrow> nat" where
  "size_add a b = (a + b) mod 2 ^ 64"

definition size_sub :: "nat \<Rightarrow> nat \<Rightarrow> nat" where
  "size_sub a b = nat ((int a - int b) mod 2 ^ 64)"

definition size_of_int :: "int \<Rightarrow> nat" where
  "size_of_int x = nat (x mod 2 ^ 64)"

definition off_of_size :: "nat \<Rightarrow> int" where
  "off_of_size n = (int n + 2 ^ 63) mod 2 ^ 64 - 2 ^ 63"

text \<open>\<^verbatim>\<open>off_t += size_t\<close>: the sum is formed in \<^verbatim>\<open>size_t\<close> and converted back.\<close>

definition off_plus :: "int \<Rightarrow> nat \<Rightarrow> int" where
  "off_plus x n = off_of_size (size_add (size_of_int x) n)"

definition int_of_size :: "nat \<Rightarrow> int" where
  "int_of_size n = (int n + 2 ^ 31) mod 2 ^ 32 - 2 ^ 31"

lemma size_add_exact [arith64]: "a + b < 2 ^ 64 \<Longrightarrow> size_add a b = a + b"
  by (simp add: size_add_def)

lemma size_sub_exact [arith64]: "b \<le> a \<Longrightarrow> a < 2 ^ 64 \<Longrightarrow> size_sub a b = a - b"
  by (simp add: size_sub_def)

lemma size_sub_wraps:
  assumes "a < b" "b < 2 ^ 64"
  shows "size_sub a b = 2 ^ 64 - (b - a)"
proof -
  have "(int a - int b) mod 2 ^ 64 = (int a - int b + 2 ^ 64) mod 2 ^ 64"
    by (metis mod_add_self2)
  also have "\<dots> = int a - int b + 2 ^ 64"
    using assms by (intro mod_pos_pos_trivial) auto
  finally show ?thesis
    using assms by (simp add: size_sub_def nat_diff_distrib')
qed

lemma size_of_int_exact [arith64]: "0 \<le> x \<Longrightarrow> x < 2 ^ 64 \<Longrightarrow> size_of_int x = nat x"
  by (simp add: size_of_int_def)

lemma size_of_int_nat [arith64]: "n < 2 ^ 64 \<Longrightarrow> size_of_int (int n) = n"
  by (simp add: size_of_int_def nat_mod_as_int flip: zmod_int)

lemma off_of_size_exact [arith64]: "n < 2 ^ 63 \<Longrightarrow> off_of_size n = int n"
  by (simp add: off_of_size_def)

lemma off_of_size_of_int [arith64]:
  assumes "- (2 ^ 63) \<le> x" "x < 2 ^ 63"
  shows "off_of_size (size_of_int x) = x"
proof -
  have "(int (nat (x mod 2 ^ 64)) + 2 ^ 63) mod 2 ^ 64 = (x + 2 ^ 63) mod 2 ^ 64"
    by (simp add: mod_add_left_eq)
  also have "\<dots> = x + 2 ^ 63"
    using assms by (intro mod_pos_pos_trivial) auto
  finally show ?thesis
    by (simp add: off_of_size_def size_of_int_def)
qed

lemma off_plus_exact [arith64]:
  assumes "0 \<le> x" "x + int n < 2 ^ 63"
  shows "off_plus x n = x + int n"
proof -
  have "size_add (size_of_int x) n = nat x + n"
    using assms by (simp add: size_of_int_def size_add_def nat_less_iff flip: of_nat_add)
  with assms show ?thesis
    by (simp add: off_plus_def off_of_size_exact)
qed

lemma int_of_size_exact [arith64]: "n < 2 ^ 31 \<Longrightarrow> int_of_size n = int n"
  by (simp add: int_of_size_def)

section \<open>Time\<close>

text \<open>
  Clock readings are nanosecond counts. \<^verbatim>\<open>duration_cast<seconds>\<close> truncates towards zero.
\<close>

definition elapsed_seconds :: "int \<Rightarrow> int \<Rightarrow> int" where
  "elapsed_seconds now ts = sgn (now - ts) * (\<bar>now - ts\<bar> div 1000000000)"

lemma elapsed_seconds_later: "ts \<le> now \<Longrightarrow> elapsed_seconds now ts = (now - ts) div 1000000000"
  by (cases "now = ts") (simp_all add: elapsed_seconds_def)

section \<open>Memory\<close>

text \<open>
  \<^verbatim>\<open>memcpy(dst + dpos, src + spos, n)\<close>: both ranges must lie inside their arrays.
\<close>

definition mem_copy :: "'a list \<Rightarrow> nat \<Rightarrow> 'a list \<Rightarrow> nat \<Rightarrow> nat \<Rightarrow> 'a list res" where
  "mem_copy dst dpos src spos n =
     (if dpos + n \<le> length dst \<and> spos + n \<le> length src
      then Inr (take dpos dst @ take n (drop spos src) @ drop (dpos + n) dst)
      else Inl Out_of_bounds)"

lemma mem_copy_length: "mem_copy dst dpos src spos n = Inr dst' \<Longrightarrow> length dst' = length dst"
  by (auto simp: mem_copy_def split: if_splits)

lemma mem_copy_take:
  assumes "mem_copy dst dpos src spos n = Inr dst'"
  shows "take (dpos + n) dst' = take dpos dst @ take n (drop spos src)"
  using assms by (auto simp: mem_copy_def min_def split: if_splits)

lemma mem_copy_drop:
  assumes "mem_copy dst dpos src spos n = Inr dst'"
  shows "drop (dpos + n) dst' = drop (dpos + n) dst"
  using assms by (auto simp: mem_copy_def min_def split: if_splits)

text \<open>The part of a file that a read of \<open>n\<close> bytes at offset \<open>off\<close> sees.\<close>

definition fslice :: "'a list \<Rightarrow> nat \<Rightarrow> nat \<Rightarrow> 'a list" where
  "fslice xs off n = take n (drop off xs)"

lemma length_fslice [simp]: "length (fslice xs off n) = min n (length xs - off)"
  by (simp add: fslice_def)

lemma fslice_append: "fslice xs off m @ fslice xs (off + m) n = fslice xs off (m + n)"
  by (simp add: fslice_def take_add add.commute)

lemma fslice_empty: "length xs \<le> off \<Longrightarrow> fslice xs off n = []"
  by (simp add: fslice_def)

lemma fslice_fslice: "a + n \<le> m \<Longrightarrow> fslice (fslice xs off m) a n = fslice xs (off + a) n"
  by (simp add: fslice_def drop_take add.commute min_def)

lemma take_drop_prefix: "a + n \<le> m \<Longrightarrow> take n (drop a (take m xs)) = take n (drop a xs)"
  by (simp add: drop_take min_def)

lemma take_fslice: "take k (fslice xs off n) = fslice xs off (min k n)"
  by (simp add: fslice_def min.commute)

section \<open>Finite maps\<close>

lemmas fmdom'_upd [fmap_simps] = fmdom'_fmupd

lemma fmdom'_iff [fmap_simps]: "k \<in> fmdom' m \<longleftrightarrow> fmlookup m k \<noteq> None"
  by (auto simp: fmdom'_notI fmlookup_dom'_iff)

text \<open>\<^verbatim>\<open>unordered_map::emplace\<close> and \<^verbatim>\<open>try_emplace\<close>: an existing entry stays.\<close>

definition emplace :: "'k \<Rightarrow> 'v \<Rightarrow> ('k, 'v) fmap \<Rightarrow> ('k, 'v) fmap" where
  "emplace k v m = (case fmlookup m k of None \<Rightarrow> fmupd k v m | Some _ \<Rightarrow> m)"

definition map_size :: "('k, 'v) fmap \<Rightarrow> nat" where
  "map_size m = fcard (fmdom m)"

lemma fmdom'_emplace [fmap_simps]: "fmdom' (emplace k v m) = insert k (fmdom' m)"
  by (auto simp: emplace_def fmap_simps split: option.splits)

lemma emplace_lookup:
  "fmlookup (emplace k v m) j = (if j = k \<and> fmlookup m k = None then Some v else fmlookup m j)"
  by (auto simp: emplace_def split: option.splits)

lemma map_size_card: "map_size m = card (fmdom' m)"
  by (simp add: map_size_def fmdom'_alt_def fcard.rep_eq)

lemma map_size_0 [fmap_simps]: "map_size m = 0 \<longleftrightarrow> (\<forall>k. fmlookup m k = None)"
  by (auto simp: map_size_card fmap_simps)

lemma map_size_fmempty [simp]: "map_size fmempty = 0"
  by (simp add: fmap_simps)

section \<open>std::filesystem::path\<close>

text \<open>
  \<^verbatim>\<open>path::parent_path\<close> on POSIX paths: the path up to its last separator, with the
  separators before the last component removed; a path made of separators only is its own
  parent; a path without separator has the empty path as parent.
\<close>

abbreviation sep :: char where
  "sep \<equiv> CHR ''/''"

definition fs_parent_path :: "path \<Rightarrow> path" where
  "fs_parent_path p =
     (let q = rev (dropWhile (\<lambda>c. c \<noteq> sep) (rev p));
          r = rev (dropWhile (\<lambda>c. c = sep) (rev q))
      in if list_all (\<lambda>c. c = sep) p then p
         else if q = [] then []
         else if r = [] then [sep] else r)"

definition fs_has_parent_path :: "path \<Rightarrow> bool" where
  "fs_has_parent_path p = (fs_parent_path p \<noteq> [])"

lemma rev_dropWhile_split:
  assumes "\<not> P c" "list_all P b"
  shows "rev (dropWhile P (rev (a @ c # b))) = a @ [c]"
  using assms by (simp add: dropWhile_append3 list_all_iff)

text \<open>The parent of \<^verbatim>\<open>d/name\<close> is \<^verbatim>\<open>d\<close>: the shape FUSE hands to the layers.\<close>

lemma fs_parent_path_child:
  assumes "d \<noteq> []" "last d \<noteq> sep" "name \<noteq> []" "sep \<notin> set name"
  shows "fs_parent_path (d @ sep # name) = d"
proof -
  obtain d0 c where d: "d = d0 @ [c]" "c \<noteq> sep"
    using assms(1,2) by (metis append_butlast_last_id)
  have q: "rev (dropWhile (\<lambda>c. c \<noteq> sep) (rev (d @ sep # name))) = d @ [sep]"
    using assms(4) by (intro rev_dropWhile_split) (auto simp: list_all_iff)
  have "rev (dropWhile (\<lambda>c. c = sep) (rev (d0 @ c # [sep]))) = d0 @ [c]"
    using d(2) by (intro rev_dropWhile_split) auto
  then have r: "rev (dropWhile (\<lambda>c. c = sep) (rev (d @ [sep]))) = d"
    using d(1) by simp
  show ?thesis
    using d q r by (simp add: fs_parent_path_def)
qed

lemma fs_parent_path_top:
  assumes "name \<noteq> []" "sep \<notin> set name"
  shows "fs_parent_path (sep # name) = [sep]"
proof -
  have q: "rev (dropWhile (\<lambda>c. c \<noteq> sep) (rev ([] @ sep # name))) = [] @ [sep]"
    using assms(2) by (intro rev_dropWhile_split) (auto simp: list_all_iff)
  have "\<not> list_all (\<lambda>c. c = sep) (sep # name)"
    using assms by (cases name) auto
  with q show ?thesis
    by (simp add: fs_parent_path_def)
qed

end
