(* ===== verification/Cache_Manager.thy ===== *)
theory Cache_Manager
  imports Prelude
begin

text \<open>
  The replacement managers of \<^verbatim>\<open>include/rsafefs/common/cache\<close> and the eviction-policy
  interface the two caches call (\<^verbatim>\<open>cache::eviction_policy\<close>, implemented by the
  \<^verbatim>\<open>lru_eviction\<close> and \<^verbatim>\<open>rnd_eviction\<close> drivers). Every operation takes the manager's mutex
  for its whole body, so each is one atomic step on the manager's state.
\<close>

section \<open>The abstract class\<close>

text \<open>
  \<^verbatim>\<open>cache_manager<T>\<close> is an abstract class of three virtual functions: a record of
  functions on the state \<open>'p\<close> of the implementing object.
\<close>

record ('k, 'p) cache_manager =
  touch :: "'k \<Rightarrow> 'p \<Rightarrow> 'p"
  remove :: "'k \<Rightarrow> 'p \<Rightarrow> 'p"
  evict :: "'p \<Rightarrow> 'k option \<times> 'p"

section \<open>lru\_cache\_manager\<close>

text \<open>
  \<^verbatim>\<open>keys_\<close> is a \<^verbatim>\<open>std::list\<close>, most recent first, and \<^verbatim>\<open>map_\<close> holds for every key the
  iterator of its node. A node is a pair of its identity and its key, and an iterator is
  the identity of the node it points at; \<open>lru_next\<close> is the identity of the next node
  \<^verbatim>\<open>push_front\<close> allocates.
\<close>

record 'k lru_cache_manager =
  lru_keys :: "(nat \<times> 'k) list"
  lru_map :: "('k, nat) fmap"
  lru_next :: nat

definition lru_empty :: "'k lru_cache_manager" where
  "lru_empty = \<lparr>lru_keys = [], lru_map = fmempty, lru_next = 0\<rparr>"

definition list_erase :: "nat \<Rightarrow> (nat \<times> 'k) list \<Rightarrow> (nat \<times> 'k) list" where
  "list_erase it ks = filter (\<lambda>n. fst n \<noteq> it) ks"

definition lru_touch :: "'k \<Rightarrow> 'k lru_cache_manager \<Rightarrow> 'k lru_cache_manager" where
  "lru_touch t m =
     (let ks = (case fmlookup (lru_map m) t of None \<Rightarrow> lru_keys m | Some it \<Rightarrow> list_erase it (lru_keys m))
      in m\<lparr>lru_keys := (lru_next m, t) # ks,
           lru_map := fmupd t (lru_next m) (lru_map m),
           lru_next := Suc (lru_next m)\<rparr>)"

definition lru_remove :: "'k \<Rightarrow> 'k lru_cache_manager \<Rightarrow> 'k lru_cache_manager" where
  "lru_remove t m =
     (case fmlookup (lru_map m) t of
        None \<Rightarrow> m
      | Some it \<Rightarrow> m\<lparr>lru_keys := list_erase it (lru_keys m), lru_map := fmdrop t (lru_map m)\<rparr>)"

definition lru_evict :: "'k lru_cache_manager \<Rightarrow> 'k option \<times> 'k lru_cache_manager" where
  "lru_evict m =
     (if map_size (lru_map m) = 0 then (None, m)
      else let t = snd (last (lru_keys m))
           in (Some t, m\<lparr>lru_keys := butlast (lru_keys m), lru_map := fmdrop t (lru_map m)\<rparr>))"

text \<open>
  The recency list the manager stands for, and the invariant that ties the list and the
  map of iterators together.
\<close>

definition lru_abs :: "'k lru_cache_manager \<Rightarrow> 'k list" where
  "lru_abs m = map snd (lru_keys m)"

definition lru_inv :: "'k lru_cache_manager \<Rightarrow> bool" where
  "lru_inv m \<longleftrightarrow>
     distinct (map fst (lru_keys m)) \<and> distinct (map snd (lru_keys m)) \<and>
     (\<forall>i k. fmlookup (lru_map m) k = Some i \<longleftrightarrow> (i, k) \<in> set (lru_keys m)) \<and>
     (\<forall>n \<in> set (lru_keys m). fst n < lru_next m)"

lemma lru_inv_lookup: "lru_inv m \<Longrightarrow> fmlookup (lru_map m) k = Some i \<longleftrightarrow> (i, k) \<in> set (lru_keys m)"
  by (simp add: lru_inv_def)

lemma lru_lookup_None: "lru_inv m \<Longrightarrow> fmlookup (lru_map m) k = None \<longleftrightarrow> k \<notin> set (lru_abs m)"
  using lru_inv_lookup[of m k] by (cases "fmlookup (lru_map m) k") (force simp: lru_abs_def)+

lemma lru_dom: "lru_inv m \<Longrightarrow> fmdom' (lru_map m) = set (lru_abs m)"
  by (auto simp: fmap_simps lru_lookup_None)

lemma lru_map_empty: "lru_inv m \<Longrightarrow> map_size (lru_map m) = 0 \<longleftrightarrow> lru_keys m = []"
  by (simp add: map_size_card lru_dom) (simp add: lru_abs_def)

text \<open>Erasing through an iterator of the map erases exactly the node of the key.\<close>

lemma list_erase_key:
  assumes "distinct (map fst ks)" "distinct (map snd ks)" "(it, t) \<in> set ks"
  shows "map snd (list_erase it ks) = removeAll t (map snd ks)"
  using assms
proof (induction ks)
  case Nil
  then show ?case by simp
next
  case (Cons n ks)
  obtain i k where n: "n = (i, k)" by force
  show ?case
  proof (cases "i = it")
    case True
    with Cons.prems n have "k = t" "it \<notin> fst ` set ks" "t \<notin> snd ` set ks" by force+
    then have "filter (\<lambda>n. fst n \<noteq> it) ks = ks" "removeAll t (map snd ks) = map snd ks"
      by (auto simp: filter_id_conv removeAll_id)
    with True n \<open>k = t\<close> show ?thesis by (simp add: list_erase_def)
  next
    case False
    with Cons.prems n have "(it, t) \<in> set ks" "k \<noteq> t" by force+
    with Cons n False show ?thesis by (simp add: list_erase_def)
  qed
qed

lemma list_erase_set: "set (list_erase it ks) = {n \<in> set ks. fst n \<noteq> it}"
  by (auto simp: list_erase_def)

lemma list_erase_distinct:
  "distinct (map fst ks) \<Longrightarrow> distinct (map fst (list_erase it ks))"
  "distinct (map snd ks) \<Longrightarrow> distinct (map snd (list_erase it ks))"
  by (simp_all add: list_erase_def distinct_map_filter)


lemma lru_inv_empty [simp]: "lru_inv lru_empty" and lru_abs_empty [simp]: "lru_abs lru_empty = []"
  by (simp_all add: lru_inv_def lru_empty_def lru_abs_def)

text \<open>The nodes left after the old node of \<open>t\<close>, if any, is erased.\<close>

lemma lru_erased:
  assumes "lru_inv m"
    and ks: "ks = (case fmlookup (lru_map m) t of None \<Rightarrow> lru_keys m
                   | Some it \<Rightarrow> list_erase it (lru_keys m))"
  shows "set ks = {n \<in> set (lru_keys m). snd n \<noteq> t}"
    and "map snd ks = removeAll t (lru_abs m)"
    and "distinct (map fst ks)" and "distinct (map snd ks)"
proof -
  have d: "distinct (map fst (lru_keys m))" "distinct (map snd (lru_keys m))"
    using assms(1) by (simp_all add: lru_inv_def)
  show "map snd ks = removeAll t (lru_abs m)"
    using assms d lru_inv_lookup[OF assms(1), of t] lru_lookup_None[OF assms(1), of t]
    by (auto simp: lru_abs_def list_erase_key removeAll_id split: option.splits)
  show "distinct (map fst ks)" "distinct (map snd ks)"
    using d ks by (auto simp: list_erase_distinct split: option.splits)
  show "set ks = {n \<in> set (lru_keys m). snd n \<noteq> t}"
  proof (cases "fmlookup (lru_map m) t")
    case None
    with lru_lookup_None[OF assms(1), of t] ks show ?thesis by (auto simp: lru_abs_def)
  next
    case (Some it)
    then have "(it, t) \<in> set (lru_keys m)"
      using lru_inv_lookup[OF assms(1)] by simp
    with d have "\<And>n. n \<in> set (lru_keys m) \<Longrightarrow> fst n = it \<longleftrightarrow> snd n = t"
      by (metis eq_key_imp_eq_value fst_conv prod.collapse snd_conv distinct_map inj_onD)
    with Some ks show ?thesis by (auto simp: list_erase_set)
  qed
qed

lemma lru_inv_touch: "lru_inv m \<Longrightarrow> lru_inv (lru_touch t m)"
proof -
  assume inv: "lru_inv m"
  define ks where "ks = (case fmlookup (lru_map m) t of None \<Rightarrow> lru_keys m
                         | Some it \<Rightarrow> list_erase it (lru_keys m))"
  note e = lru_erased[OF inv ks_def]
  have "lru_next m \<notin> fst ` set ks" "t \<notin> snd ` set ks"
    using inv by (auto simp: e(1) lru_inv_def)
  moreover have "\<forall>i k. fmlookup (lru_map m) k = Some i \<longleftrightarrow> (i, k) \<in> set (lru_keys m)"
    "\<forall>n \<in> set (lru_keys m). fst n < lru_next m"
    using inv by (simp_all add: lru_inv_def)
  ultimately show ?thesis
    using e(1,3,4) by (auto simp: lru_inv_def lru_touch_def Let_def ks_def[symmetric])
qed

lemma lru_abs_touch: "lru_inv m \<Longrightarrow> lru_abs (lru_touch t m) = t # removeAll t (lru_abs m)"
  using lru_erased(2)[of m _ t] by (simp add: lru_touch_def lru_abs_def Let_def)

lemma lru_inv_remove:
  assumes inv: "lru_inv m"
  shows "lru_inv (lru_remove t m)"
proof (cases "fmlookup (lru_map m) t")
  case (Some it)
  have "lru_remove t m = m\<lparr>lru_keys := list_erase it (lru_keys m), lru_map := fmdrop t (lru_map m)\<rparr>"
    using Some by (simp add: lru_remove_def)
  moreover have "set (list_erase it (lru_keys m)) = {n \<in> set (lru_keys m). snd n \<noteq> t}"
    using lru_erased(1)[OF inv refl, of t] Some by simp
  ultimately show ?thesis
    using inv by (auto simp: lru_inv_def list_erase_distinct)
qed (simp add: lru_remove_def inv)

lemma lru_abs_remove: "lru_inv m \<Longrightarrow> lru_abs (lru_remove t m) = removeAll t (lru_abs m)"
  using lru_erased(2)[of m _ t]
  by (auto simp: lru_remove_def lru_abs_def split: option.splits)

lemma lru_evict_None: "lru_inv m \<Longrightarrow> lru_abs m = [] \<Longrightarrow> lru_evict m = (None, m)"
  by (simp add: lru_evict_def lru_map_empty) (simp add: lru_abs_def)

lemma lru_evict_Some:
  assumes "lru_inv m" "lru_abs m \<noteq> []"
  obtains m' where "lru_evict m = (Some (last (lru_abs m)), m')" "lru_inv m'"
    "lru_abs m' = butlast (lru_abs m)"
proof -
  obtain ks i t where ks: "lru_keys m = ks @ [(i, t)]"
    using assms(2) by (metis lru_abs_def list.map_disc_iff rev_exhaust surj_pair)
  let ?m' = "m\<lparr>lru_keys := ks, lru_map := fmdrop t (lru_map m)\<rparr>"
  have "lru_evict m = (Some (last (lru_abs m)), ?m')"
    using ks assms(1) by (simp add: lru_evict_def lru_map_empty lru_abs_def)
  moreover have "lru_inv ?m'"
    using assms(1) ks unfolding lru_inv_def by (simp, force)
  moreover have "lru_abs ?m' = butlast (lru_abs m)"
    using ks by (simp add: lru_abs_def)
  ultimately show ?thesis by (rule that)
qed

section \<open>rnd\_cache\_manager\<close>

text \<open>
  \<^verbatim>\<open>keys_\<close> is a hash set; its iteration order is unspecified, so it is a list without
  duplicates of which only the elements matter. The generator is the sequence of its
  outputs still to come: \<open>rnd_gen m (rnd_pos m)\<close> is the next output and the distribution
  on \<open>{0, ..., n - 1}\<close> reduces it modulo \<open>n\<close>, so that every sequence of indices in range is
  the behaviour of some generator.
\<close>

record 'k rnd_cache_manager =
  rnd_keys :: "'k list"
  rnd_gen :: "nat \<Rightarrow> nat"
  rnd_pos :: nat

definition rnd_empty :: "(nat \<Rightarrow> nat) \<Rightarrow> 'k rnd_cache_manager" where
  "rnd_empty g = \<lparr>rnd_keys = [], rnd_gen = g, rnd_pos = 0\<rparr>"

definition rnd_touch :: "'k \<Rightarrow> 'k rnd_cache_manager \<Rightarrow> 'k rnd_cache_manager" where
  "rnd_touch t m = (if t \<in> set (rnd_keys m) then m else m\<lparr>rnd_keys := rnd_keys m @ [t]\<rparr>)"

definition rnd_remove :: "'k \<Rightarrow> 'k rnd_cache_manager \<Rightarrow> 'k rnd_cache_manager" where
  "rnd_remove t m = m\<lparr>rnd_keys := removeAll t (rnd_keys m)\<rparr>"

definition rnd_dist :: "nat \<Rightarrow> 'k rnd_cache_manager \<Rightarrow> nat \<times> 'k rnd_cache_manager" where
  "rnd_dist n m = (rnd_gen m (rnd_pos m) mod n, m\<lparr>rnd_pos := Suc (rnd_pos m)\<rparr>)"

definition rnd_evict :: "'k rnd_cache_manager \<Rightarrow> 'k option \<times> 'k rnd_cache_manager" where
  "rnd_evict m =
     (if rnd_keys m = [] then (None, m)
      else let (i, m1) = rnd_dist (length (rnd_keys m)) m;
               t = rnd_keys m1 ! i
           in (Some t, m1\<lparr>rnd_keys := take i (rnd_keys m1) @ drop (Suc i) (rnd_keys m1)\<rparr>))"

lemma rnd_evict_Some:
  assumes "distinct (rnd_keys m)" "rnd_evict m = (Some t, m')"
  shows "t \<in> set (rnd_keys m)" "set (rnd_keys m') = set (rnd_keys m) - {t}"
    "distinct (rnd_keys m')"
proof -
  let ?i = "rnd_gen m (rnd_pos m) mod length (rnd_keys m)"
  have ne: "rnd_keys m \<noteq> []" and t: "t = rnd_keys m ! ?i"
    and k': "rnd_keys m' = take ?i (rnd_keys m) @ drop (Suc ?i) (rnd_keys m)"
    using assms(2) by (auto simp: rnd_evict_def rnd_dist_def Let_def split: if_splits)
  have split: "rnd_keys m = take ?i (rnd_keys m) @ t # drop (Suc ?i) (rnd_keys m)"
    using ne t by (simp add: id_take_nth_drop)
  show "t \<in> set (rnd_keys m)"
    using ne t by simp
  have "distinct (take ?i (rnd_keys m) @ t # drop (Suc ?i) (rnd_keys m))"
    using split assms(1) by simp
  then show "distinct (rnd_keys m')" "set (rnd_keys m') = set (rnd_keys m) - {t}"
    using k' arg_cong[OF split, of set] by auto
qed

section \<open>Sequences of operations\<close>

text \<open>
  A history of calls on one manager and the keys its \<open>evict\<close> calls return.
\<close>

datatype 'k cm_op = Touch 'k | Remove 'k | Evict

fun cm_run :: "('k, 'p) cache_manager \<Rightarrow> 'k cm_op list \<Rightarrow> 'p \<Rightarrow> 'k option list \<times> 'p" where
  "cm_run ep [] p = ([], p)"
| "cm_run ep (Touch k # xs) p = cm_run ep xs (touch ep k p)"
| "cm_run ep (Remove k # xs) p = cm_run ep xs (remove ep k p)"
| "cm_run ep (Evict # xs) p =
     (let (r, p1) = evict ep p; (rs, p2) = cm_run ep xs p1 in (r # rs, p2))"

text \<open>
  The specification of least-recently-used replacement: a list of keys, most recent first,
  without any map of iterators.
\<close>

definition recency_spec :: "('k, 'k list) cache_manager" where
  "recency_spec = \<lparr>touch = (\<lambda>k l. k # removeAll k l), remove = removeAll,
     evict = (\<lambda>l. if l = [] then (None, []) else (Some (last l), butlast l))\<rparr>"

section \<open>The eviction-policy contract and its two drivers\<close>

text \<open>
  What the caches rely on: the policy tracks a set of keys, \<open>touch\<close> adds, \<open>remove\<close> deletes,
  and \<open>evict\<close> picks and forgets a tracked key whenever there is one.
\<close>

locale eviction_policy =
  fixes ep :: "('k, 'p) cache_manager"
    and keys :: "'p \<Rightarrow> 'k set"
    and pinv :: "'p \<Rightarrow> bool"
  assumes keys_touch: "pinv p \<Longrightarrow> keys (touch ep k p) = insert k (keys p)"
    and keys_remove: "pinv p \<Longrightarrow> keys (remove ep k p) = keys p - {k}"
    and evict_None: "pinv p \<Longrightarrow> keys p = {} \<Longrightarrow> evict ep p = (None, p)"
    and evict_Some: "pinv p \<Longrightarrow> keys p \<noteq> {} \<Longrightarrow>
      \<exists>k p'. evict ep p = (Some k, p') \<and> k \<in> keys p \<and> keys p' = keys p - {k} \<and> pinv p'"
    and pinv_touch: "pinv p \<Longrightarrow> pinv (touch ep k p)"
    and pinv_remove: "pinv p \<Longrightarrow> pinv (remove ep k p)"
begin

lemma evict_cases:
  assumes "pinv p"
  obtains "keys p = {}" "evict ep p = (None, p)" "pinv p"
  | k p' where "evict ep p = (Some k, p')" "k \<in> keys p" "keys p' = keys p - {k}" "pinv p'"
  using assms evict_None[OF assms] evict_Some[OF assms] by blast

lemma evict_pinv: "pinv p \<Longrightarrow> pinv (snd (evict ep p))"
  by (erule evict_cases) simp_all

lemma evict_keys: "pinv p \<Longrightarrow> keys (snd (evict ep p)) = keys p - set_option (fst (evict ep p))"
  by (erule evict_cases) simp_all

lemma evict_is_None: "pinv p \<Longrightarrow> fst (evict ep p) = None \<longleftrightarrow> keys p = {}"
  by (erule evict_cases) auto

end

text \<open>The keys tracked after a history, given what its evictions returned.\<close>

fun tracked :: "'k cm_op list \<Rightarrow> 'k option list \<Rightarrow> 'k set \<Rightarrow> 'k set" where
  "tracked [] rs K = K"
| "tracked (Touch k # xs) rs K = tracked xs rs (insert k K)"
| "tracked (Remove k # xs) rs K = tracked xs rs (K - {k})"
| "tracked (Evict # xs) (r # rs) K = tracked xs rs (K - set_option r)"
| "tracked (Evict # xs) [] K = K"

text \<open>Every eviction of a history is lawful: it returns a tracked key, or none if none is.\<close>

fun lawful :: "'k cm_op list \<Rightarrow> 'k option list \<Rightarrow> 'k set \<Rightarrow> bool" where
  "lawful [] rs K \<longleftrightarrow> rs = []"
| "lawful (Touch k # xs) rs K \<longleftrightarrow> lawful xs rs (insert k K)"
| "lawful (Remove k # xs) rs K \<longleftrightarrow> lawful xs rs (K - {k})"
| "lawful (Evict # xs) (r # rs) K \<longleftrightarrow>
     (case r of None \<Rightarrow> K = {} | Some k \<Rightarrow> k \<in> K) \<and> lawful xs rs (K - set_option r)"
| "lawful (Evict # xs) [] K \<longleftrightarrow> False"

context eviction_policy
begin

lemma run_lawful:
  "pinv p \<Longrightarrow> cm_run ep xs p = (rs, p') \<Longrightarrow>
   pinv p' \<and> lawful xs rs (keys p) \<and> keys p' = tracked xs rs (keys p)"
proof (induction xs arbitrary: p rs)
  case Nil
  then show ?case by simp
next
  case (Cons x xs)
  show ?case
  proof (cases x)
    case (Touch k)
    then show ?thesis
      using Cons.IH[OF pinv_touch[OF Cons.prems(1)]] Cons.prems by (simp add: keys_touch)
  next
    case (Remove k)
    then show ?thesis
      using Cons.IH[OF pinv_remove[OF Cons.prems(1)]] Cons.prems by (simp add: keys_remove)
  next
    case Evict
    obtain r p1 rs1 where e: "evict ep p = (r, p1)" "cm_run ep xs p1 = (rs1, p')" "rs = r # rs1"
      using Cons.prems(2) Evict by (auto split: prod.splits)
    have p1: "pinv p1" "keys p1 = keys p - set_option r"
      using evict_pinv[OF Cons.prems(1)] evict_keys[OF Cons.prems(1)] e(1) by simp_all
    have "case r of None \<Rightarrow> keys p = {} | Some k \<Rightarrow> k \<in> keys p"
      by (rule evict_cases[OF Cons.prems(1)]) (use e(1) in simp_all)
    then show ?thesis
      using Cons.IH[OF p1(1) e(2)] p1(2) e(3) Evict by simp
  qed
qed

end

text \<open>The drivers forward to their manager.\<close>

definition lru_eviction :: "('k, 'k lru_cache_manager) cache_manager" where
  "lru_eviction = \<lparr>touch = lru_touch, remove = lru_remove, evict = lru_evict\<rparr>"

definition rnd_eviction :: "('k, 'k rnd_cache_manager) cache_manager" where
  "rnd_eviction = \<lparr>touch = rnd_touch, remove = rnd_remove, evict = rnd_evict\<rparr>"

interpretation lru: eviction_policy lru_eviction "\<lambda>m. set (lru_abs m)" lru_inv
proof unfold_locales
  fix p :: "'k lru_cache_manager"
  assume p: "lru_inv p" "set (lru_abs p) \<noteq> {}"
  then obtain m' where m': "lru_evict p = (Some (last (lru_abs p)), m')" "lru_inv m'"
    "lru_abs m' = butlast (lru_abs p)"
    using lru_evict_Some[of p] by auto
  have "distinct (lru_abs p)"
    using p(1) by (simp add: lru_inv_def lru_abs_def)
  then have "set (lru_abs m') = set (lru_abs p) - {last (lru_abs p)}"
    using p(2) m'(3) by (cases "lru_abs p" rule: rev_cases) auto
  with m' p(2) show "\<exists>k p'. evict lru_eviction p = (Some k, p') \<and> k \<in> set (lru_abs p) \<and>
      set (lru_abs p') = set (lru_abs p) - {k} \<and> lru_inv p'"
    by (auto simp: lru_eviction_def)
qed (auto simp: lru_eviction_def lru_abs_touch lru_abs_remove lru_evict_None
       intro: lru_inv_touch lru_inv_remove)

interpretation rnd: eviction_policy rnd_eviction "\<lambda>m. set (rnd_keys m)" "\<lambda>m. distinct (rnd_keys m)"
proof unfold_locales
  fix p :: "'k rnd_cache_manager"
  assume p: "distinct (rnd_keys p)" "set (rnd_keys p) \<noteq> {}"
  then obtain t m' where "rnd_evict p = (Some t, m')"
    by (auto simp: rnd_evict_def rnd_dist_def Let_def)
  with rnd_evict_Some[OF p(1)] show "\<exists>k p'. evict rnd_eviction p = (Some k, p') \<and>
      k \<in> set (rnd_keys p) \<and> set (rnd_keys p') = set (rnd_keys p) - {k} \<and> distinct (rnd_keys p')"
    by (auto simp: rnd_eviction_def)
qed (auto simp: rnd_eviction_def rnd_touch_def rnd_remove_def rnd_evict_def distinct_removeAll)

section \<open>Properties\<close>

lemma lru_step_refines:
  assumes "lru_inv m"
  obtains r m' where "lru_evict m = (r, m')" "lru_inv m'"
    "evict recency_spec (lru_abs m) = (r, lru_abs m')"
proof (cases "lru_abs m = []")
  case True
  with assms have "lru_evict m = (None, m)" by (rule lru_evict_None)
  with assms True show ?thesis by (intro that[of None m]) (simp_all add: recency_spec_def)
next
  case False
  with assms obtain m' where "lru_evict m = (Some (last (lru_abs m)), m')" "lru_inv m'"
    "lru_abs m' = butlast (lru_abs m)"
    by (rule lru_evict_Some)
  with False show ?thesis
    by (intro that[of "Some (last (lru_abs m))" m']) (simp_all add: recency_spec_def)
qed

lemma lru_run_refines:
  "lru_inv m \<Longrightarrow> cm_run lru_eviction xs m = (rs, m') \<Longrightarrow>
   cm_run recency_spec xs (lru_abs m) = (rs, lru_abs m')"
proof (induction xs arbitrary: m rs)
  case Nil
  then show ?case by simp
next
  case (Cons x xs)
  show ?case
  proof (cases x)
    case (Touch k)
    have "cm_run recency_spec xs (lru_abs (lru_touch k m)) = (rs, lru_abs m')"
      using Cons.IH[OF lru_inv_touch[OF Cons.prems(1)]] Cons.prems Touch
      by (simp add: lru_eviction_def)
    then show ?thesis using Touch Cons.prems by (simp add: lru_abs_touch recency_spec_def)
  next
    case (Remove k)
    have "cm_run recency_spec xs (lru_abs (lru_remove k m)) = (rs, lru_abs m')"
      using Cons.IH[OF lru_inv_remove[OF Cons.prems(1)]] Cons.prems Remove
      by (simp add: lru_eviction_def)
    then show ?thesis using Remove Cons.prems by (simp add: lru_abs_remove recency_spec_def)
  next
    case Evict
    obtain r m1 rs1 where e: "lru_evict m = (r, m1)" "cm_run lru_eviction xs m1 = (rs1, m')"
      "rs = r # rs1"
      using Cons.prems(2) Evict by (auto simp: lru_eviction_def split: prod.splits)
    have "lru_inv m1" "evict recency_spec (lru_abs m) = (r, lru_abs m1)"
      using lru_step_refines[OF Cons.prems(1)] e(1) by (metis prod.inject)+
    moreover have "cm_run recency_spec xs (lru_abs m1) = (rs1, lru_abs m')"
      using Cons.IH[OF \<open>lru_inv m1\<close> e(2)] .
    ultimately show ?thesis using Evict e(3) by simp
  qed
qed

text \<open>
  C22. Every history of calls on a fresh \<^verbatim>\<open>lru_cache_manager\<close> behaves like the plain
  most-recent-first list of keys: the same keys are evicted, in the same order, and the
  list plus iterator map ends up representing the same recency list.
\<close>

theorem lru_manager_refines_recency_list:
  "fst (cm_run lru_eviction xs lru_empty) = fst (cm_run recency_spec xs []) \<and>
   lru_abs (snd (cm_run lru_eviction xs lru_empty)) = snd (cm_run recency_spec xs [])"
proof -
  obtain rs m' where "cm_run lru_eviction xs lru_empty = (rs, m')" by force
  with lru_run_refines[OF lru_inv_empty, of xs rs m'] show ?thesis by simp
qed

text \<open>
  The random manager keeps the same contract whatever its generator yields: in every
  history on a fresh manager each eviction returns a key that was touched and neither
  removed nor evicted since (none only if there is no such key), and the tracked keys at
  the end are exactly the touched ones not removed or evicted since.
\<close>

theorem rnd_manager_lawful:
  "lawful xs (fst (cm_run rnd_eviction xs (rnd_empty g))) {} \<and>
   set (rnd_keys (snd (cm_run rnd_eviction xs (rnd_empty g)))) =
     tracked xs (fst (cm_run rnd_eviction xs (rnd_empty g))) {}"
proof -
  obtain rs m' where r: "cm_run rnd_eviction xs (rnd_empty g) = (rs, m')" by force
  have "distinct (rnd_keys (rnd_empty g))" by (simp add: rnd_empty_def)
  from rnd.run_lawful[OF this r] r show ?thesis by (simp add: rnd_empty_def)
qed

end
