(* ===== verification/Fuse_Types.thy ===== *)
theory Fuse_Types
  imports Prelude
begin

text \<open>
  The FUSE 2.9 interface the layers are stacked on (\<^verbatim>\<open>include/rsafefs/fuse_wrapper\<close>): the
  C structures with their x86-64 Linux widths, and the table \<^verbatim>\<open>fuse_operations\<close> of
  function pointers. An operation acts on a state \<open>'s\<close> (everything below the caller). A
  pointer parameter the callee may write is passed in and handed back; \<^verbatim>\<open>fuse_file_info *\<close>
  is an option because a null pointer is a legal argument that some operations test for.
\<close>

section \<open>Structures\<close>

record timespec =
  tv_sec :: "64 word"
  tv_nsec :: "64 word"

record stat =
  st_dev :: "64 word"
  st_ino :: "64 word"
  st_mode :: "32 word"
  st_nlink :: "64 word"
  st_uid :: "32 word"
  st_gid :: "32 word"
  st_rdev :: "64 word"
  st_size :: "64 word"
  st_blksize :: "64 word"
  st_blocks :: "64 word"
  st_atim :: timespec
  st_mtim :: timespec
  st_ctim :: timespec

record statvfs =
  f_bsize :: "64 word"
  f_frsize :: "64 word"
  f_blocks :: "64 word"
  f_bfree :: "64 word"
  f_bavail :: "64 word"
  f_files :: "64 word"
  f_ffree :: "64 word"
  f_favail :: "64 word"
  f_fsid :: "64 word"
  f_flag :: "64 word"
  f_namemax :: "64 word"

record utimbuf =
  actime :: "64 word"
  modtime :: "64 word"

text \<open>\<^verbatim>\<open>direct_io\<close> to \<^verbatim>\<open>flock_release\<close> are one-bit fields, \<^verbatim>\<open>padding\<close> the other 27 bits.\<close>

record fuse_file_info =
  fi_flags :: "32 word"
  fi_fh_old :: "64 word"
  fi_writepage :: "32 word"
  fi_direct_io :: "1 word"
  fi_keep_cache :: "1 word"
  fi_flush :: "1 word"
  fi_nonseekable :: "1 word"
  fi_flock_release :: "1 word"
  fi_padding :: "27 word"
  fi_fh :: "64 word"
  fi_lock_owner :: "64 word"

type_synonym fi_ptr = "fuse_file_info option"

definition zero_timespec :: timespec where
  "zero_timespec = \<lparr>tv_sec = 0, tv_nsec = 0\<rparr>"

definition zero_stat :: stat where
  "zero_stat = \<lparr>st_dev = 0, st_ino = 0, st_mode = 0, st_nlink = 0, st_uid = 0, st_gid = 0,
     st_rdev = 0, st_size = 0, st_blksize = 0, st_blocks = 0, st_atim = zero_timespec,
     st_mtim = zero_timespec, st_ctim = zero_timespec\<rparr>"

definition zero_statvfs :: statvfs where
  "zero_statvfs = \<lparr>f_bsize = 0, f_frsize = 0, f_blocks = 0, f_bfree = 0, f_bavail = 0,
     f_files = 0, f_ffree = 0, f_favail = 0, f_fsid = 0, f_flag = 0, f_namemax = 0\<rparr>"

definition zero_file_info :: fuse_file_info where
  "zero_file_info = \<lparr>fi_flags = 0, fi_fh_old = 0, fi_writepage = 0, fi_direct_io = 0,
     fi_keep_cache = 0, fi_flush = 0, fi_nonseekable = 0, fi_flock_release = 0,
     fi_padding = 0, fi_fh = 0, fi_lock_owner = 0\<rparr>"

text \<open>The access modes of the open flags, with their values in the Linux headers.\<close>

definition O_ACCMODE :: "32 word" where "O_ACCMODE = 3"
definition O_RDONLY :: "32 word" where "O_RDONLY = 0"
definition O_WRONLY :: "32 word" where "O_WRONLY = 1"
definition O_RDWR :: "32 word" where "O_RDWR = 2"

section \<open>Operation types\<close>

text \<open>
  Results: every operation returns a C \<^verbatim>\<open>int\<close>; \<open>'d\<close> is the directory buffer a \<open>readdir\<close>
  fills through its callback, whose non-zero result asks to stop.
\<close>

type_synonym 'd fill_dir = "'d \<Rightarrow> string \<Rightarrow> stat \<Rightarrow> int \<Rightarrow> int \<times> 'd"

type_synonym 's path_op = "path \<Rightarrow> ('s, int) action"
type_synonym 's path2_op = "path \<Rightarrow> path \<Rightarrow> ('s, int) action"
type_synonym 's fi_op = "path \<Rightarrow> fi_ptr \<Rightarrow> ('s, int \<times> fi_ptr) action"
type_synonym 's getattr_op = "path \<Rightarrow> stat \<Rightarrow> ('s, int \<times> stat) action"
type_synonym 's fgetattr_op = "path \<Rightarrow> stat \<Rightarrow> fi_ptr \<Rightarrow> ('s, int \<times> stat \<times> fi_ptr) action"
type_synonym 's readlink_op = "path \<Rightarrow> bytes \<Rightarrow> nat \<Rightarrow> ('s, int \<times> bytes) action"
type_synonym ('s, 'd) readdir_op =
  "path \<Rightarrow> 'd \<Rightarrow> 'd fill_dir \<Rightarrow> int \<Rightarrow> fi_ptr \<Rightarrow> ('s, int \<times> 'd \<times> fi_ptr) action"
type_synonym 's read_op =
  "path \<Rightarrow> bytes \<Rightarrow> nat \<Rightarrow> int \<Rightarrow> fi_ptr \<Rightarrow> ('s, int \<times> bytes \<times> fi_ptr) action"
type_synonym 's write_op =
  "path \<Rightarrow> bytes \<Rightarrow> nat \<Rightarrow> int \<Rightarrow> fi_ptr \<Rightarrow> ('s, int \<times> fi_ptr) action"

section \<open>The table of operations\<close>

record ('s, 'd) fuse_operations =
  op_init :: "('s, unit) action option"
  op_destroy :: "('s, unit) action option"
  op_getattr :: "'s getattr_op option"
  op_fgetattr :: "'s fgetattr_op option"
  op_access :: "(path \<Rightarrow> int \<Rightarrow> ('s, int) action) option"
  op_readlink :: "'s readlink_op option"
  op_opendir :: "'s fi_op option"
  op_readdir :: "('s, 'd) readdir_op option"
  op_releasedir :: "'s fi_op option"
  op_mknod :: "(path \<Rightarrow> 32 word \<Rightarrow> 64 word \<Rightarrow> ('s, int) action) option"
  op_mkdir :: "(path \<Rightarrow> 32 word \<Rightarrow> ('s, int) action) option"
  op_symlink :: "'s path2_op option"
  op_unlink :: "'s path_op option"
  op_rmdir :: "'s path_op option"
  op_rename :: "'s path2_op option"
  op_link :: "'s path2_op option"
  op_chmod :: "(path \<Rightarrow> 32 word \<Rightarrow> ('s, int) action) option"
  op_chown :: "(path \<Rightarrow> 32 word \<Rightarrow> 32 word \<Rightarrow> ('s, int) action) option"
  op_truncate :: "(path \<Rightarrow> int \<Rightarrow> ('s, int) action) option"
  op_ftruncate :: "(path \<Rightarrow> int \<Rightarrow> fi_ptr \<Rightarrow> ('s, int \<times> fi_ptr) action) option"
  op_utime :: "(path \<Rightarrow> utimbuf \<Rightarrow> ('s, int) action) option"
  op_utimens :: "(path \<Rightarrow> timespec \<Rightarrow> timespec \<Rightarrow> ('s, int) action) option"
  op_create :: "(path \<Rightarrow> 32 word \<Rightarrow> fi_ptr \<Rightarrow> ('s, int \<times> fi_ptr) action) option"
  op_open :: "'s fi_op option"
  op_read :: "'s read_op option"
  op_write :: "'s write_op option"
  op_statfs :: "(path \<Rightarrow> statvfs \<Rightarrow> ('s, int \<times> statvfs) action) option"
  op_flush :: "'s fi_op option"
  op_release :: "'s fi_op option"
  op_fsync :: "(path \<Rightarrow> int \<Rightarrow> fi_ptr \<Rightarrow> ('s, int \<times> fi_ptr) action) option"
  op_fallocate :: "(path \<Rightarrow> int \<Rightarrow> int \<Rightarrow> int \<Rightarrow> fi_ptr \<Rightarrow> ('s, int \<times> fi_ptr) action) option"
  op_setxattr :: "(path \<Rightarrow> string \<Rightarrow> bytes \<Rightarrow> nat \<Rightarrow> int \<Rightarrow> ('s, int) action) option"
  op_getxattr :: "(path \<Rightarrow> string \<Rightarrow> bytes \<Rightarrow> nat \<Rightarrow> ('s, int \<times> bytes) action) option"
  op_listxattr :: "(path \<Rightarrow> bytes \<Rightarrow> nat \<Rightarrow> ('s, int \<times> bytes) action) option"
  op_removexattr :: "(path \<Rightarrow> string \<Rightarrow> ('s, int) action) option"

text \<open>\<^verbatim>\<open>memset(&operations_, 0, sizeof(operations_))\<close>: every pointer null.\<close>

definition null_operations :: "('s, 'd) fuse_operations" where
  "null_operations = \<lparr>op_init = None, op_destroy = None, op_getattr = None,
     op_fgetattr = None, op_access = None, op_readlink = None, op_opendir = None,
     op_readdir = None, op_releasedir = None, op_mknod = None, op_mkdir = None,
     op_symlink = None, op_unlink = None, op_rmdir = None, op_rename = None, op_link = None,
     op_chmod = None, op_chown = None, op_truncate = None, op_ftruncate = None,
     op_utime = None, op_utimens = None, op_create = None, op_open = None, op_read = None, op_write = None,
     op_statfs = None, op_flush = None, op_release = None, op_fsync = None,
     op_fallocate = None, op_setxattr = None, op_getxattr = None, op_listxattr = None,
     op_removexattr = None\<rparr>"

section \<open>Layers that serve a file\<close>

text \<open>
  The contract of a next layer that serves a file of contents \<open>F\<close> under \<open>path\<close>: a read at a
  non-negative offset returns the number of bytes available there, up to the requested
  number, and puts exactly these at the front of the buffer. \<open>I\<close> is what the layer keeps.
\<close>

definition serves_file :: "'s read_op \<Rightarrow> ('s \<Rightarrow> bool) \<Rightarrow> path \<Rightarrow> bytes \<Rightarrow> bool" where
  "serves_file rd I path F \<longleftrightarrow>
     (\<forall>buf n off fi s. I s \<and> 0 \<le> off \<and> n \<le> length buf \<longrightarrow>
        (\<exists>fi' s'. rd path buf n off fi s =
           Inr ((int (length (fslice F (nat off) n)),
                 fslice F (nat off) n @ drop (length (fslice F (nat off) n)) buf, fi'), s') \<and> I s'))"

lemma serves_fileD:
  assumes "serves_file rd I path F" "I s" "n \<le> length buf"
  obtains fi' s' where "rd path buf n (int k) fi s =
      Inr ((int (length (fslice F k n)), fslice F k n @ drop (length (fslice F k n)) buf, fi'), s')" "I s'"
  using assms unfolding serves_file_def by (metis nat_int of_nat_0_le_iff)

text \<open>A next layer that serves one fixed file.\<close>

definition const_read :: "bytes \<Rightarrow> 's read_op" where
  "const_read F path buf n off fi s =
     Inr ((int (length (fslice F (nat off) n)),
           fslice F (nat off) n @ drop (length (fslice F (nat off) n)) buf, fi), s)"

lemma const_read_serves: "serves_file (const_read F) I path F"
  by (simp add: serves_file_def const_read_def)

end
