(* ===== verification/Metadata_Cache.thy ===== *)
theory Metadata_Cache
  imports Cache_Manager Fuse_Types
begin

text \<open>
  The class \<^verbatim>\<open>metadata_cache::cache\<close> (\<^verbatim>\<open>lib/layers/metadata_cache/cache.cpp\<close>): a map from
  paths to \<^verbatim>\<open>struct stat\<close> with a time-out, bounded in its number of entries, with an
  eviction policy that tracks the cached paths. \<open>put\<close> and \<open>remove\<close> run under the exclusive
  lock. \<open>get\<close> runs under the shared lock, which it gives up and takes again exclusively to
  drop an expired entry; \<open>mc_get\<close> is its run without another thread in between.
\<close>

section \<open>State\<close>

record mc_config =
  mc_size :: nat
  mc_time_out :: int

record metadata =
  md_stbuf :: stat
  md_timestamp :: int

record 'p mcache =
  mc_cache :: "(path, metadata) fmap"
  mc_policy :: 'p

definition mc_new :: "'p \<Rightarrow> 'p mcache" where
  "mc_new p = \<lparr>mc_cache = fmempty, mc_policy = p\<rparr>"

section \<open>Operations\<close>

text \<open>\<open>now\<close> is what \<^verbatim>\<open>high_resolution_clock::now()\<close> returns during the call.\<close>

definition metadata_new :: "int \<Rightarrow> stat \<Rightarrow> metadata" where
  [simp]: "metadata_new now stbuf = \<lparr>md_stbuf = stbuf, md_timestamp = now\<rparr>"

definition metadata_is_valid :: "int \<Rightarrow> int \<Rightarrow> metadata \<Rightarrow> bool" where
  "metadata_is_valid time_out now md =
     (if time_out > 0 then elapsed_seconds now (md_timestamp md) < time_out else True)"

definition mc_put :: "(path, 'p) cache_manager \<Rightarrow> mc_config \<Rightarrow> int \<Rightarrow> path \<Rightarrow> stat \<Rightarrow> 'p mcache
    \<Rightarrow> 'p mcache" where
  "mc_put ep cfg now path stbuf c =
     (let c1 = (if map_size (mc_cache c) \<ge> mc_size cfg
                then let (selected_path, p) = evict ep (mc_policy c)
                     in (case selected_path of
                           None \<Rightarrow> c\<lparr>mc_policy := p\<rparr>
                         | Some q \<Rightarrow> c\<lparr>mc_cache := fmdrop q (mc_cache c), mc_policy := p\<rparr>)
                else c)
      in c1\<lparr>mc_cache := emplace path (metadata_new now stbuf) (mc_cache c1),
            mc_policy := touch ep path (mc_policy c1)\<rparr>)"

definition mc_remove :: "(path, 'p) cache_manager \<Rightarrow> path \<Rightarrow> 'p mcache \<Rightarrow> 'p mcache" where
  "mc_remove ep path c =
     c\<lparr>mc_cache := fmdrop path (mc_cache c), mc_policy := remove ep path (mc_policy c)\<rparr>"

definition mc_get :: "(path, 'p) cache_manager \<Rightarrow> mc_config \<Rightarrow> int \<Rightarrow> path \<Rightarrow> stat \<Rightarrow> 'p mcache
    \<Rightarrow> bool \<times> stat \<times> 'p mcache" where
  "mc_get ep cfg now path stbuf c =
     (case fmlookup (mc_cache c) path of
        None \<Rightarrow> (False, stbuf, c)
      | Some md \<Rightarrow>
          (if \<not> metadata_is_valid (mc_time_out cfg) now md
           then (False, stbuf, mc_remove ep path c)
           else (True, md_stbuf md, c\<lparr>mc_policy := touch ep path (mc_policy c)\<rparr>)))"

section \<open>Invariant\<close>

text \<open>
  In every eviction policy that keeps its contract, the policy tracks exactly the cached
  paths and the number of entries stays within the configured one (a cache of configured
  size 0 still holds one entry).
\<close>

definition mc_inv :: "('p \<Rightarrow> path set) \<Rightarrow> ('p \<Rightarrow> bool) \<Rightarrow> mc_config \<Rightarrow> 'p mcache \<Rightarrow> bool" where
  "mc_inv keys pinv cfg c \<longleftrightarrow> pinv (mc_policy c) \<and> keys (mc_policy c) = fmdom' (mc_cache c)
     \<and> map_size (mc_cache c) \<le> max 1 (mc_size cfg)"

locale path_policy = eviction_policy ep keys pinv
  for ep :: "(path, 'p) cache_manager" and keys pinv
begin

lemma mc_inv_new: "pinv p \<Longrightarrow> keys p = {} \<Longrightarrow> mc_inv keys pinv cfg (mc_new p)"
  by (simp add: mc_inv_def mc_new_def)

lemma mc_inv_remove:
  assumes "mc_inv keys pinv cfg c"
  shows "mc_inv keys pinv cfg (mc_remove ep path c)"
proof -
  have "map_size (fmdrop path (mc_cache c)) \<le> map_size (mc_cache c)"
    by (simp add: map_size_card card_mono Diff_subset)
  then show ?thesis
    using assms by (auto simp: mc_inv_def mc_remove_def keys_remove pinv_remove)
qed

lemma mc_inv_get:
  assumes "mc_inv keys pinv cfg c" "mc_get ep cfg now path stbuf c = (b, st, c')"
  shows "mc_inv keys pinv cfg c'"
proof (cases "fmlookup (mc_cache c) path")
  case None
  with assms show ?thesis by (simp add: mc_get_def)
next
  case (Some md)
  then have "path \<in> fmdom' (mc_cache c)" by (simp add: fmap_simps)
  with assms Some mc_inv_remove[OF assms(1), of path] show ?thesis
    by (auto simp: mc_get_def mc_inv_def keys_touch pinv_touch insert_absorb split: if_splits)
qed

text \<open>The state between the eviction and the insertion in \<open>put\<close> has room for the new entry.\<close>

lemma mc_put_room:
  assumes "mc_inv keys pinv cfg c"
  obtains c1 where "mc_put ep cfg now path stbuf c =
      c1\<lparr>mc_cache := emplace path (metadata_new now stbuf) (mc_cache c1),
         mc_policy := touch ep path (mc_policy c1)\<rparr>"
    "pinv (mc_policy c1)" "keys (mc_policy c1) = fmdom' (mc_cache c1)"
    "card (fmdom' (mc_cache c1)) \<le> max 1 (mc_size cfg) - 1"
    "\<And>q. fmlookup (mc_cache c1) q = None \<or> fmlookup (mc_cache c1) q = fmlookup (mc_cache c) q"
proof (cases "map_size (mc_cache c) \<ge> mc_size cfg")
  case False
  with assms show ?thesis
    by (intro that[of c]) (auto simp: mc_put_def mc_inv_def map_size_card)
next
  case True
  have p: "pinv (mc_policy c)" and k: "keys (mc_policy c) = fmdom' (mc_cache c)"
    and n: "card (fmdom' (mc_cache c)) \<le> max 1 (mc_size cfg)"
    using assms by (simp_all add: mc_inv_def map_size_card)
  from p show ?thesis
  proof (cases rule: evict_cases)
    case 1
    with True k p show ?thesis
      by (intro that[of c]) (simp_all add: mc_put_def map_size_card)
  next
    case (2 q p')
    then have "card (fmdom' (mc_cache c) - {q}) = card (fmdom' (mc_cache c)) - 1"
      using k by simp
    with 2 True k n show ?thesis
      by (intro that[of "c\<lparr>mc_cache := fmdrop q (mc_cache c), mc_policy := p'\<rparr>"])
        (auto simp: mc_put_def)
  qed
qed

lemma mc_inv_put:
  assumes "mc_inv keys pinv cfg c"
  shows "mc_inv keys pinv cfg (mc_put ep cfg now path stbuf c)"
proof -
  obtain c1 where c1: "mc_put ep cfg now path stbuf c =
      c1\<lparr>mc_cache := emplace path (metadata_new now stbuf) (mc_cache c1),
         mc_policy := touch ep path (mc_policy c1)\<rparr>"
    "pinv (mc_policy c1)" "keys (mc_policy c1) = fmdom' (mc_cache c1)"
    "card (fmdom' (mc_cache c1)) \<le> max 1 (mc_size cfg) - 1"
    using mc_put_room[OF assms] by metis
  have "card (insert path (fmdom' (mc_cache c1))) \<le> Suc (card (fmdom' (mc_cache c1)))"
    by (simp add: card_insert_if)
  with c1(4) have "card (insert path (fmdom' (mc_cache c1))) \<le> max 1 (mc_size cfg)"
    by linarith
  with c1 show ?thesis
    by (simp add: mc_inv_def keys_touch pinv_touch map_size_card fmap_simps)
qed

end

interpretation mc_lru: path_policy lru_eviction "\<lambda>m. set (lru_abs m)" lru_inv
  by unfold_locales

interpretation mc_rnd: path_policy rnd_eviction "\<lambda>m. set (rnd_keys m)" "\<lambda>m. distinct (rnd_keys m)"
  by unfold_locales

section \<open>Interleaved use\<close>

text \<open>
  Several threads share the cache. \<open>put\<close>, \<open>remove\<close> and a \<open>get\<close> that finds no entry or a
  fresh one are single critical sections. A \<open>get\<close> that finds an expired entry leaves its
  shared section and drops the path in a second, exclusive one; in between any other step
  may run. The state is the cache and the paths such readers are about to drop.
\<close>

inductive mc_step :: "(path, 'p) cache_manager \<Rightarrow> mc_config \<Rightarrow> 'p mcache \<times> path list
    \<Rightarrow> 'p mcache \<times> path list \<Rightarrow> bool" for ep cfg where
  put: "mc_step ep cfg (c, ps) (mc_put ep cfg now path stbuf c, ps)"
| remove: "mc_step ep cfg (c, ps) (mc_remove ep path c, ps)"
| get_hit: "mc_step ep cfg (c, ps) (c\<lparr>mc_policy := touch ep path (mc_policy c)\<rparr>, ps)"
    if "fmlookup (mc_cache c) path = Some md" "metadata_is_valid (mc_time_out cfg) now md"
| get_expired: "mc_step ep cfg (c, ps) (c, path # ps)"
    if "fmlookup (mc_cache c) path = Some md" "\<not> metadata_is_valid (mc_time_out cfg) now md"
| get_drop: "mc_step ep cfg (c, ps @ path # qs) (mc_remove ep path c, ps @ qs)"

inductive mc_reachable :: "(path, 'p) cache_manager \<Rightarrow> mc_config \<Rightarrow> 'p \<Rightarrow> 'p mcache \<times> path list
    \<Rightarrow> bool" for ep cfg p0 where
  start: "mc_reachable ep cfg p0 (mc_new p0, [])"
| step: "mc_reachable ep cfg p0 t" if "mc_reachable ep cfg p0 s" "mc_step ep cfg s t"

context path_policy
begin

lemma mc_step_inv: "mc_step ep cfg s t \<Longrightarrow> mc_inv keys pinv cfg (fst s) \<Longrightarrow> mc_inv keys pinv cfg (fst t)"
proof (induction rule: mc_step.induct)
  case (get_hit c path md now ps)
  then have "path \<in> fmdom' (mc_cache c)" by (simp add: fmap_simps)
  with get_hit show ?case by (auto simp: mc_inv_def keys_touch pinv_touch)
qed (simp_all add: mc_inv_put mc_inv_remove)

lemma mc_reachable_inv:
  assumes "mc_reachable ep cfg p0 s" "pinv p0" "keys p0 = {}"
  shows "mc_inv keys pinv cfg (fst s)"
  using assms by (induction rule: mc_reachable.induct) (auto intro: mc_inv_new mc_step_inv)

end

section \<open>Properties\<close>

text \<open>
  C25. However threads interleave on a metadata cache with the LRU policy, including
  readers that have released the shared lock to drop an expired entry, the policy tracks
  exactly the cached paths and the cache never holds more than the configured number of
  entries (one, if that number is zero).
\<close>

theorem metadata_cache_bounded_lru:
  assumes "mc_reachable lru_eviction cfg lru_empty (c, pending)"
  shows "set (lru_abs (mc_policy c)) = fmdom' (mc_cache c) \<and>
         map_size (mc_cache c) \<le> max 1 (mc_size cfg)"
  using mc_lru.mc_reachable_inv[OF assms] by (simp add: mc_inv_def)

theorem metadata_cache_bounded_lru_witness:
  "mc_reachable lru_eviction \<lparr>mc_size = 1, mc_time_out = 60\<rparr> lru_empty
     (mc_put lru_eviction \<lparr>mc_size = 1, mc_time_out = 60\<rparr> 0 ''/a'' zero_stat (mc_new lru_empty), []) \<and>
   map_size (mc_cache (mc_put lru_eviction \<lparr>mc_size = 1, mc_time_out = 60\<rparr> 0 ''/a'' zero_stat
     (mc_new lru_empty))) \<le> 1"
proof -
  have r: "mc_reachable lru_eviction \<lparr>mc_size = 1, mc_time_out = 60\<rparr> lru_empty
     (mc_put lru_eviction \<lparr>mc_size = 1, mc_time_out = 60\<rparr> 0 ''/a'' zero_stat (mc_new lru_empty), [])"
    by (rule mc_reachable.step[OF mc_reachable.start mc_step.put])
  from r metadata_cache_bounded_lru[OF r] show ?thesis by simp
qed

text \<open>
  The same bound and agreement hold for the random policy, for every generator.
\<close>

theorem metadata_cache_bounded_rnd:
  assumes "mc_reachable rnd_eviction cfg (rnd_empty g) (c, pending)"
  shows "set (rnd_keys (mc_policy c)) = fmdom' (mc_cache c) \<and>
         map_size (mc_cache c) \<le> max 1 (mc_size cfg)"
  using mc_rnd.mc_reachable_inv[OF assms] by (simp add: mc_inv_def rnd_empty_def)

theorem metadata_cache_bounded_rnd_witness:
  "mc_reachable rnd_eviction \<lparr>mc_size = 1, mc_time_out = 60\<rparr> (rnd_empty id)
     (mc_put rnd_eviction \<lparr>mc_size = 1, mc_time_out = 60\<rparr> 0 ''/a'' zero_stat (mc_new (rnd_empty id)), []) \<and>
   map_size (mc_cache (mc_put rnd_eviction \<lparr>mc_size = 1, mc_time_out = 60\<rparr> 0 ''/a'' zero_stat
     (mc_new (rnd_empty id)))) \<le> 1"
proof -
  have r: "mc_reachable rnd_eviction \<lparr>mc_size = 1, mc_time_out = 60\<rparr> (rnd_empty id)
     (mc_put rnd_eviction \<lparr>mc_size = 1, mc_time_out = 60\<rparr> 0 ''/a'' zero_stat (mc_new (rnd_empty id)), [])"
    by (rule mc_reachable.step[OF mc_reachable.start mc_step.put])
  from r metadata_cache_bounded_rnd[OF r] show ?thesis by simp
qed

text \<open>
  A \<open>get\<close> after a \<open>put\<close> of a path that was not cached returns the stored attributes
  exactly until the time-out has elapsed since the \<open>put\<close> (for ever with a time-out of zero
  or less); from then on it reports a miss, leaves the caller's buffer alone and drops the
  entry. This holds for every policy and also when the \<open>put\<close> had to evict.
\<close>

theorem metadata_get_after_put:
  assumes "fmlookup (mc_cache c) path = None" "now \<le> now'"
  shows "let c' = mc_put ep cfg now path st c;
             (hit, st', c'') = mc_get ep cfg now' path buf c'
         in (if mc_time_out cfg \<le> 0 \<or> now' - now < mc_time_out cfg * 1000000000
             then hit \<and> st' = st \<and> mc_cache c'' = mc_cache c'
             else \<not> hit \<and> st' = buf \<and> fmlookup (mc_cache c'') path = None)"
proof -
  let ?c' = "mc_put ep cfg now path st c"
  have l: "fmlookup (mc_cache ?c') path = Some \<lparr>md_stbuf = st, md_timestamp = now\<rparr>"
    using assms(1) by (auto simp: mc_put_def Let_def emplace_lookup split: prod.splits option.splits)
  have "elapsed_seconds now' now < t \<longleftrightarrow> now' - now < t * 1000000000" for t
    using assms(2) by (simp add: elapsed_seconds_later) linarith
  then show ?thesis
    using l by (auto simp: mc_get_def metadata_is_valid_def mc_remove_def Let_def)
qed


theorem metadata_get_after_put_witness:
  "fst (mc_get lru_eviction \<lparr>mc_size = 1, mc_time_out = 60\<rparr> 59000000000 ''/a'' zero_stat
     (mc_put lru_eviction \<lparr>mc_size = 1, mc_time_out = 60\<rparr> 0 ''/a'' zero_stat (mc_new lru_empty))) \<and>
   \<not> fst (mc_get lru_eviction \<lparr>mc_size = 1, mc_time_out = 60\<rparr> 60000000000 ''/a'' zero_stat
     (mc_put lru_eviction \<lparr>mc_size = 1, mc_time_out = 60\<rparr> 0 ''/a'' zero_stat (mc_new lru_empty)))"
proof -
  have n: "fmlookup (mc_cache (mc_new lru_empty)) ''/a'' = None" by (simp add: mc_new_def)
  show ?thesis
    using metadata_get_after_put[OF n, of 0 59000000000 lru_eviction "\<lparr>mc_size = 1, mc_time_out = 60\<rparr>"
        zero_stat zero_stat]
      metadata_get_after_put[OF n, of 0 60000000000 lru_eviction "\<lparr>mc_size = 1, mc_time_out = 60\<rparr>"
        zero_stat zero_stat]
    by (simp add: Let_def split: prod.splits)
qed

end
