(* ===== verification/Data_Cache.thy ===== *)
theory Data_Cache
  imports Cache_Manager Fuse_Types
begin

text \<open>
  The class \<^verbatim>\<open>data_cache::cache\<close> (\<^verbatim>\<open>lib/layers/data_cache/cache.cpp\<close>): a cache of
  fixed-size blocks of file data above the operations of the next layer. A block is used
  while its modification time agrees with the one recorded when the file was opened and
  its time-out has not elapsed. \<open>clk s\<close> is what \<^verbatim>\<open>high_resolution_clock::now()\<close> returns in
  state \<open>s\<close> of the layers below.
\<close>

section \<open>State\<close>

record dc_config =
  dc_size :: nat
  dc_block_size :: nat
  dc_time_out :: int

record block =
  b_buf :: bytes
  b_size :: nat
  b_offset :: int
  b_timestamp :: int
  b_mtime :: timespec

type_synonym dc_key = "path \<times> nat"

record 'p dcache =
  dc_cache_size :: nat
  dc_cache :: "(dc_key, block) fmap"
  dc_mtimes :: "(path, timespec) fmap"
  dc_policy :: 'p

definition dc_new :: "'p \<Rightarrow> 'p dcache" where
  "dc_new p = \<lparr>dc_cache_size = 0, dc_cache = fmempty, dc_mtimes = fmempty, dc_policy = p\<rparr>"

section \<open>Operations\<close>

definition block_new :: "int \<Rightarrow> bytes \<Rightarrow> nat \<Rightarrow> int \<Rightarrow> timespec \<Rightarrow> block" where
  [simp]: "block_new now buf sz offset mtime =
     \<lparr>b_buf = buf, b_size = sz, b_offset = offset, b_timestamp = now, b_mtime = mtime\<rparr>"

definition block_is_valid :: "int \<Rightarrow> int \<Rightarrow> timespec \<Rightarrow> block \<Rightarrow> bool" where
  "block_is_valid time_out now current_file_mtime b =
     (if tv_sec (b_mtime b) \<noteq> tv_sec current_file_mtime \<or>
         tv_nsec (b_mtime b) \<noteq> tv_nsec current_file_mtime then False
      else if time_out > 0 then elapsed_seconds now (b_timestamp b) < time_out
      else True)"

definition dc_open :: "('s, 'd) fuse_operations \<Rightarrow> path \<Rightarrow> fi_ptr \<Rightarrow> 'p dcache \<times> 's
    \<Rightarrow> ub + (int \<times> fi_ptr) \<times> 'p dcache \<times> 's" where
  "dc_open ops path fi = (\<lambda>(c, s).
     rbind (fn (op_open ops)) (\<lambda>open. rbind (open path fi s) (\<lambda>((res, fi1), s1).
       if res < 0 then Inr ((res, fi1), c, s1)
       else rbind (fn (op_getattr ops)) (\<lambda>getattr. rbind (getattr path zero_stat s1)
         (\<lambda>((attr_res, stbuf), s2).
            if attr_res < 0 then Inr ((attr_res, fi1), c, s2)
            else Inr ((0, fi1), c\<lparr>dc_mtimes := fmupd path (st_mtim stbuf) (dc_mtimes c)\<rparr>, s2))))))"

definition dc_release :: "('s, 'd) fuse_operations \<Rightarrow> path \<Rightarrow> fi_ptr \<Rightarrow> 'p dcache \<times> 's
    \<Rightarrow> ub + (int \<times> fi_ptr) \<times> 'p dcache \<times> 's" where
  "dc_release ops path fi = (\<lambda>(c, s).
     let c1 = c\<lparr>dc_mtimes := fmdrop path (dc_mtimes c)\<rparr>
     in rbind (fn (op_release ops)) (\<lambda>release. rbind (release path fi s)
          (\<lambda>(r, s1). Inr (r, c1, s1))))"

definition dc_remove_block :: "dc_config \<Rightarrow> dc_key \<Rightarrow> 'p dcache \<Rightarrow> 'p dcache" where
  "dc_remove_block cfg key c =
     (case fmlookup (dc_cache c) key of
        None \<Rightarrow> c
      | Some _ \<Rightarrow> c\<lparr>dc_cache_size := size_sub (dc_cache_size c) (dc_block_size cfg),
                    dc_cache := fmdrop key (dc_cache c)\<rparr>)"

text \<open>
  One turn of the loop of \<open>read\<close>. The loop variables are the caller's buffer, \<^verbatim>\<open>readed\<close>,
  \<^verbatim>\<open>seeker\<close>, the file handle, the cache and the state below. A turn goes on with new loop
  variables or leaves the function with a result (\<^verbatim>\<open>break\<close> leaves with \<^verbatim>\<open>readed\<close>).
\<close>

type_synonym ('p, 's) dc_vars = "bytes \<times> nat \<times> int \<times> fi_ptr \<times> 'p dcache \<times> 's"
type_synonym ('p, 's) dc_result = "(int \<times> bytes \<times> fi_ptr) \<times> 'p dcache \<times> 's"

datatype ('v, 'r) turn = Go_on 'v | Leave 'r

text \<open>
  The block is in the cache: refresh it from the next layer if it is no longer valid
  (dropping it if that read fails), then copy what it has of the requested range. The size
  left in the block is a \<^verbatim>\<open>size_t\<close> difference. \<open>size - readed\<close> cannot wrap, since
  \<^verbatim>\<open>readed\<close> never exceeds \<^verbatim>\<open>size\<close>.
\<close>

definition dc_refresh_block :: "dc_config \<Rightarrow> ('s \<Rightarrow> int) \<Rightarrow> ('s, 'd) fuse_operations \<Rightarrow> path \<Rightarrow> timespec
    \<Rightarrow> block \<Rightarrow> fi_ptr \<Rightarrow> 's \<Rightarrow> ub + int \<times> block \<times> fi_ptr \<times> 's" where
  "dc_refresh_block cfg clk ops path file_mtime b fi s =
     rbind (fn (op_read ops)) (\<lambda>read.
     rbind (read path (b_buf b) (dc_block_size cfg) (b_offset b) fi s) (\<lambda>((res, buf, fi1), s1).
       Inr (res, b\<lparr>b_buf := buf, b_size := size_of_int res, b_timestamp := clk s1,
                   b_mtime := file_mtime\<rparr>, fi1, s1)))"

definition dc_read_hit :: "(dc_key, 'p) cache_manager \<Rightarrow> dc_config \<Rightarrow> ('s \<Rightarrow> int)
    \<Rightarrow> ('s, 'd) fuse_operations \<Rightarrow> path \<Rightarrow> nat \<Rightarrow> timespec \<Rightarrow> dc_key \<Rightarrow> block
    \<Rightarrow> ('p, 's) dc_vars \<Rightarrow> ub + (('p, 's) dc_vars, ('p, 's) dc_result) turn" where
  "dc_read_hit ep cfg clk ops path sz file_mtime key b = (\<lambda>(buf, readed, seeker, fi, c, s).
     rbind (if block_is_valid (dc_time_out cfg) (clk s) file_mtime b then Inr (0, b, fi, s)
            else dc_refresh_block cfg clk ops path file_mtime b fi s) (\<lambda>(res, b1, fi1, s1).
       let c1 = c\<lparr>dc_cache := fmupd key b1 (dc_cache c)\<rparr> in
       if res < 0
       then let c2 = dc_remove_block cfg key c1;
                c3 = c2\<lparr>dc_policy := remove ep key (dc_policy c2)\<rparr>
            in Inr (Leave ((res, buf, fi1), c3, s1))
       else let offset_in_the_block = seeker - b_offset b1;
                n_bytes_to_copy =
                  min (sz - readed) (size_sub (b_size b1) (size_of_int offset_in_the_block))
            in if n_bytes_to_copy = 0 then Inr (Leave ((int_of_size readed, buf, fi1), c1, s1))
               else rbind (mem_copy buf readed (b_buf b1) (nat offset_in_the_block) n_bytes_to_copy)
                 (\<lambda>buf1. Inr (Go_on (buf1, readed + n_bytes_to_copy, off_plus seeker n_bytes_to_copy,
                    fi1, c1\<lparr>dc_policy := touch ep key (dc_policy c1)\<rparr>, s1)))))"

text \<open>
  The block is not in the cache: make room if the cache is over its size, read the block
  from the next layer into a zeroed buffer and insert it.
\<close>

definition dc_make_room :: "(dc_key, 'p) cache_manager \<Rightarrow> dc_config \<Rightarrow> 'p dcache \<Rightarrow> 'p dcache" where
  "dc_make_room ep cfg c =
     (if dc_cache_size c > dc_size cfg
      then let (selected_key, p) = evict ep (dc_policy c); c1 = c\<lparr>dc_policy := p\<rparr>
           in (case selected_key of None \<Rightarrow> c1 | Some k \<Rightarrow> dc_remove_block cfg k c1)
      else c)"

definition dc_insert_block :: "dc_config \<Rightarrow> dc_key \<Rightarrow> block \<Rightarrow> 'p dcache \<Rightarrow> 'p dcache" where
  "dc_insert_block cfg key b c =
     (case fmlookup (dc_cache c) key of
        Some _ \<Rightarrow> c
      | None \<Rightarrow> c\<lparr>dc_cache := fmupd key b (dc_cache c),
                  dc_cache_size := size_add (dc_cache_size c) (dc_block_size cfg)\<rparr>)"

definition dc_read_miss :: "(dc_key, 'p) cache_manager \<Rightarrow> dc_config \<Rightarrow> ('s \<Rightarrow> int)
    \<Rightarrow> ('s, 'd) fuse_operations \<Rightarrow> path \<Rightarrow> timespec \<Rightarrow> dc_key
    \<Rightarrow> ('p, 's) dc_vars \<Rightarrow> ub + (('p, 's) dc_vars, ('p, 's) dc_result) turn" where
  "dc_read_miss ep cfg clk ops path file_mtime key = (\<lambda>(buf, readed, seeker, fi, c, s).
     let c1 = dc_make_room ep cfg c;
         block_offset = off_of_size ((snd key * dc_block_size cfg) mod 2 ^ 64)
     in rbind (fn (op_read ops)) (\<lambda>read.
        rbind (read path (replicate (dc_block_size cfg) (CHR 0x00)) (dc_block_size cfg) block_offset fi s)
          (\<lambda>((block_size, new_buf, fi1), s1).
            if block_size < 0 then Inr (Leave ((block_size, buf, fi1), c1, s1))
            else if block_size = 0 then Inr (Leave ((int_of_size readed, buf, fi1), c1, s1))
            else let b = block_new (clk s1) new_buf (size_of_int block_size) block_offset file_mtime;
                     c2 = dc_insert_block cfg key b c1
                 in Inr (Go_on (buf, readed, seeker, fi1,
                          c2\<lparr>dc_policy := touch ep key (dc_policy c2)\<rparr>, s1)))))"

definition dc_read_turn :: "(dc_key, 'p) cache_manager \<Rightarrow> dc_config \<Rightarrow> ('s \<Rightarrow> int)
    \<Rightarrow> ('s, 'd) fuse_operations \<Rightarrow> path \<Rightarrow> nat \<Rightarrow> timespec
    \<Rightarrow> ('p, 's) dc_vars \<Rightarrow> ub + (('p, 's) dc_vars, ('p, 's) dc_result) turn" where
  "dc_read_turn ep cfg clk ops path sz file_mtime = (\<lambda>(buf, readed, seeker, fi, c, s).
     if dc_block_size cfg = 0 then Inl Div_by_zero
     else let block_id = size_of_int seeker div dc_block_size cfg; key = (path, block_id)
          in (case fmlookup (dc_cache c) key of
                Some b \<Rightarrow> dc_read_hit ep cfg clk ops path sz file_mtime key b
                            (buf, readed, seeker, fi, c, s)
              | None \<Rightarrow> dc_read_miss ep cfg clk ops path file_mtime key
                            (buf, readed, seeker, fi, c, s)))"

text \<open>
  The loop ends: a turn that finds its block copies at least one byte or leaves, and a turn
  that does not find it leaves or has it in the cache for the next turn.
\<close>

definition dc_vars_measure :: "dc_config \<Rightarrow> path \<Rightarrow> nat \<Rightarrow> ('p, 's) dc_vars \<Rightarrow> nat" where
  "dc_vars_measure cfg path sz = (\<lambda>(buf, readed, seeker, fi, c, s).
     2 * (sz - readed) +
     (if fmlookup (dc_cache c) (path, size_of_int seeker div dc_block_size cfg) = None then 1 else 0))"

lemma dc_insert_block_lookup: "fmlookup (dc_cache (dc_insert_block cfg key b c)) key \<noteq> None"
  by (auto simp: dc_insert_block_def split: option.splits)

lemma dc_read_turn_decreases:
  assumes "dc_read_turn ep cfg clk ops path sz file_mtime v = Inr (Go_on v')"
  shows "dc_vars_measure cfg path sz v' < dc_vars_measure cfg path sz v"
proof -
  obtain buf readed seeker fi c s where v: "v = (buf, readed, seeker, fi, c, s)"
    by (cases v)
  let ?key = "(path, size_of_int seeker div dc_block_size cfg)"
  show ?thesis
  proof (cases "fmlookup (dc_cache c) ?key")
    case None
    with assms v show ?thesis
      by (auto simp: dc_read_turn_def dc_read_miss_def dc_vars_measure_def Let_def rbind_eq_Inr_conv
          dc_insert_block_lookup split: if_splits prod.splits)
  next
    case (Some b)
    with assms v have "readed < fst (snd v') \<and> fst (snd v') \<le> sz"
      by (auto simp: dc_read_turn_def dc_read_hit_def Let_def rbind_eq_Inr_conv
          split: if_splits prod.splits)
    then show ?thesis
      using v Some by (cases v') (auto simp: dc_vars_measure_def)
  qed
qed

function dc_read_loop :: "(dc_key, 'p) cache_manager \<Rightarrow> dc_config \<Rightarrow> ('s \<Rightarrow> int)
    \<Rightarrow> ('s, 'd) fuse_operations \<Rightarrow> path \<Rightarrow> nat \<Rightarrow> timespec
    \<Rightarrow> ('p, 's) dc_vars \<Rightarrow> ub + ('p, 's) dc_result" where
  "dc_read_loop ep cfg clk ops path sz file_mtime (buf, readed, seeker, fi, c, s) =
     (if readed = sz then Inr ((int_of_size readed, buf, fi), c, s)
      else rbind (dc_read_turn ep cfg clk ops path sz file_mtime (buf, readed, seeker, fi, c, s))
        (\<lambda>t. case t of
               Leave r \<Rightarrow> Inr r
             | Go_on v \<Rightarrow> dc_read_loop ep cfg clk ops path sz file_mtime v))"
  by pat_completeness auto
termination
  by (relation "measure (\<lambda>(ep, cfg, clk, ops, path, sz, file_mtime, v). dc_vars_measure cfg path sz v)")
    (auto simp: dc_read_turn_decreases)

declare dc_read_loop.simps [simp del]

definition dc_read :: "(dc_key, 'p) cache_manager \<Rightarrow> dc_config \<Rightarrow> ('s \<Rightarrow> int)
    \<Rightarrow> ('s, 'd) fuse_operations \<Rightarrow> path \<Rightarrow> bytes \<Rightarrow> nat \<Rightarrow> int \<Rightarrow> fi_ptr \<Rightarrow> 'p dcache \<times> 's
    \<Rightarrow> ub + ('p, 's) dc_result" where
  "dc_read ep cfg clk ops path buf sz offset fi = (\<lambda>(c, s).
     case fmlookup (dc_mtimes c) path of
       None \<Rightarrow> rbind (fn (op_read ops)) (\<lambda>read. rbind (read path buf sz offset fi s)
                 (\<lambda>(r, s1). Inr (r, c, s1)))
     | Some file_mtime \<Rightarrow> dc_read_loop ep cfg clk ops path sz file_mtime (buf, 0, offset, fi, c, s))"

section \<open>Loop rules\<close>

text \<open>Total correctness: an invariant under which no turn is undefined.\<close>

lemma dc_read_loop_total:
  assumes "P v"
    and go: "\<And>v v'. P v \<Longrightarrow> fst (snd v) \<noteq> sz \<Longrightarrow>
      dc_read_turn ep cfg clk ops path sz mt v = Inr (Go_on v') \<Longrightarrow> P v'"
    and leave: "\<And>v r. P v \<Longrightarrow> fst (snd v) \<noteq> sz \<Longrightarrow>
      dc_read_turn ep cfg clk ops path sz mt v = Inr (Leave r) \<Longrightarrow> Q r"
    and full: "\<And>buf seeker fi c s. P (buf, sz, seeker, fi, c, s) \<Longrightarrow> Q ((int_of_size sz, buf, fi), c, s)"
    and safe: "\<And>v. P v \<Longrightarrow> fst (snd v) \<noteq> sz \<Longrightarrow> \<exists>t. dc_read_turn ep cfg clk ops path sz mt v = Inr t"
  shows "\<exists>r. dc_read_loop ep cfg clk ops path sz mt v = Inr r \<and> Q r"
  using assms(1)
proof (induction v rule: measure_induct_rule[where f = "dc_vars_measure cfg path sz"])
  case (less v)
  obtain buf readed seeker fi c s where v: "v = (buf, readed, seeker, fi, c, s)" by (cases v)
  show ?case
  proof (cases "readed = sz")
    case True
    with less.prems v full show ?thesis by (auto simp: dc_read_loop.simps)
  next
    case False
    with safe[OF less.prems] v obtain t where t: "dc_read_turn ep cfg clk ops path sz mt v = Inr t"
      by auto
    show ?thesis
    proof (cases t)
      case (Go_on v')
      with t go[OF less.prems] less.IH[OF dc_read_turn_decreases] False v show ?thesis
        by (simp add: dc_read_loop.simps)
    next
      case (Leave r)
      with t leave[OF less.prems] False v show ?thesis by (simp add: dc_read_loop.simps)
    qed
  qed
qed

text \<open>The rule for whatever the next layer does, undefined turns included.\<close>

lemma dc_read_loop_partial:
  assumes "dc_read_loop ep cfg clk ops path sz mt v = Inr r" "P v"
    and go: "\<And>v v'. P v \<Longrightarrow> dc_read_turn ep cfg clk ops path sz mt v = Inr (Go_on v') \<Longrightarrow> P v'"
    and leave: "\<And>v r. P v \<Longrightarrow> dc_read_turn ep cfg clk ops path sz mt v = Inr (Leave r) \<Longrightarrow> Q r"
    and full: "\<And>buf seeker fi c s. P (buf, sz, seeker, fi, c, s) \<Longrightarrow> Q ((int_of_size sz, buf, fi), c, s)"
  shows "Q r"
  using assms(1,2)
proof (induction v rule: measure_induct_rule[where f = "dc_vars_measure cfg path sz"])
  case (less v)
  obtain buf readed seeker fi c s where v: "v = (buf, readed, seeker, fi, c, s)" by (cases v)
  show ?case
  proof (cases "readed = sz")
    case True
    with less.prems v full show ?thesis by (auto simp: dc_read_loop.simps)
  next
    case False
    with less.prems v obtain t where t: "dc_read_turn ep cfg clk ops path sz mt v = Inr t"
      by (auto simp: dc_read_loop.simps rbind_eq_Inr_conv)
    show ?thesis
    proof (cases t)
      case (Go_on v')
      with t less.prems(1) False v have "dc_read_loop ep cfg clk ops path sz mt v' = Inr r"
        by (simp add: dc_read_loop.simps)
      with t Go_on go[OF less.prems(2)] less.IH[OF dc_read_turn_decreases] show ?thesis by simp
    next
      case (Leave r')
      with t less.prems leave False v show ?thesis by (simp add: dc_read_loop.simps)
    qed
  qed
qed

section \<open>Accounting\<close>

text \<open>
  With a policy that keeps its contract: the policy tracks exactly the cached blocks, the
  byte counter is the number of cached blocks times the block size, and it exceeds the
  configured size by at most one block.
\<close>

definition dc_inv :: "('p \<Rightarrow> dc_key set) \<Rightarrow> ('p \<Rightarrow> bool) \<Rightarrow> dc_config \<Rightarrow> 'p dcache \<Rightarrow> bool" where
  "dc_inv keys pinv cfg c \<longleftrightarrow> pinv (dc_policy c) \<and> keys (dc_policy c) = fmdom' (dc_cache c) \<and>
     dc_cache_size c = map_size (dc_cache c) * dc_block_size cfg \<and>
     dc_cache_size c \<le> dc_size cfg + dc_block_size cfg"

definition dc_fits :: "dc_config \<Rightarrow> bool" where
  "dc_fits cfg \<longleftrightarrow> dc_size cfg + 2 * dc_block_size cfg < 2 ^ 64"

text \<open>The cache a turn leaves behind.\<close>

fun turn_cache :: "(('p, 's) dc_vars, ('p, 's) dc_result) turn \<Rightarrow> 'p dcache" where
  "turn_cache (Go_on (_, _, _, _, c, _)) = c"
| "turn_cache (Leave (_, c, _)) = c"

locale block_policy = eviction_policy ep keys pinv
  for ep :: "(dc_key, 'p) cache_manager" and keys pinv
begin

lemma dc_inv_update: "dc_inv keys pinv cfg c \<Longrightarrow> key \<in> fmdom' (dc_cache c) \<Longrightarrow>
    dc_inv keys pinv cfg (c\<lparr>dc_cache := fmupd key b (dc_cache c)\<rparr>)"
  by (auto simp: dc_inv_def map_size_card insert_absorb)

lemma dc_inv_touch: "dc_inv keys pinv cfg c \<Longrightarrow> key \<in> fmdom' (dc_cache c) \<Longrightarrow>
    dc_inv keys pinv cfg (c\<lparr>dc_policy := touch ep key (dc_policy c)\<rparr>)"
  by (auto simp: dc_inv_def keys_touch pinv_touch)

text \<open>Dropping a block and forgetting its key, in either order.\<close>

lemma dc_inv_drop:
  assumes "dc_inv keys pinv cfg c" "dc_fits cfg"
    and p: "pinv p" "keys p = keys (dc_policy c) - {key}" and key: "key \<in> fmdom' (dc_cache c)"
  shows "dc_inv keys pinv cfg (dc_remove_block cfg key (c\<lparr>dc_policy := p\<rparr>))"
    and "dc_cache_size (dc_remove_block cfg key (c\<lparr>dc_policy := p\<rparr>)) = dc_cache_size c - dc_block_size cfg"
proof -
  have pos: "map_size (dc_cache c) \<noteq> 0"
    using key by (auto simp: map_size_card)
  then obtain m where m: "map_size (dc_cache c) = Suc m"
    by (cases "map_size (dc_cache c)") auto
  then have m': "map_size (fmdrop key (dc_cache c)) = m"
    using key by (simp add: map_size_card)
  have "size_sub (dc_cache_size c) (dc_block_size cfg) = dc_cache_size c - dc_block_size cfg"
    using assms(1,2) m by (intro size_sub_exact) (auto simp: dc_inv_def dc_fits_def)
  with assms m m' show "dc_inv keys pinv cfg (dc_remove_block cfg key (c\<lparr>dc_policy := p\<rparr>))"
    "dc_cache_size (dc_remove_block cfg key (c\<lparr>dc_policy := p\<rparr>)) = dc_cache_size c - dc_block_size cfg"
    by (auto simp: dc_inv_def dc_remove_block_def fmap_simps split: option.splits)
qed

lemma dc_inv_make_room:
  assumes inv: "dc_inv keys pinv cfg c" and fits: "dc_fits cfg"
  shows "dc_inv keys pinv cfg (dc_make_room ep cfg c) \<and>
    dc_cache_size (dc_make_room ep cfg c) \<le> dc_size cfg \<and>
    fmdom' (dc_cache (dc_make_room ep cfg c)) \<subseteq> fmdom' (dc_cache c)"
proof (cases "dc_cache_size c > dc_size cfg")
  case False
  with inv show ?thesis by (simp add: dc_make_room_def)
next
  case True
  have p: "pinv (dc_policy c)" using inv by (simp add: dc_inv_def)
  from p show ?thesis
  proof (cases rule: evict_cases)
    case 1
    with inv have "fmdom' (dc_cache c) = {}" by (simp add: dc_inv_def)
    with inv True show ?thesis by (simp add: dc_inv_def map_size_card)
  next
    case (2 key p')
    with inv have key: "key \<in> fmdom' (dc_cache c)" by (simp add: dc_inv_def)
    have "dc_make_room ep cfg c = dc_remove_block cfg key (c\<lparr>dc_policy := p'\<rparr>)"
      using True 2 by (simp add: dc_make_room_def)
    moreover have "fmdom' (dc_cache (dc_remove_block cfg key (c\<lparr>dc_policy := p'\<rparr>))) \<subseteq> fmdom' (dc_cache c)"
      by (auto simp: dc_remove_block_def split: option.splits)
    moreover have "dc_cache_size c \<le> dc_size cfg + dc_block_size cfg"
      using inv by (simp add: dc_inv_def)
    ultimately show ?thesis
      using dc_inv_drop[OF inv fits \<open>pinv p'\<close> \<open>keys p' = _\<close> key] by simp
  qed
qed

lemma dc_inv_insert:
  assumes inv: "dc_inv keys pinv cfg c" and fits: "dc_fits cfg"
    and room: "dc_cache_size c \<le> dc_size cfg" and new: "key \<notin> fmdom' (dc_cache c)"
  shows "dc_inv keys pinv cfg (let c2 = dc_insert_block cfg key b c
           in c2\<lparr>dc_policy := touch ep key (dc_policy c2)\<rparr>)"
proof -
  have "size_add (dc_cache_size c) (dc_block_size cfg) = dc_cache_size c + dc_block_size cfg"
    using room fits by (intro size_add_exact) (simp add: dc_fits_def)
  moreover have "map_size (fmupd key b (dc_cache c)) = Suc (map_size (dc_cache c))"
    using new by (simp add: map_size_card)
  ultimately show ?thesis
    using inv room new
    by (auto simp: dc_inv_def dc_insert_block_def keys_touch pinv_touch fmap_simps)
qed

lemma dc_inv_hit:
  assumes inv: "dc_inv keys pinv cfg c" and fits: "dc_fits cfg" and key: "key \<in> fmdom' (dc_cache c)"
    and hit: "dc_read_hit ep cfg clk ops path sz mt key b (buf, readed, seeker, fi, c, s) = Inr t"
  shows "dc_inv keys pinv cfg (turn_cache t)"
proof -
  have upd: "dc_inv keys pinv cfg (c\<lparr>dc_cache := fmupd key b1 (dc_cache c)\<rparr>)" for b1
    by (rule dc_inv_update[OF inv key])
  have drop: "dc_inv keys pinv cfg (let c2 = dc_remove_block cfg key (c\<lparr>dc_cache := fmupd key b1 (dc_cache c)\<rparr>)
      in c2\<lparr>dc_policy := remove ep key (dc_policy c2)\<rparr>)" for b1
  proof -
    let ?c1 = "c\<lparr>dc_cache := fmupd key b1 (dc_cache c)\<rparr>"
    have p: "pinv (dc_policy ?c1)" using inv by (simp add: dc_inv_def)
    have "dc_inv keys pinv cfg (dc_remove_block cfg key (?c1\<lparr>dc_policy := remove ep key (dc_policy ?c1)\<rparr>))"
      by (rule dc_inv_drop[OF upd fits pinv_remove[OF p] keys_remove[OF p]]) simp
    then show ?thesis by (simp add: dc_remove_block_def dc_inv_def)
  qed
  have "dc_inv keys pinv cfg (c\<lparr>dc_cache := fmupd key b1 (dc_cache c),
      dc_policy := touch ep key (dc_policy c)\<rparr>)" for b1
    using dc_inv_touch[OF upd, of key b1] by simp
  with hit upd drop show ?thesis
    by (auto simp: dc_read_hit_def Let_def rbind_eq_Inr_conv split: if_splits prod.splits turn.splits)
qed

lemma dc_inv_miss:
  assumes inv: "dc_inv keys pinv cfg c" and fits: "dc_fits cfg" and key: "key \<notin> fmdom' (dc_cache c)"
    and miss: "dc_read_miss ep cfg clk ops path mt key (buf, readed, seeker, fi, c, s) = Inr t"
  shows "dc_inv keys pinv cfg (turn_cache t)"
proof -
  note room = dc_inv_make_room[OF inv fits]
  then have "key \<notin> fmdom' (dc_cache (dc_make_room ep cfg c))" using key by blast
  with room have "dc_inv keys pinv cfg (let c2 = dc_insert_block cfg key b (dc_make_room ep cfg c)
      in c2\<lparr>dc_policy := touch ep key (dc_policy c2)\<rparr>)" for b
    by (intro dc_inv_insert[OF _ fits]) auto
  with miss room show ?thesis
    by (auto simp: dc_read_miss_def Let_def rbind_eq_Inr_conv split: if_splits prod.splits)
qed

lemma dc_inv_turn:
  assumes "dc_inv keys pinv cfg c" "dc_fits cfg"
    and "dc_read_turn ep cfg clk ops path sz mt (buf, readed, seeker, fi, c, s) = Inr t"
  shows "dc_inv keys pinv cfg (turn_cache t)"
proof (cases "fmlookup (dc_cache c) (path, size_of_int seeker div dc_block_size cfg)")
  case None
  show ?thesis
    by (rule dc_inv_miss[OF assms(1,2)])
      (use None assms(3) in \<open>auto simp: dc_read_turn_def fmap_simps split: if_splits\<close>)
next
  case (Some b)
  show ?thesis
    by (rule dc_inv_hit[OF assms(1,2)])
      (use Some assms(3) in \<open>auto simp: dc_read_turn_def fmap_simps split: if_splits\<close>)
qed

lemma dc_inv_read:
  assumes inv: "dc_inv keys pinv cfg c" and fits: "dc_fits cfg"
    and read: "dc_read ep cfg clk ops path buf sz offset fi (c, s) = Inr (r, c', s')"
  shows "dc_inv keys pinv cfg c'"
proof (cases "fmlookup (dc_mtimes c) path")
  case None
  with read inv show ?thesis by (auto simp: dc_read_def rbind_eq_Inr_conv)
next
  case (Some mt)
  let ?P = "\<lambda>(_, _, _, _, c, _). dc_inv keys pinv cfg c"
  let ?Q = "\<lambda>(_, c, _). dc_inv keys pinv cfg c"
  from Some read have "dc_read_loop ep cfg clk ops path sz mt (buf, 0, offset, fi, c, s) = Inr (r, c', s')"
    by (simp add: dc_read_def)
  then have "?Q (r, c', s')"
  proof (rule dc_read_loop_partial[where P = ?P])
    show "?P v'" if "?P v" "dc_read_turn ep cfg clk ops path sz mt v = Inr (Go_on v')" for v v'
      using that dc_inv_turn[OF _ fits, of _ clk ops path sz mt] by (cases v) fastforce
    show "?Q r" if "?P v" "dc_read_turn ep cfg clk ops path sz mt v = Inr (Leave r)" for v r
      using that dc_inv_turn[OF _ fits, of _ clk ops path sz mt] by (cases v) fastforce
  qed (use inv in auto)
  then show ?thesis by simp
qed

lemma dc_inv_open: "dc_inv keys pinv cfg c \<Longrightarrow> dc_open ops path fi (c, s) = Inr (r, c', s') \<Longrightarrow>
    dc_inv keys pinv cfg c'"
  by (auto simp: dc_open_def dc_inv_def rbind_eq_Inr_conv split: if_splits)

lemma dc_inv_release: "dc_inv keys pinv cfg c \<Longrightarrow> dc_release ops path fi (c, s) = Inr (r, c', s') \<Longrightarrow>
    dc_inv keys pinv cfg c'"
  by (auto simp: dc_release_def dc_inv_def rbind_eq_Inr_conv Let_def)

lemma dc_inv_new: "pinv p \<Longrightarrow> keys p = {} \<Longrightarrow> dc_inv keys pinv cfg (dc_new p)"
  by (simp add: dc_inv_def dc_new_def)

end

interpretation dc_lru: block_policy lru_eviction "\<lambda>m. set (lru_abs m)" lru_inv
  by unfold_locales

interpretation dc_rnd: block_policy rnd_eviction "\<lambda>m. set (rnd_keys m)" "\<lambda>m. distinct (rnd_keys m)"
  by unfold_locales

section \<open>Transparency\<close>

text \<open>Block \<open>i\<close> holds the bytes of the file from \<open>i\<close> times the block size on.\<close>

definition block_holds :: "dc_config \<Rightarrow> bytes \<Rightarrow> nat \<Rightarrow> block \<Rightarrow> bool" where
  "block_holds cfg F i b \<longleftrightarrow>
     b_size b = length (fslice F (i * dc_block_size cfg) (dc_block_size cfg)) \<and>
     take (b_size b) (b_buf b) = fslice F (i * dc_block_size cfg) (dc_block_size cfg)"

text \<open>
  Every cached block of the path has the size and the place of a block, and holds the
  contents of the file unless its modification time shows that it is out of date.
\<close>

definition dc_coherent :: "dc_config \<Rightarrow> path \<Rightarrow> bytes \<Rightarrow> timespec \<Rightarrow> 'p dcache \<Rightarrow> bool" where
  "dc_coherent cfg path F mt c \<longleftrightarrow>
     (\<forall>i b. fmlookup (dc_cache c) (path, i) = Some b \<longrightarrow>
        b_offset b = int (i * dc_block_size cfg) \<and> length (b_buf b) = dc_block_size cfg \<and>
        (b_mtime b = mt \<longrightarrow> block_holds cfg F i b))"

lemma block_holds_bytes:
  assumes "block_holds cfg F i b" "a + n \<le> b_size b"
  shows "take n (drop a (b_buf b)) = fslice F (i * dc_block_size cfg + a) n"
proof -
  let ?bs = "dc_block_size cfg"
  have "take n (drop a (b_buf b)) = take n (drop a (take (b_size b) (b_buf b)))"
    using assms(2) by (simp add: take_drop_prefix)
  also have "take (b_size b) (b_buf b) = fslice F (i * ?bs) ?bs"
    using assms(1) unfolding block_holds_def by (rule conjunct2)
  also have "take n (drop a (fslice F (i * ?bs) ?bs)) = fslice (fslice F (i * ?bs) ?bs) a n"
    by (simp add: fslice_def)
  also have "\<dots> = fslice F (i * ?bs + a) n"
    using assms by (intro fslice_fslice) (auto simp: block_holds_def)
  finally show ?thesis .
qed

lemma dc_coherent_update:
  assumes "dc_coherent cfg path F mt c" "dc_cache c' = fmupd (path, i) b (dc_cache c)"
    "b_offset b = int (i * dc_block_size cfg)" "length (b_buf b) = dc_block_size cfg"
    "block_holds cfg F i b"
  shows "dc_coherent cfg path F mt c'"
  using assms by (auto simp: dc_coherent_def)

lemma dc_coherent_less:
  assumes "dc_coherent cfg path F mt c"
    "\<And>k. fmlookup (dc_cache c') k = None \<or> fmlookup (dc_cache c') k = fmlookup (dc_cache c) k"
  shows "dc_coherent cfg path F mt c'"
  unfolding dc_coherent_def using assms by (metis dc_coherent_def option.discI)

lemma dc_make_room_less:
  "fmlookup (dc_cache (dc_make_room ep cfg c)) k = None \<or>
   fmlookup (dc_cache (dc_make_room ep cfg c)) k = fmlookup (dc_cache c) k"
  by (auto simp: dc_make_room_def dc_remove_block_def Let_def split: prod.splits option.splits)

text \<open>
  The loop invariant of a read of \<open>sz\<close> bytes at \<open>off\<close> into \<open>buf0\<close>, and its postcondition.
\<close>

definition read_inv :: "dc_config \<Rightarrow> path \<Rightarrow> bytes \<Rightarrow> timespec \<Rightarrow> ('s \<Rightarrow> bool) \<Rightarrow> nat \<Rightarrow> nat \<Rightarrow> bytes
    \<Rightarrow> ('p, 's) dc_vars \<Rightarrow> bool" where
  "read_inv cfg path F mt I sz off buf0 = (\<lambda>(buf, readed, seeker, fi, c, s).
     I s \<and> dc_coherent cfg path F mt c \<and> readed \<le> sz \<and> off + readed \<le> length F \<and>
     seeker = int (off + readed) \<and> buf = fslice F off readed @ drop readed buf0)"

definition read_post :: "dc_config \<Rightarrow> path \<Rightarrow> bytes \<Rightarrow> timespec \<Rightarrow> ('s \<Rightarrow> bool) \<Rightarrow> nat \<Rightarrow> nat \<Rightarrow> bytes
    \<Rightarrow> ('p, 's) dc_result \<Rightarrow> bool" where
  "read_post cfg path F mt I sz off buf0 = (\<lambda>((res, buf, fi), c, s).
     I s \<and> dc_coherent cfg path F mt c \<and> res = int (length (fslice F off sz)) \<and>
     buf = fslice F off sz @ drop (length (fslice F off sz)) buf0)"

lemma read_post_at_eof:
  assumes "read_inv cfg path F mt I sz off buf0 (buf, readed, seeker, fi, c, s)"
    and "readed = sz \<or> off + readed = length F" "I s'" "dc_coherent cfg path F mt c'" "sz < 2 ^ 31"
  shows "read_post cfg path F mt I sz off buf0 ((int_of_size readed, buf, fi'), c', s')"
proof -
  have "fslice F off sz = fslice F off readed" "length (fslice F off readed) = readed"
    using assms(1,2) by (auto simp: read_inv_def fslice_def)
  moreover have "int_of_size readed = int readed"
    using assms by (intro int_of_size_exact) (auto simp: read_inv_def)
  ultimately show ?thesis
    using assms by (auto simp: read_inv_def read_post_def)
qed


text \<open>What a read that obeys the contract needs of its arguments.\<close>

definition read_setting :: "dc_config \<Rightarrow> ('s, 'd) fuse_operations \<Rightarrow> ('s \<Rightarrow> bool) \<Rightarrow> path \<Rightarrow> bytes
    \<Rightarrow> nat \<Rightarrow> bytes \<Rightarrow> bool" where
  "read_setting cfg ops I path F sz buf0 \<longleftrightarrow>
     (\<exists>rd. op_read ops = Some rd \<and> serves_file rd I path F) \<and> 0 < dc_block_size cfg \<and>
     length F + dc_block_size cfg < 2 ^ 63 \<and> sz \<le> length buf0 \<and> sz < 2 ^ 31"

text \<open>The block used by a turn that finds one holds the contents of the file.\<close>

lemma block_for_hit:
  assumes set: "read_setting cfg ops I path F sz buf0" and "dc_coherent cfg path F mt c" "I s"
    and b: "fmlookup (dc_cache c) (path, i) = Some b" and i: "i * dc_block_size cfg \<le> length F"
  obtains res b1 fi1 s1 where
    "(if block_is_valid (dc_time_out cfg) (clk s) mt b then Inr (0, b, fi, s)
      else dc_refresh_block cfg clk ops path mt b fi s) = Inr (res, b1, fi1, s1)"
    "0 \<le> res" "block_holds cfg F i b1" "b_offset b1 = int (i * dc_block_size cfg)"
    "length (b_buf b1) = dc_block_size cfg" "I s1"
proof -
  let ?bs = "dc_block_size cfg"
  have off: "b_offset b = int (i * ?bs)" and len: "length (b_buf b) = ?bs"
    and holds: "b_mtime b = mt \<Longrightarrow> block_holds cfg F i b"
    using assms(2) b by (auto simp: dc_coherent_def)
  show thesis
  proof (cases "block_is_valid (dc_time_out cfg) (clk s) mt b")
    case True
    then have "b_mtime b = mt"
      by (auto simp: block_is_valid_def split: if_splits intro: timespec.equality)
    with True off len holds assms(3) show thesis by (intro that[of 0 b fi s]) auto
  next
    case False
    obtain rd where rd: "op_read ops = Some rd" "serves_file rd I path F"
      using set by (auto simp: read_setting_def)
    let ?d = "fslice F (i * ?bs) ?bs"
    obtain fi' s' where r: "rd path (b_buf b) ?bs (int (i * ?bs)) fi s =
        Inr ((int (length ?d), ?d @ drop (length ?d) (b_buf b), fi'), s')" "I s'"
      by (rule serves_fileD[OF rd(2) assms(3), of ?bs "b_buf b" "i * ?bs" fi]) (use len in auto)
    let ?b1 = "b\<lparr>b_buf := ?d @ drop (length ?d) (b_buf b), b_size := size_of_int (int (length ?d)),
      b_timestamp := clk s', b_mtime := mt\<rparr>"
    have "size_of_int (int (length ?d)) = length ?d"
      using set by (subst size_of_int_exact) (auto simp: read_setting_def)
    then have "block_holds cfg F i ?b1"
      by (auto simp: block_holds_def)
    with False off len rd r show thesis
      by (intro that[of "int (length ?d)" ?b1 fi' s']) (auto simp: dc_refresh_block_def)
  qed
qed

lemma read_hit_correct:
  fixes c :: "'p dcache"
  assumes set: "read_setting cfg ops I path F sz buf0"
    and inv: "read_inv cfg path F mt I sz off buf0 (buf, readed, seeker, fi, c, s)" "readed \<noteq> sz"
    and b: "fmlookup (dc_cache c) (path, i) = Some b" and i: "i = (off + readed) div dc_block_size cfg"
  shows "\<exists>t. dc_read_hit ep cfg clk ops path sz mt (path, i) b (buf, readed, seeker, fi, c, s) = Inr t \<and>
    (case t of Go_on v \<Rightarrow> read_inv cfg path F mt I sz off buf0 v
     | Leave r \<Rightarrow> read_post cfg path F mt I sz off buf0 r)"
proof -
  let ?bs = "dc_block_size cfg" and ?p = "off + readed"
  have I: "I s" and coh: "dc_coherent cfg path F mt c" and readed: "readed < sz"
    and p: "?p \<le> length F" "seeker = int ?p" and buf: "buf = fslice F off readed @ drop readed buf0"
    using inv by (auto simp: read_inv_def)
  have bs: "0 < ?bs" "length F + ?bs < 2 ^ 63" "sz \<le> length buf0" "sz < 2 ^ 31"
    using set by (auto simp: read_setting_def)
  define o' where "o' = ?p mod ?bs"
  have o': "i * ?bs + o' = ?p" "o' < ?bs"
    using bs i by (simp_all add: o'_def)
  obtain res b1 fi1 s1 where blk:
    "(if block_is_valid (dc_time_out cfg) (clk s) mt b then Inr (0, b, fi, s)
      else dc_refresh_block cfg clk ops path mt b fi s) = Inr (res, b1, fi1, s1)"
    "0 \<le> res" "block_holds cfg F i b1" "b_offset b1 = int (i * ?bs)" "length (b_buf b1) = ?bs" "I s1"
    by (rule block_for_hit[OF set coh I b]) (use o' p(1) in auto)
  have sz1: "b_size b1 = min ?bs (length F - i * ?bs)"
    using blk(3) by (simp add: block_holds_def)
  then have le: "o' \<le> b_size b1" using o' p(1) by linarith
  have in_block: "seeker - b_offset b1 = int o'"
    using p(2) blk(4) arg_cong[OF o'(1), of int] by simp
  have diff: "size_sub (b_size b1) (size_of_int (int o')) = b_size b1 - o'"
    using le sz1 bs o'(2) by (subst size_of_int_exact) (auto intro!: size_sub_exact)
  let ?c1 = "c\<lparr>dc_cache := fmupd (path, i) b1 (dc_cache c)\<rparr>"
  have coh1: "dc_coherent cfg path F mt c'" if "dc_cache c' = dc_cache ?c1" for c' :: "'p dcache"
    by (rule dc_coherent_update[OF coh _ blk(4,5,3)]) (simp add: that)
  define n where "n = min (sz - readed) (b_size b1 - o')"
  have n_eq: "min (sz - readed) (size_sub (b_size b1) (size_of_int (int o'))) = n"
    by (simp add: diff n_def)
  show ?thesis
  proof (cases "n = 0")
    case True
    then have "?p = length F" using readed sz1 o' p(1) by (auto simp: n_def)
    then have "read_post cfg path F mt I sz off buf0 ((int_of_size readed, buf, fi1), ?c1, s1)"
      by (intro read_post_at_eof[OF inv(1)]) (use blk(6) bs coh1[of ?c1] in auto)
    then show ?thesis
      using True blk(1,2) in_block n_eq by (simp add: dc_read_hit_def Let_def)
  next
    case False
    have "length (fslice F off readed) = readed" using p(1) by simp
    then have len: "length buf = length buf0" "take readed buf = fslice F off readed"
      "drop (readed + n) buf = drop (readed + n) buf0"
      using buf readed bs by (auto simp: add.commute)
    have "mem_copy buf readed (b_buf b1) o' n = Inr (fslice F off (readed + n) @ drop (readed + n) buf0)"
      using len bs readed le sz1 o'(2) blk(5)
        block_holds_bytes[OF blk(3), of o' n] o'(1) fslice_append[of F off readed n]
      by (auto simp: mem_copy_def n_def)
    moreover have "read_inv cfg path F mt I sz off buf0 (fslice F off (readed + n) @ drop (readed + n) buf0,
        readed + n, off_plus seeker n, fi1, ?c1\<lparr>dc_policy := q\<rparr>, s1)" for q
    proof -
      have "?p + n \<le> length F" "readed + n \<le> sz" using readed sz1 o' p(1) by (auto simp: n_def)
      then show ?thesis using p(2) bs blk(6) by (simp add: read_inv_def off_plus_exact coh1)
    qed
    ultimately show ?thesis
      using False blk(1,2) in_block n_eq by (simp add: dc_read_hit_def Let_def)
  qed
qed


lemma read_miss_correct:
  fixes c :: "'p dcache"
  assumes set: "read_setting cfg ops I path F sz buf0"
    and inv: "read_inv cfg path F mt I sz off buf0 (buf, readed, seeker, fi, c, s)" "readed \<noteq> sz"
    and b: "fmlookup (dc_cache c) (path, i) = None" and i: "i = (off + readed) div dc_block_size cfg"
  shows "\<exists>t. dc_read_miss ep cfg clk ops path mt (path, i) (buf, readed, seeker, fi, c, s) = Inr t \<and>
    (case t of Go_on v \<Rightarrow> read_inv cfg path F mt I sz off buf0 v
     | Leave r \<Rightarrow> read_post cfg path F mt I sz off buf0 r)"
proof -
  let ?bs = "dc_block_size cfg" and ?c1 = "dc_make_room ep cfg c"
  let ?d = "fslice F (i * ?bs) ?bs"
  obtain rd where rd: "op_read ops = Some rd" "serves_file rd I path F"
    and bs: "0 < ?bs" "length F + ?bs < 2 ^ 63" "sz < 2 ^ 31"
    using set by (auto simp: read_setting_def)
  have I: "I s" and coh: "dc_coherent cfg path F mt c" and p: "off + readed \<le> length F"
    using inv by (auto simp: read_inv_def)
  have le: "i * ?bs \<le> off + readed" using i by simp
  have place: "off_of_size ((i * ?bs) mod 2 ^ 64) = int (i * ?bs)"
    using le p bs off_of_size_exact[of "i * ?bs"] by simp
  obtain fi' s' where r: "rd path (replicate ?bs (CHR 0x00)) ?bs (int (i * ?bs)) fi s =
      Inr ((int (length ?d), ?d @ drop (length ?d) (replicate ?bs (CHR 0x00)), fi'), s')" "I s'"
    by (rule serves_fileD[OF rd(2) I, of ?bs "replicate ?bs (CHR 0x00)" "i * ?bs" fi]) simp
  have room: "dc_coherent cfg path F mt ?c1"
    by (rule dc_coherent_less[OF coh dc_make_room_less])
  show ?thesis
  proof (cases "length ?d = 0")
    case True
    then have "off + readed = length F" using le p bs by auto
    then have "read_post cfg path F mt I sz off buf0 ((int_of_size readed, buf, fi'), ?c1, s')"
      by (intro read_post_at_eof[OF inv(1)]) (use r(2) room bs in auto)
    then show ?thesis
      using True rd(1) r(1) place by (simp add: dc_read_miss_def Let_def)
  next
    case False
    have none: "fmlookup (dc_cache ?c1) (path, i) = None"
      using dc_make_room_less[of ep cfg c "(path, i)"] b by auto
    define b where "b = \<lparr>b_buf = ?d @ drop (length ?d) (replicate ?bs (CHR 0x00)),
      b_size = size_of_int (int (length ?d)), b_offset = int (i * ?bs), b_timestamp = clk s', b_mtime = mt\<rparr>"
    have "size_of_int (int (length ?d)) = length ?d"
      using bs by (subst size_of_int_exact) auto
    then have holds: "block_holds cfg F i b" "b_offset b = int (i * ?bs)" "length (b_buf b) = ?bs"
      by (auto simp: block_holds_def b_def)
    have "dc_coherent cfg path F mt ((dc_insert_block cfg (path, i) b ?c1)\<lparr>dc_policy := q\<rparr>)" for q
      by (rule dc_coherent_update[OF room _ holds(2,3,1)]) (simp add: dc_insert_block_def none)
    then have "read_inv cfg path F mt I sz off buf0 (buf, readed, seeker, fi',
        (dc_insert_block cfg (path, i) b ?c1)\<lparr>dc_policy := q\<rparr>, s')" for q
      using inv(1) r(2) by (simp add: read_inv_def)
    then show ?thesis
      using False rd(1) r(1) place by (auto simp: dc_read_miss_def Let_def b_def)
  qed
qed

lemma read_turn_correct:
  assumes set: "read_setting cfg ops I path F sz buf0"
    and inv: "read_inv cfg path F mt I sz off buf0 v" "fst (snd v) \<noteq> sz"
  shows "\<exists>t. dc_read_turn ep cfg clk ops path sz mt v = Inr t \<and>
    (case t of Go_on v \<Rightarrow> read_inv cfg path F mt I sz off buf0 v
     | Leave r \<Rightarrow> read_post cfg path F mt I sz off buf0 r)"
proof -
  obtain buf readed seeker fi c s where v: "v = (buf, readed, seeker, fi, c, s)" by (cases v)
  have "size_of_int seeker = off + readed" "0 < dc_block_size cfg"
    using inv set v by (auto simp: read_inv_def read_setting_def size_of_int_def)
  with read_hit_correct[OF set inv(1)[unfolded v]] read_miss_correct[OF set inv(1)[unfolded v]] inv(2) v
  show ?thesis
    by (cases "fmlookup (dc_cache c) (path, (off + readed) div dc_block_size cfg)")
      (simp_all add: dc_read_turn_def)
qed

lemma read_loop_correct:
  assumes set: "read_setting cfg ops I path F sz buf0"
    and inv: "read_inv cfg path F mt I sz off buf0 v"
  shows "\<exists>r. dc_read_loop ep cfg clk ops path sz mt v = Inr r \<and> read_post cfg path F mt I sz off buf0 r"
proof (rule dc_read_loop_total[where P = "read_inv cfg path F mt I sz off buf0"])
  have "sz < 2 ^ 31" using set by (simp add: read_setting_def)
  then show "read_post cfg path F mt I sz off buf0 ((int_of_size sz, buf, fi), c, s)"
    if "read_inv cfg path F mt I sz off buf0 (buf, sz, seeker, fi, c, s)" for buf seeker fi c s
    using that by (intro read_post_at_eof[OF that]) (auto simp: read_inv_def)
next
  show "read_inv cfg path F mt I sz off buf0 v'"
    if "read_inv cfg path F mt I sz off buf0 v" "fst (snd v) \<noteq> sz"
      "dc_read_turn ep cfg clk ops path sz mt v = Inr (Go_on v')" for v v'
    using read_turn_correct[OF set that(1,2), of ep clk] that(3) by auto
  show "read_post cfg path F mt I sz off buf0 r"
    if "read_inv cfg path F mt I sz off buf0 v" "fst (snd v) \<noteq> sz"
      "dc_read_turn ep cfg clk ops path sz mt v = Inr (Leave r)" for v r
    using read_turn_correct[OF set that(1,2), of ep clk] that(3) by auto
  show "\<exists>t. dc_read_turn ep cfg clk ops path sz mt v = Inr t"
    if "read_inv cfg path F mt I sz off buf0 v" "fst (snd v) \<noteq> sz" for v
    using read_turn_correct[OF set that, of ep clk] by auto
qed (fact inv)


section \<open>Histories\<close>

text \<open>The caches and states below that any sequence of calls can lead to.\<close>

inductive dc_reachable :: "(dc_key, 'p) cache_manager \<Rightarrow> dc_config \<Rightarrow> ('s \<Rightarrow> int)
    \<Rightarrow> ('s, 'd) fuse_operations \<Rightarrow> 'p \<Rightarrow> 'p dcache \<times> 's \<Rightarrow> bool" for ep cfg clk ops p0 where
  start: "dc_reachable ep cfg clk ops p0 (dc_new p0, s)"
| call_open: "dc_reachable ep cfg clk ops p0 cs \<Longrightarrow> dc_open ops path fi cs = Inr (r, cs') \<Longrightarrow>
    dc_reachable ep cfg clk ops p0 cs'"
| call_release: "dc_reachable ep cfg clk ops p0 cs \<Longrightarrow> dc_release ops path fi cs = Inr (r, cs') \<Longrightarrow>
    dc_reachable ep cfg clk ops p0 cs'"
| call_read: "dc_reachable ep cfg clk ops p0 cs \<Longrightarrow>
    dc_read ep cfg clk ops path buf sz offset fi cs = Inr (r, cs') \<Longrightarrow>
    dc_reachable ep cfg clk ops p0 cs'"
| below: "dc_reachable ep cfg clk ops p0 (c, s) \<Longrightarrow> dc_reachable ep cfg clk ops p0 (c, s')"

context block_policy
begin

lemma dc_reachable_inv:
  assumes "dc_reachable ep cfg clk ops p0 cs" "pinv p0" "keys p0 = {}" "dc_fits cfg"
  shows "dc_inv keys pinv cfg (fst cs)"
  using assms(1)
proof (induction rule: dc_reachable.induct)
  case (start s)
  then show ?case using assms by (simp add: dc_inv_new)
next
  case (call_open cs path fi r cs')
  then show ?case by (cases cs, cases cs') (auto dest: dc_inv_open)
next
  case (call_release cs path fi r cs')
  then show ?case by (cases cs, cases cs') (auto dest: dc_inv_release)
next
  case (call_read cs path buf sz offset fi r cs')
  then show ?case using assms(4) by (cases cs, cases cs') (auto dest: dc_inv_read)
next
  case (below c s s')
  then show ?case by simp
qed

end

section \<open>Properties\<close>

text \<open>
  C5. A read through the data cache is transparent: if the next layer serves a file of
  contents \<open>F\<close>, the file is open in the cache, the cached blocks that carry the current
  modification time hold the contents of \<open>F\<close>, and the offset is not beyond the end of the
  file, then the read terminates without undefined behaviour, returns the number of bytes
  that a direct read returns, puts exactly these bytes at the front of the caller's buffer
  and leaves the rest of it alone; and the cache is coherent again. This holds for every
  eviction policy, every time-out and every state of the blocks (fresh, expired, missing).
\<close>

theorem data_cache_read_transparent:
  fixes buf :: bytes
  assumes "op_read ops = Some rd" "serves_file rd I path F" "I s"
    and "fmlookup (dc_mtimes c) path = Some mt" "dc_coherent cfg path F mt c"
    and "0 < dc_block_size cfg" "length F + dc_block_size cfg < 2 ^ 63"
    and "off \<le> length F" "sz \<le> length buf" "sz < 2 ^ 31"
  shows "\<exists>fi' c' s'. dc_read ep cfg clk ops path buf sz (int off) fi (c, s) =
      Inr ((int (length (fslice F off sz)), fslice F off sz @ drop (length (fslice F off sz)) buf, fi'), c', s')
    \<and> dc_coherent cfg path F mt c' \<and> I s'"
proof -
  have set: "read_setting cfg ops I path F sz buf"
    using assms by (auto simp: read_setting_def)
  have "read_inv cfg path F mt I sz off buf (buf, 0, int off, fi, c, s)"
    using assms by (simp add: read_inv_def fslice_def)
  from read_loop_correct[OF set this, of ep clk] show ?thesis
    using assms(4) by (auto simp: dc_read_def read_post_def)
qed

theorem data_cache_read_transparent_witness:
  "\<exists>fi' c' s'. dc_read lru_eviction \<lparr>dc_size = 8, dc_block_size = 4, dc_time_out = 30\<rparr> (\<lambda>_. 0)
      (null_operations\<lparr>op_read := Some (const_read ''abcdefg'')\<rparr>) ''/f'' ''............'' 10 (int 2) None
      ((dc_new lru_empty)\<lparr>dc_mtimes := fmupd ''/f'' zero_timespec fmempty\<rparr>, ()) =
      Inr ((5, ''cdefg.......'', fi'), c', s')"
proof -
  let ?c = "(dc_new lru_empty)\<lparr>dc_mtimes := fmupd ''/f'' zero_timespec fmempty\<rparr>"
  let ?cfg = "\<lparr>dc_size = 8, dc_block_size = 4, dc_time_out = 30\<rparr>"
  have "dc_coherent ?cfg ''/f'' ''abcdefg'' zero_timespec ?c"
    by (simp add: dc_coherent_def dc_new_def)
  with data_cache_read_transparent[of "null_operations\<lparr>op_read := Some (const_read ''abcdefg'')\<rparr>"
      "const_read ''abcdefg''" "\<lambda>_. True" "''/f''" "''abcdefg''" "()" ?c zero_timespec ?cfg 2 10
      "''............''" lru_eviction "\<lambda>_. 0" None] const_read_serves[of "''abcdefg''" "\<lambda>_. True" "''/f''"]
  show ?thesis by (auto simp: fslice_def)
qed

text \<open>
  C26. The memory the data cache accounts for stays bounded: after any sequence of opens,
  releases and reads, whatever the next layer and the clock do in between, the LRU policy
  tracks exactly the cached blocks, the byte counter is the number of cached blocks times
  the block size, which exceeds the configured size by at most one block.
\<close>

theorem data_cache_bounded_lru:
  assumes "dc_reachable lru_eviction cfg clk ops lru_empty (c, s)"
    and "dc_size cfg + 2 * dc_block_size cfg < 2 ^ 64"
  shows "set (lru_abs (dc_policy c)) = fmdom' (dc_cache c) \<and>
    dc_cache_size c = map_size (dc_cache c) * dc_block_size cfg \<and>
    dc_cache_size c \<le> dc_size cfg + dc_block_size cfg"
  using dc_lru.dc_reachable_inv[OF assms(1)] assms(2) by (simp add: dc_inv_def dc_fits_def)

text \<open>
  An open and a read of three blocks through a cache of one: the third block evicts the first, and the cache ends one block over its size.
\<close>

definition letter_ops :: "(unit, unit) fuse_operations" where
  "letter_ops = null_operations\<lparr>op_open := Some (\<lambda>path fi s. Inr ((0, fi), s)), op_getattr := Some (\<lambda>path st s. Inr ((0, zero_stat), s)),
     op_read := Some (const_read ''abcdefghijkl'')\<rparr>"

theorem data_cache_bounded_lru_witness:
  "\<exists>c0 c. dc_open letter_ops ''/f'' None (dc_new lru_empty, ()) = Inr ((0, None), c0, ()) \<and>
     dc_read lru_eviction \<lparr>dc_size = 4, dc_block_size = 4, dc_time_out = 30\<rparr> (\<lambda>_. 0) letter_ops ''/f'' ''............'' 12 0 None (c0, ()) =
       Inr ((12, ''abcdefghijkl'', None), c, ()) \<and>
     dc_cache_size c = 8 \<and> map_size (dc_cache c) = 2 \<and> set (lru_abs (dc_policy c)) = fmdom' (dc_cache c)"
proof -
  let ?cfg = "\<lparr>dc_size = 4, dc_block_size = 4, dc_time_out = 30\<rparr>"
  let ?reach = "dc_reachable lru_eviction ?cfg (\<lambda>_. 0) letter_ops lru_empty"
  let ?c0 = "(dc_new lru_empty)\<lparr>dc_mtimes := fmupd ''/f'' zero_timespec fmempty\<rparr>"
  have o: "dc_open letter_ops ''/f'' None (dc_new lru_empty, ()) = Inr ((0, None), ?c0, ())"
    by (simp add: letter_ops_def dc_open_def dc_new_def zero_stat_def)
  have read: "op_read letter_ops = Some (const_read ''abcdefghijkl'')" by (simp add: letter_ops_def)
  have evicts: "map_size (fmupd k i m) \<noteq> 0" for k :: dc_key and i :: nat and m
    by (cases k) (auto simp: map_size_0)
  obtain c where c: "dc_read lru_eviction ?cfg (\<lambda>_. 0) letter_ops ''/f'' ''............'' 12 0 None (?c0, ()) =
      Inr ((12, ''abcdefghijkl'', None), c, ())" "dc_cache_size c = 8"
    by (simp add: read dc_read_def dc_read_loop.simps dc_read_turn_def dc_read_hit_def dc_read_miss_def dc_make_room_def
        dc_insert_block_def dc_remove_block_def dc_new_def block_is_valid_def elapsed_seconds_def mem_copy_def const_read_def fslice_def
        size_of_int_def int_of_size_def off_of_size_def off_plus_def size_add_def size_sub_def lru_eviction_def lru_touch_def lru_evict_def
        lru_empty_def list_erase_def evicts Let_def)
  have "?reach (c, ())"
    by (rule dc_reachable.call_read [OF dc_reachable.call_open [OF dc_reachable.start o] c(1)])
  from data_cache_bounded_lru [OF this] o c show ?thesis by auto
qed

text \<open>
  The same accounting and bound hold for the random policy, for every generator.
\<close>

theorem data_cache_bounded_rnd:
  assumes "dc_reachable rnd_eviction cfg clk ops (rnd_empty g) (c, s)"
    and "dc_size cfg + 2 * dc_block_size cfg < 2 ^ 64"
  shows "set (rnd_keys (dc_policy c)) = fmdom' (dc_cache c) \<and>
    dc_cache_size c = map_size (dc_cache c) * dc_block_size cfg \<and>
    dc_cache_size c \<le> dc_size cfg + dc_block_size cfg"
  using dc_rnd.dc_reachable_inv[OF assms(1)] assms(2) by (simp add: dc_inv_def dc_fits_def rnd_empty_def)

theorem data_cache_bounded_rnd_witness:
  "\<exists>c s. dc_reachable rnd_eviction \<lparr>dc_size = 8, dc_block_size = 4, dc_time_out = 30\<rparr> (\<lambda>_. 0)
      (null_operations :: (unit, unit) fuse_operations) (rnd_empty id) (c, s) \<and> dc_cache_size c \<le> 12"
proof -
  let ?cfg = "\<lparr>dc_size = 8, dc_block_size = 4, dc_time_out = 30\<rparr>"
  have r: "dc_reachable rnd_eviction ?cfg (\<lambda>_. 0) (null_operations :: (unit, unit) fuse_operations)
      (rnd_empty id) (dc_new (rnd_empty id), ())"
    by (rule dc_reachable.start)
  from r data_cache_bounded_rnd[OF r] show ?thesis by auto
qed

text \<open>
  C27. Reading beyond the end of a file inside its last, partial block is wrong: the size
  left in the block is computed by an unsigned subtraction that wraps. With the block
  cached and valid and the offset strictly between its end and the end of the block, the
  read reports \<open>sz\<close> bytes, the unused tail of the block's buffer, where the file has none;
  and it copies from outside the buffer when the request reaches past the block.
\<close>

theorem data_cache_read_past_eof:
  fixes o' :: nat
  assumes "fmlookup (dc_mtimes c) path = Some mt"
    and "fmlookup (dc_cache c) (path, i) = Some b" "block_is_valid (dc_time_out cfg) (clk s) mt b"
    and "b_offset b = int (i * dc_block_size cfg)" "length (b_buf b) = dc_block_size cfg"
    and "b_size b < o'" "o' < dc_block_size cfg" "(i + 1) * dc_block_size cfg < 2 ^ 63"
    and "0 < sz" "sz \<le> length buf" "sz < 2 ^ 31"
  shows "\<exists>c'. dc_read ep cfg clk ops path buf sz (int (i * dc_block_size cfg + o')) fi (c, s) =
      (if o' + sz \<le> dc_block_size cfg
       then Inr ((int sz, take sz (drop o' (b_buf b)) @ drop sz buf, fi), c', s)
       else Inl Out_of_bounds)"
proof -
  let ?bs = "dc_block_size cfg" and ?off = "i * dc_block_size cfg + o'"
  have small: "?off < 2 ^ 63" "?bs < 2 ^ 63"
    using assms(7,8) by auto
  have "size_of_int (int ?off) = ?off"
    using small by (intro size_of_int_nat) auto
  then have key: "size_of_int (int ?off) div ?bs = i"
    using assms(7) by simp
  have "size_sub (b_size b) o' = 2 ^ 64 - (o' - b_size b)"
    using assms(6,7) small(2) by (intro size_sub_wraps) auto
  then have n: "min sz (size_sub (b_size b) (size_of_int (int ?off - b_offset b))) = sz"
    using assms(4,7,11) small(2) size_of_int_nat[of o'] by auto
  have "0 < ?bs" using assms(7) by simp
  with key n assms show ?thesis
    by (auto simp: dc_read_def dc_read_loop.simps dc_read_turn_def dc_read_hit_def Let_def
        mem_copy_def int_of_size_exact)
qed

theorem data_cache_read_past_eof_witness:
  "\<exists>c'. dc_read lru_eviction \<lparr>dc_size = 8, dc_block_size = 4, dc_time_out = 30\<rparr> (\<lambda>_. 0)
      (null_operations :: (unit, unit) fuse_operations) ''/f'' ''..'' 2 (int (0 * 4 + 2)) None
      (\<lparr>dc_cache_size = 4, dc_cache = fmupd (''/f'', 0) \<lparr>b_buf = [CHR ''a'', CHR 0x00, CHR 0x00, CHR 0x00], b_size = 1,
           b_offset = 0, b_timestamp = 0, b_mtime = zero_timespec\<rparr> fmempty,
         dc_mtimes = fmupd ''/f'' zero_timespec fmempty, dc_policy = lru_empty\<rparr>, ()) =
      Inr ((2, [CHR 0x00, CHR 0x00], None), c', ())"
  using data_cache_read_past_eof[of
      "\<lparr>dc_cache_size = 4, dc_cache = fmupd (''/f'', 0) \<lparr>b_buf = [CHR ''a'', CHR 0x00, CHR 0x00, CHR 0x00], b_size = 1,
           b_offset = 0, b_timestamp = 0, b_mtime = zero_timespec\<rparr> fmempty,
         dc_mtimes = fmupd ''/f'' zero_timespec fmempty, dc_policy = lru_empty\<rparr>"
      "''/f''" zero_timespec 0 "\<lparr>b_buf = [CHR ''a'', CHR 0x00, CHR 0x00, CHR 0x00], b_size = 1,
           b_offset = 0, b_timestamp = 0, b_mtime = zero_timespec\<rparr>"
      "\<lparr>dc_size = 8, dc_block_size = 4, dc_time_out = 30\<rparr>" "\<lambda>_. 0" "()" 2 2 "''..''"
      lru_eviction null_operations None]
  by (simp add: block_is_valid_def elapsed_seconds_def)

end
