(* ===== verification/Read_Ahead.thy ===== *)
theory Read_Ahead
  imports Fuse_Types
begin

text \<open>
  The class \<^verbatim>\<open>read_ahead::cache\<close> (\<^verbatim>\<open>lib/layers/read_ahead/read_ahead_cache.cpp\<close>): one
  buffer per path holding the last range fetched from the next layer, which is at least as
  long as the configured read-ahead size. Opening a path creates its buffer, releasing the
  path erases it.
\<close>

section \<open>State\<close>

record ra_config =
  ra_size :: nat

text \<open>A fresh buffer has the offset -1, a null array and the size 0.\<close>

record buffer =
  bf_size :: nat
  bf_offset :: int
  bf_buf :: bytes

type_synonym racache = "(path, buffer) fmap"

definition ra_buffer_new :: buffer where
  "ra_buffer_new = \<lparr>bf_size = 0, bf_offset = -1, bf_buf = []\<rparr>"

section \<open>Operations\<close>

text \<open>The sums of an offset and a size are formed in \<^verbatim>\<open>size_t\<close>.\<close>

definition ra_buffer_read :: "buffer \<Rightarrow> bytes \<Rightarrow> nat \<Rightarrow> int \<Rightarrow> (int \<times> bytes) res" where
  "ra_buffer_read bf buf sz offset =
     (if bf_offset bf \<noteq> -1 \<and> offset \<ge> bf_offset bf \<and>
         size_add (size_of_int offset) sz \<le> size_add (size_of_int (bf_offset bf)) (bf_size bf)
      then let offset_in_the_buffer = offset - bf_offset bf
           in rbind (mem_copy buf 0 (bf_buf bf) (nat offset_in_the_buffer) sz)
                (\<lambda>buf1. Inr (int_of_size sz, buf1))
      else Inr (-1, buf))"

definition ra_buffer_update :: "nat \<Rightarrow> int \<Rightarrow> bytes \<Rightarrow> buffer \<Rightarrow> buffer" where
  "ra_buffer_update sz offset buf bf = bf\<lparr>bf_size := sz, bf_offset := offset, bf_buf := buf\<rparr>"

definition ra_open :: "('s, 'd) fuse_operations \<Rightarrow> path \<Rightarrow> fi_ptr \<Rightarrow> racache \<times> 's
    \<Rightarrow> ub + (int \<times> fi_ptr) \<times> racache \<times> 's" where
  "ra_open ops path fi = (\<lambda>(c, s).
     let c1 = (case fmlookup c path of None \<Rightarrow> emplace path ra_buffer_new c | Some _ \<Rightarrow> c)
     in rbind (fn (op_open ops)) (\<lambda>open. rbind (open path fi s) (\<lambda>(r, s1). Inr (r, c1, s1))))"

definition ra_read :: "ra_config \<Rightarrow> ('s, 'd) fuse_operations \<Rightarrow> path \<Rightarrow> bytes \<Rightarrow> nat \<Rightarrow> int \<Rightarrow> fi_ptr
    \<Rightarrow> racache \<times> 's \<Rightarrow> ub + (int \<times> bytes \<times> fi_ptr) \<times> racache \<times> 's" where
  "ra_read cfg ops path buf sz offset fi = (\<lambda>(c, s).
     case fmlookup c path of
       None \<Rightarrow> Inl End_deref
     | Some bf \<Rightarrow>
         rbind (ra_buffer_read bf buf sz offset) (\<lambda>(n_of_bytes_read, buf1).
           if n_of_bytes_read < 0
           then let buf_size = max sz (ra_size cfg)
                in rbind (fn (op_read ops)) (\<lambda>read.
                   rbind (read path (replicate buf_size (CHR 0x00)) buf_size offset fi s)
                     (\<lambda>((res, new_buf, fi1), s1).
                       if res < 0 then Inr ((res, buf1, fi1), c, s1)
                       else let n = int_of_size (min (size_of_int res) sz)
                            in rbind (mem_copy buf1 0 new_buf 0 (size_of_int n)) (\<lambda>buf2.
                               Inr ((n, buf2, fi1),
                                    fmupd path (ra_buffer_update (size_of_int res) offset new_buf bf) c,
                                    s1))))
           else Inr ((n_of_bytes_read, buf1, fi), c, s)))"

definition ra_release :: "('s, 'd) fuse_operations \<Rightarrow> path \<Rightarrow> fi_ptr \<Rightarrow> racache \<times> 's
    \<Rightarrow> ub + (int \<times> fi_ptr) \<times> racache \<times> 's" where
  "ra_release ops path fi = (\<lambda>(c, s).
     let c1 = fmdrop path c
     in rbind (fn (op_release ops)) (\<lambda>release. rbind (release path fi s) (\<lambda>(r, s1). Inr (r, c1, s1))))"

section \<open>What a buffer holds\<close>

text \<open>A buffer is fresh or holds a range of the file that lies inside it.\<close>

definition ra_holds :: "bytes \<Rightarrow> buffer \<Rightarrow> bool" where
  "ra_holds F bf \<longleftrightarrow> bf_offset bf = -1 \<or>
     (\<exists>off. bf_offset bf = int off \<and> off + bf_size bf < 2 ^ 63 \<and> bf_size bf \<le> length (bf_buf bf) \<and>
        take (bf_size bf) (bf_buf bf) = fslice F off (bf_size bf) \<and>
        (bf_size bf = 0 \<or> off + bf_size bf \<le> length F))"

lemma ra_holds_new [simp]: "ra_holds F ra_buffer_new"
  by (simp add: ra_holds_def ra_buffer_new_def)

text \<open>A buffer read either misses or returns exactly the bytes of the file.\<close>

lemma ra_buffer_read_cases:
  assumes "ra_holds F bf" "sz \<le> length buf" "sz < 2 ^ 31" "off + sz < 2 ^ 63"
  shows "ra_buffer_read bf buf sz (int off) = Inr (-1, buf) \<or>
    (ra_buffer_read bf buf sz (int off) = Inr (int sz, fslice F off sz @ drop sz buf) \<and>
     length (fslice F off sz) = sz)"
proof (cases "bf_offset bf \<noteq> -1 \<and> int off \<ge> bf_offset bf \<and>
    size_add (size_of_int (int off)) sz \<le> size_add (size_of_int (bf_offset bf)) (bf_size bf)")
  case False
  then show ?thesis by (auto simp: ra_buffer_read_def)
next
  case True
  then obtain o' where o': "bf_offset bf = int o'" "o' + bf_size bf < 2 ^ 63"
    "bf_size bf \<le> length (bf_buf bf)" "take (bf_size bf) (bf_buf bf) = fslice F o' (bf_size bf)"
    "bf_size bf = 0 \<or> o' + bf_size bf \<le> length F"
    using assms(1) by (auto simp: ra_holds_def)
  have le: "o' \<le> off" "off + sz \<le> o' + bf_size bf"
    using True o'(1,2) assms(4) by (simp_all add: size_of_int_nat size_add_exact)
  have in_range: "sz \<le> length F - off"
    using le o'(5) by (cases "bf_size bf = 0") auto
  have "take sz (drop (off - o') (bf_buf bf)) = take sz (drop (off - o') (take (bf_size bf) (bf_buf bf)))"
    using le by (simp add: take_drop_prefix)
  also have "\<dots> = fslice (fslice F o' (bf_size bf)) (off - o') sz"
    by (simp add: o'(4) fslice_def)
  also have "\<dots> = fslice F off sz"
    using le by (subst fslice_fslice) auto
  finally have "mem_copy buf 0 (bf_buf bf) (off - o') sz = Inr (fslice F off sz @ drop sz buf)"
    using le o'(3) assms(2) by (auto simp: mem_copy_def)
  moreover have "nat (int off - bf_offset bf) = off - o'" using o'(1) le(1) by simp
  ultimately show ?thesis
    using True assms(3) in_range by (simp add: ra_buffer_read_def int_of_size_exact)
qed

lemma ra_holds_update:
  assumes "off + n < 2 ^ 63" "n \<le> length nb" "take n nb = fslice F off n" "n = 0 \<or> off + n \<le> length F"
  shows "ra_holds F (ra_buffer_update n (int off) nb bf)"
  using assms by (auto simp: ra_holds_def ra_buffer_update_def)

section \<open>Properties\<close>

text \<open>
  C28. A read through the read-ahead layer is transparent: if the next layer serves a file of
  contents \<open>F\<close>, the path has a buffer and the buffer holds a range of \<open>F\<close>, the read returns
  the bytes a direct read returns and leaves the rest of the caller's buffer alone, and the
  buffer holds a range of \<open>F\<close> again; for hits, misses and reads at or beyond the end.
\<close>

theorem read_ahead_transparent:
  fixes buf :: bytes
  assumes rd: "op_read ops = Some rd" "serves_file rd I path F" and I: "I s"
    and bf: "fmlookup c path = Some bf" "ra_holds F bf"
    and sz: "sz \<le> length buf" "max sz (ra_size cfg) < 2 ^ 31" "off + max sz (ra_size cfg) < 2 ^ 63"
  shows "\<exists>fi' c' s' bf'. ra_read cfg ops path buf sz (int off) fi (c, s) =
      Inr ((int (length (fslice F off sz)), fslice F off sz @ drop (length (fslice F off sz)) buf, fi'), c', s')
    \<and> fmlookup c' path = Some bf' \<and> ra_holds F bf' \<and> I s'"
proof -
  define m where "m = max sz (ra_size cfg)"
  define d where "d = fslice F off m"
  define e where "e = fslice F off sz"
  have small: "m < 2 ^ 31" "off + m < 2 ^ 63" "sz \<le> m"
    using sz(2,3) by (simp_all add: m_def)
  have "sz < 2 ^ 31" "off + sz < 2 ^ 63" using small by linarith+
  from ra_buffer_read_cases[OF bf(2) sz(1) this] show ?thesis
  proof
    assume miss: "ra_buffer_read bf buf sz (int off) = Inr (-1, buf)"
    define nb where "nb = d @ drop (length d) (replicate m (CHR 0x00))"
    obtain fi' s' where r: "rd path (replicate m (CHR 0x00)) m (int off) fi s =
        Inr ((int (length d), nb, fi'), s')" "I s'"
      unfolding d_def nb_def by (rule serves_fileD[OF rd(2) I, of m "replicate m (CHR 0x00)"]) auto
    have len: "length d \<le> m" by (simp add: d_def)
    have "take sz d = e"
      using small(3) by (simp add: d_def e_def take_fslice)
    then have e: "take (min (length d) sz) d = e" "min (length d) sz = length e"
      by (auto simp: min_def)
    have n: "size_of_int (int (length d)) = length d" "int_of_size (length e) = int (length e)"
        "size_of_int (int (length e)) = length e"
      using small len e(2) by (auto intro!: size_of_int_nat int_of_size_exact)
    have "mem_copy buf 0 nb 0 (length e) = Inr (e @ drop (length e) buf)"
      using sz(1) e by (auto simp: mem_copy_def nb_def)
    then have "ra_read cfg ops path buf sz (int off) fi (c, s) =
        Inr ((int (length e), e @ drop (length e) buf, fi'),
             fmupd path (ra_buffer_update (length d) (int off) nb bf) c, s')"
      using bf(1) miss rd(1) r(1) n e(2) by (simp add: ra_read_def Let_def flip: m_def)
    moreover have "ra_holds F (ra_buffer_update (length d) (int off) nb bf)"
      by (rule ra_holds_update) (use small len in \<open>auto simp: nb_def d_def fslice_def\<close>)
    ultimately show ?thesis
      using r(2) by (intro exI conjI) (auto simp: e_def)
  next
    assume "ra_buffer_read bf buf sz (int off) = Inr (int sz, fslice F off sz @ drop sz buf) \<and>
      length (fslice F off sz) = sz"
    with bf I show ?thesis
      by (intro exI[of _ fi] exI[of _ c] exI[of _ s] exI[of _ bf]) (simp add: ra_read_def)
  qed
qed


theorem read_ahead_transparent_witness:
  "\<exists>fi' c' s'. ra_read \<lparr>ra_size = 4\<rparr> (null_operations\<lparr>op_read := Some (const_read ''abcdefg'')\<rparr>) ''/f''
      ''...'' 2 (int 1) None (fmupd ''/f'' ra_buffer_new fmempty, ()) = Inr ((2, ''bc.'', fi'), c', s')"
  using read_ahead_transparent[of "null_operations\<lparr>op_read := Some (const_read ''abcdefg'')\<rparr>"
      "const_read ''abcdefg''" "\<lambda>_. True" "''/f''" "''abcdefg''" "()" "fmupd ''/f'' ra_buffer_new fmempty"
      ra_buffer_new 2 "''...''" "\<lparr>ra_size = 4\<rparr>" 1 None]
    const_read_serves[of "''abcdefg''" "\<lambda>_. True" "''/f''"]
  by (auto simp: fslice_def)

text \<open>
  Reading ahead saves reads: once a read at \<open>off\<close> has fetched \<open>n\<close> bytes from the next
  layer, every read of the path inside these \<open>n\<close> bytes is answered from the buffer, with the
  fetched bytes, without calling the next layer at all (its state is unchanged and its table
  of operations may be anything) and without changing the buffer.
\<close>

theorem read_ahead_serves_from_buffer:
  assumes "fmlookup c path = Some (ra_buffer_update n (int off) nb bf)" "n \<le> length nb"
    and "off \<le> off'" "off' + sz \<le> off + n" "off + n < 2 ^ 63" "sz < 2 ^ 31" "sz \<le> length buf"
  shows "ra_read cfg ops path buf sz (int off') fi (c, s) =
    Inr ((int sz, take sz (drop (off' - off) nb) @ drop sz buf, fi), c, s)"
proof -
  have "size_add (size_of_int (int off')) sz = off' + sz" "size_add (size_of_int (int off)) n = off + n"
    using assms(4,5) by (simp_all add: size_of_int_nat size_add_exact)
  moreover have "nat (int off' - int off) = off' - off" using assms(3) by simp
  moreover have "mem_copy buf 0 nb (off' - off) sz = Inr (take sz (drop (off' - off) nb) @ drop sz buf)"
    using assms(2-4,7) by (simp add: mem_copy_def)
  ultimately show ?thesis
    using assms by (simp add: ra_read_def ra_buffer_read_def ra_buffer_update_def int_of_size_exact)
qed

theorem read_ahead_serves_from_buffer_witness:
  "ra_read \<lparr>ra_size = 4\<rparr> (null_operations :: (unit, unit) fuse_operations) ''/f'' ''..'' 2 (int 3) None
     (fmupd ''/f'' (ra_buffer_update 4 (int 2) ''cdef'' ra_buffer_new) fmempty, ()) =
   Inr ((2, ''de'', None), fmupd ''/f'' (ra_buffer_update 4 (int 2) ''cdef'' ra_buffer_new) fmempty, ())"
  using read_ahead_serves_from_buffer[of "fmupd ''/f'' (ra_buffer_update 4 (int 2) ''cdef'' ra_buffer_new) fmempty"
      "''/f''" 4 2 "''cdef''" ra_buffer_new 3 2 "''..''" "\<lparr>ra_size = 4\<rparr>"
      "null_operations :: (unit, unit) fuse_operations" None "()"]
  by simp

text \<open>
  C29. The buffer of a path belongs to the path, not to the open file: if a path is opened
  twice and one of the two is released, the next read through the other one dereferences
  the end iterator, whatever the next layer does.
\<close>

theorem read_ahead_release_breaks_other_handle:
  assumes "ra_open ops path fi1 (c, s) = Inr (r1, cs1)" "ra_open ops path fi2 cs1 = Inr (r2, cs2)"
    and "ra_release ops path fi1 cs2 = Inr (r3, cs3)"
  shows "ra_read cfg ops path buf sz offset fi2 cs3 = Inl End_deref"
  using assms(3) by (cases cs2) (auto simp: ra_release_def ra_read_def rbind_eq_Inr_conv Let_def)

theorem read_ahead_release_breaks_other_handle_witness:
  "let ops = null_operations\<lparr>op_open := Some (\<lambda>p fi s. Inr ((0, fi), s)),
                             op_release := Some (\<lambda>p fi s. Inr ((0, fi), s))\<rparr>
   in \<exists>cs1 cs2 cs3. ra_open ops ''/f'' None (fmempty, ()) = Inr ((0, None), cs1) \<and>
        ra_open ops ''/f'' None cs1 = Inr ((0, None), cs2) \<and>
        ra_release ops ''/f'' None cs2 = Inr ((0, None), cs3) \<and>
        ra_read \<lparr>ra_size = 4\<rparr> ops ''/f'' ''..'' 2 0 None cs3 = Inl End_deref"
proof -
  let ?ops = "null_operations\<lparr>op_open := Some (\<lambda>p fi s. Inr ((0, fi), s)),
                             op_release := Some (\<lambda>p fi s. Inr ((0, fi), s))\<rparr>"
  let ?c = "fmupd ''/f'' ra_buffer_new fmempty"
  have "ra_open ?ops ''/f'' None (fmempty, ()) = Inr ((0, None), ?c, ())"
    "ra_open ?ops ''/f'' None (?c, ()) = Inr ((0, None), ?c, ())"
    "ra_release ?ops ''/f'' None (?c, ()) = Inr ((0, None), fmdrop ''/f'' ?c, ())"
    by (simp_all add: ra_open_def ra_release_def emplace_def)
  with read_ahead_release_breaks_other_handle[OF this] show ?thesis
    unfolding Let_def by blast
qed

end
