(* ===== verification/Struct_Fillers.thy ===== *)
theory Struct_Fillers
  imports Fuse_Types
begin

text \<open>
  The wire structures of \<^verbatim>\<open>protos/fuse_operations.proto\<close> and the conversions of
  \<^verbatim>\<open>include/rsafefs/fuse_rpc/grpc/structs_fillers.hpp\<close> between them and the C structures,
  with the integer conversions C++ inserts where the widths differ (\<^verbatim>\<open>int32\<close> widens by sign,
  \<^verbatim>\<open>uint32\<close> by zero, narrowing keeps the low bits); and the directory buffer of
  \<^verbatim>\<open>fuse_rpc/utils/dir_info.cpp\<close>. A filler writes through a pointer: it takes the structure it
  overwrites and returns it updated. An absent submessage reads as its default instance, all
  zero.
\<close>

section \<open>Wire structures\<close>

record StructTimespec =
  ts_sec :: "64 word"
  ts_nsec :: "64 word"

record StructStat =
  ss_dev :: "32 word"      \<comment> \<open>signed\<close>
  ss_ino :: "64 word"
  ss_mode :: "32 word"
  ss_nlink :: "32 word"
  ss_uid :: "32 word"
  ss_gid :: "32 word"
  ss_rdev :: "32 word"     \<comment> \<open>signed\<close>
  ss_size :: "64 word"
  ss_blksize :: "32 word"
  ss_blocks :: "64 word"
  ss_atim :: StructTimespec
  ss_mtim :: StructTimespec
  ss_ctim :: StructTimespec

record StructFuseFileInfo =
  sfi_flags :: "32 word"
  sfi_fh_old :: "64 word"
  sfi_writepage :: "32 word"
  sfi_direct_io :: "32 word"
  sfi_keep_cache :: "32 word"
  sfi_flush :: "32 word"
  sfi_nonseekable :: "32 word"
  sfi_flock_release :: "32 word"
  sfi_padding :: "32 word"
  sfi_fh :: "64 word"
  sfi_lock_owner :: "64 word"

record StructStatvfs =
  sv_bsize :: "64 word"
  sv_frsize :: "64 word"
  sv_blocks :: "32 word"
  sv_bfree :: "32 word"
  sv_bavail :: "32 word"
  sv_files :: "32 word"
  sv_ffree :: "32 word"
  sv_favail :: "32 word"
  sv_fsid :: "64 word"
  sv_flag :: "64 word"
  sv_namemax :: "64 word"

record StructDirInfoEntry =
  sde_name :: string
  sde_stbuf :: StructStat
  sde_offset :: nat        \<comment> \<open>\<^verbatim>\<open>uint64\<close>\<close>

definition default_Timespec :: StructTimespec where
  "default_Timespec = \<lparr>ts_sec = 0, ts_nsec = 0\<rparr>"

definition default_Stat :: StructStat where
  "default_Stat = \<lparr>ss_dev = 0, ss_ino = 0, ss_mode = 0, ss_nlink = 0, ss_uid = 0, ss_gid = 0,
     ss_rdev = 0, ss_size = 0, ss_blksize = 0, ss_blocks = 0, ss_atim = default_Timespec,
     ss_mtim = default_Timespec, ss_ctim = default_Timespec\<rparr>"

definition default_FuseFileInfo :: StructFuseFileInfo where
  "default_FuseFileInfo = \<lparr>sfi_flags = 0, sfi_fh_old = 0, sfi_writepage = 0, sfi_direct_io = 0,
     sfi_keep_cache = 0, sfi_flush = 0, sfi_nonseekable = 0, sfi_flock_release = 0,
     sfi_padding = 0, sfi_fh = 0, sfi_lock_owner = 0\<rparr>"

definition default_Statvfs :: StructStatvfs where
  "default_Statvfs = \<lparr>sv_bsize = 0, sv_frsize = 0, sv_blocks = 0, sv_bfree = 0, sv_bavail = 0,
     sv_files = 0, sv_ffree = 0, sv_favail = 0, sv_fsid = 0, sv_flag = 0, sv_namemax = 0\<rparr>"

section \<open>Fillers\<close>

definition fill_StructFuseFileInfo :: "fuse_file_info \<Rightarrow> StructFuseFileInfo \<Rightarrow> StructFuseFileInfo" where
  "fill_StructFuseFileInfo fi sfi = sfi\<lparr>
     sfi_flags := fi_flags fi,
     sfi_fh_old := fi_fh_old fi,
     sfi_writepage := fi_writepage fi,
     sfi_direct_io := ucast (fi_direct_io fi),
     sfi_keep_cache := ucast (fi_keep_cache fi),
     sfi_flush := ucast (fi_flush fi),
     sfi_nonseekable := ucast (fi_nonseekable fi),
     sfi_flock_release := ucast (fi_flock_release fi),
     sfi_padding := ucast (fi_padding fi),
     sfi_fh := fi_fh fi,
     sfi_lock_owner := fi_lock_owner fi\<rparr>"

definition fill_fuse_file_info :: "StructFuseFileInfo \<Rightarrow> fuse_file_info \<Rightarrow> fuse_file_info" where
  "fill_fuse_file_info sfi fi = fi\<lparr>
     fi_flags := sfi_flags sfi,
     fi_fh_old := sfi_fh_old sfi,
     fi_writepage := sfi_writepage sfi,
     fi_direct_io := ucast (sfi_direct_io sfi),
     fi_keep_cache := ucast (sfi_keep_cache sfi),
     fi_flush := ucast (sfi_flush sfi),
     fi_nonseekable := ucast (sfi_nonseekable sfi),
     fi_flock_release := ucast (sfi_flock_release sfi),
     fi_padding := ucast (sfi_padding sfi),
     fi_fh := sfi_fh sfi,
     fi_lock_owner := sfi_lock_owner sfi\<rparr>"

definition fill_StructTimespec :: "timespec \<Rightarrow> StructTimespec \<Rightarrow> StructTimespec" where
  "fill_StructTimespec ts sts = sts\<lparr>ts_sec := tv_sec ts, ts_nsec := tv_nsec ts\<rparr>"

definition fill_struct_timespec :: "StructTimespec \<Rightarrow> timespec \<Rightarrow> timespec" where
  "fill_struct_timespec sts ts = ts\<lparr>tv_sec := ts_sec sts, tv_nsec := ts_nsec sts\<rparr>"

definition fill_StructStat :: "stat \<Rightarrow> StructStat \<Rightarrow> StructStat" where
  "fill_StructStat stbuf buf = buf\<lparr>
     ss_dev := ucast (st_dev stbuf),
     ss_ino := st_ino stbuf,
     ss_mode := st_mode stbuf,
     ss_nlink := ucast (st_nlink stbuf),
     ss_uid := st_uid stbuf,
     ss_gid := st_gid stbuf,
     ss_rdev := ucast (st_rdev stbuf),
     ss_size := st_size stbuf,
     ss_blksize := ucast (st_blksize stbuf),
     ss_blocks := st_blocks stbuf,
     ss_atim := (ss_atim buf)\<lparr>ts_sec := tv_sec (st_atim stbuf), ts_nsec := tv_nsec (st_atim stbuf)\<rparr>,
     ss_mtim := (ss_mtim buf)\<lparr>ts_sec := tv_sec (st_mtim stbuf), ts_nsec := tv_nsec (st_mtim stbuf)\<rparr>,
     ss_ctim := (ss_ctim buf)\<lparr>ts_sec := tv_sec (st_ctim stbuf), ts_nsec := tv_nsec (st_ctim stbuf)\<rparr>\<rparr>"

definition fill_struct_stat :: "StructStat \<Rightarrow> stat \<Rightarrow> stat" where
  "fill_struct_stat buf stbuf = stbuf\<lparr>
     st_dev := scast (ss_dev buf),
     st_ino := ss_ino buf,
     st_mode := ss_mode buf,
     st_nlink := ucast (ss_nlink buf),
     st_uid := ss_uid buf,
     st_gid := ss_gid buf,
     st_rdev := scast (ss_rdev buf),
     st_size := ss_size buf,
     st_blksize := ucast (ss_blksize buf),
     st_blocks := ss_blocks buf,
     st_atim := (st_atim stbuf)\<lparr>tv_sec := ts_sec (ss_atim buf), tv_nsec := ts_nsec (ss_atim buf)\<rparr>,
     st_mtim := (st_mtim stbuf)\<lparr>tv_sec := ts_sec (ss_mtim buf), tv_nsec := ts_nsec (ss_mtim buf)\<rparr>,
     st_ctim := (st_ctim stbuf)\<lparr>tv_sec := ts_sec (ss_ctim buf), tv_nsec := ts_nsec (ss_ctim buf)\<rparr>\<rparr>"

definition fill_StructStatvfs :: "statvfs \<Rightarrow> StructStatvfs \<Rightarrow> StructStatvfs" where
  "fill_StructStatvfs stbuf buf = buf\<lparr>
     sv_bsize := f_bsize stbuf,
     sv_frsize := f_frsize stbuf,
     sv_blocks := ucast (f_blocks stbuf),
     sv_bfree := ucast (f_bfree stbuf),
     sv_bavail := ucast (f_bavail stbuf),
     sv_files := ucast (f_files stbuf),
     sv_ffree := ucast (f_ffree stbuf),
     sv_favail := ucast (f_favail stbuf),
     sv_fsid := f_fsid stbuf,
     sv_flag := f_flag stbuf,
     sv_namemax := f_namemax stbuf\<rparr>"

definition fill_struct_statvfs :: "StructStatvfs \<Rightarrow> statvfs \<Rightarrow> statvfs" where
  "fill_struct_statvfs buf stbuf = stbuf\<lparr>
     f_bsize := sv_bsize buf,
     f_frsize := sv_frsize buf,
     f_blocks := ucast (sv_blocks buf),
     f_bfree := ucast (sv_bfree buf),
     f_bavail := ucast (sv_bavail buf),
     f_files := ucast (sv_files buf),
     f_ffree := ucast (sv_ffree buf),
     f_favail := ucast (sv_favail buf),
     f_fsid := sv_fsid buf,
     f_flag := sv_flag buf,
     f_namemax := sv_namemax buf\<rparr>"

section \<open>The directory buffer\<close>

record dir_entry =
  de_name :: string
  de_st :: stat
  de_offset :: int

type_synonym dir_info = "dir_entry list"

definition rpc_filler :: "dir_info fill_dir" where
  "rpc_filler buf name stbuf off = (0, buf @ [\<lparr>de_name = name, de_st = stbuf, de_offset = off\<rparr>])"

definition fill_StructDirEntryInfo :: "dir_entry \<Rightarrow> StructDirInfoEntry" where
  "fill_StructDirEntryInfo entry =
     \<lparr>sde_name = de_name entry, sde_stbuf = fill_StructStat (de_st entry) default_Stat,
      sde_offset = size_of_int (de_offset entry)\<rparr>"

section \<open>Codecs\<close>

text \<open>
  What the remote-call code relies on: writing a C structure into a message and reading the
  message into any C structure gives the structure narrowed to what the message can carry,
  and nothing is lost a second time.
\<close>

locale codec =
  fixes put :: "'a \<Rightarrow> 'm \<Rightarrow> 'm"
    and got :: "'m \<Rightarrow> 'a \<Rightarrow> 'a"
    and narrow :: "'a \<Rightarrow> 'a"
  assumes got_put [simp]: "got (put a m) b = narrow a"
    and put_narrow: "put (narrow a) m = put a m"
    and put_put [simp]: "put a (put b m) = put a m"
begin

lemma narrow_narrow: "narrow (narrow a) = narrow a"
  by (metis got_put put_narrow)

text \<open>A structure relayed through two hops arrives as through one.\<close>

lemma two_hops: "got (put (got (put a m) b) m') b' = narrow a"
  by (simp add: narrow_narrow)

lemma put_inject: "put a m = put b m \<longleftrightarrow> narrow a = narrow b"
  by (metis got_put put_narrow)

end

definition narrow_stat :: "stat \<Rightarrow> stat" where
  "narrow_stat st = st\<lparr>
     st_dev := scast (ucast (st_dev st) :: 32 word),
     st_nlink := ucast (ucast (st_nlink st) :: 32 word),
     st_rdev := scast (ucast (st_rdev st) :: 32 word),
     st_blksize := ucast (ucast (st_blksize st) :: 32 word)\<rparr>"

definition narrow_statvfs :: "statvfs \<Rightarrow> statvfs" where
  "narrow_statvfs st = st\<lparr>
     f_blocks := ucast (ucast (f_blocks st) :: 32 word),
     f_bfree := ucast (ucast (f_bfree st) :: 32 word),
     f_bavail := ucast (ucast (f_bavail st) :: 32 word),
     f_files := ucast (ucast (f_files st) :: 32 word),
     f_ffree := ucast (ucast (f_ffree st) :: 32 word),
     f_favail := ucast (ucast (f_favail st) :: 32 word)\<rparr>"

lemma ucast_up_down [simp]:
  "ucast (ucast (w :: 1 word) :: 32 word) = w"
  "ucast (ucast (v :: 27 word) :: 32 word) = v"
  "ucast (ucast (u :: 32 word) :: 64 word) = u"
  by (rule bit_word_eqI; simp add: bit_simps)+

lemma ucast_scast_down [simp]: "ucast (scast (u :: 32 word) :: 64 word) = u"
  by (rule bit_word_eqI; simp add: bit_simps)+

interpretation fi_codec: codec fill_StructFuseFileInfo fill_fuse_file_info "\<lambda>fi. fi"
  by unfold_locales (simp_all add: fill_StructFuseFileInfo_def fill_fuse_file_info_def)

interpretation ts_codec: codec fill_StructTimespec fill_struct_timespec "\<lambda>ts. ts"
  by unfold_locales (simp_all add: fill_StructTimespec_def fill_struct_timespec_def)

interpretation st_codec: codec fill_StructStat fill_struct_stat narrow_stat
  by unfold_locales (simp_all add: fill_StructStat_def fill_struct_stat_def narrow_stat_def)

interpretation sv_codec: codec fill_StructStatvfs fill_struct_statvfs narrow_statvfs
  by unfold_locales (simp_all add: fill_StructStatvfs_def fill_struct_statvfs_def narrow_statvfs_def)

section \<open>What the wire can carry\<close>

definition stat_fits :: "stat \<Rightarrow> bool" where
  "stat_fits st \<longleftrightarrow> - (2 ^ 31) \<le> sint (st_dev st) \<and> sint (st_dev st) < 2 ^ 31 \<and>
     - (2 ^ 31) \<le> sint (st_rdev st) \<and> sint (st_rdev st) < 2 ^ 31 \<and>
     uint (st_nlink st) < 2 ^ 32 \<and> uint (st_blksize st) < 2 ^ 32"

definition statvfs_fits :: "statvfs \<Rightarrow> bool" where
  "statvfs_fits st \<longleftrightarrow>
     (\<forall>n \<in> set [f_blocks st, f_bfree st, f_bavail st, f_files st, f_ffree st, f_favail st].
        uint n < 2 ^ 32)"

lemma ucast_narrow_iff: "ucast (ucast (w :: 64 word) :: 32 word) = w \<longleftrightarrow> uint w < 2 ^ 32"
proof -
  have "uint (ucast (ucast w :: 32 word) :: 64 word) = uint w mod 2 ^ 32"
    by (simp add: unsigned_ucast_eq take_bit_eq_mod uint_mod)
  then show ?thesis
    by (metis mod_pos_pos_trivial pos_mod_bound uint_ge_0 word_uint_eqI zero_less_numeral zero_less_power)
qed

lemma scast_narrow_iff:
  "scast (ucast (w :: 64 word) :: 32 word) = w \<longleftrightarrow> - (2 ^ 31) \<le> sint w \<and> sint w < 2 ^ 31"
proof -
  have eq: "sint (scast (ucast w :: 32 word) :: 64 word) = signed_take_bit 31 (sint w)"
    by (rule bit_eqI) (auto simp: bit_simps min_def)
  have "scast (ucast w :: 32 word) = w \<longleftrightarrow> signed_take_bit 31 (sint w) = sint w"
    using eq by (metis signed_word_eqI)
  then show ?thesis
    by (simp add: signed_take_bit_int_eq_self_iff)
qed

lemma narrow_stat_fits: "narrow_stat st = st \<longleftrightarrow> stat_fits st"
  by (cases st) (auto simp: narrow_stat_def stat_fits_def ucast_narrow_iff scast_narrow_iff)

lemma narrow_statvfs_fits: "narrow_statvfs st = st \<longleftrightarrow> statvfs_fits st"
  by (cases st) (auto simp: narrow_statvfs_def statvfs_fits_def ucast_narrow_iff)

section \<open>Properties\<close>

text \<open>
  A \<^verbatim>\<open>fuse_file_info\<close> survives the wire: written into any message by
  \<^verbatim>\<open>fill_StructFuseFileInfo\<close> and read back by \<^verbatim>\<open>fill_fuse_file_info\<close> into any structure, every
  field comes back as it was, the one-bit flags and the 27 padding bits included.
\<close>

theorem file_info_roundtrip:
  "fill_fuse_file_info (fill_StructFuseFileInfo fi sfi) fi0 = fi"
  by (rule fi_codec.got_put)

text \<open>
  C30. A \<^verbatim>\<open>struct stat\<close> survives the wire exactly when its device numbers fit a signed 32-bit
  integer and its link count and block size an unsigned one; in every case the inode number,
  mode, owner, size, block count and all three time stamps arrive unchanged.
\<close>

theorem stat_roundtrip:
  "(fill_struct_stat (fill_StructStat st m) st0 = st \<longleftrightarrow> stat_fits st) \<and>
   (let st' = fill_struct_stat (fill_StructStat st m) st0 in
      st_ino st' = st_ino st \<and> st_mode st' = st_mode st \<and> st_uid st' = st_uid st \<and>
      st_gid st' = st_gid st \<and> st_size st' = st_size st \<and> st_blocks st' = st_blocks st \<and>
      st_atim st' = st_atim st \<and> st_mtim st' = st_mtim st \<and> st_ctim st' = st_ctim st)"
  by (simp add: narrow_stat_fits) (simp add: narrow_stat_def)

text \<open>
  A \<^verbatim>\<open>struct statvfs\<close> survives the wire exactly when its six block and file counts are
  below \<open>2 ^ 32\<close>; beyond that each of them arrives modulo \<open>2 ^ 32\<close>, so that a file system of
  \<open>2 ^ 32\<close> blocks is reported to have none.
\<close>

theorem statvfs_roundtrip:
  "(fill_struct_statvfs (fill_StructStatvfs st m) st0 = st \<longleftrightarrow> statvfs_fits st) \<and>
   uint (f_blocks (fill_struct_statvfs (fill_StructStatvfs st m) st0)) = uint (f_blocks st) mod 2 ^ 32 \<and>
   uint (f_bfree (fill_struct_statvfs (fill_StructStatvfs st m) st0)) = uint (f_bfree st) mod 2 ^ 32 \<and>
   f_blocks (fill_struct_statvfs (fill_StructStatvfs (st\<lparr>f_blocks := 2 ^ 32\<rparr>) m) st0) = 0"
  by (simp add: narrow_statvfs_fits)
     (simp add: narrow_statvfs_def unsigned_ucast_eq take_bit_eq_mod uint_mod)

end
