(* ===== verification/Proto_Messages.thy ===== *)
theory Proto_Messages
  imports Struct_Fillers
begin

text \<open>
  The request and reply messages of the service \<^verbatim>\<open>FuseOps\<close>
  (\<^verbatim>\<open>protos/fuse_operations.proto\<close>), one datatype per message with its fields in the order of
  their numbers. \<^verbatim>\<open>uint64\<close> sizes and offsets are naturals, \<^verbatim>\<open>int32\<close> and \<^verbatim>\<open>int64\<close> fields
  integers; bit patterns (modes, owners, device numbers) are words. A remote procedure, seen
  from its caller, either delivers a reply or ends with a status other than OK.
\<close>

section \<open>Requests\<close>

datatype GetattrRequest = GetattrRequest path
datatype FgetattrRequest = FgetattrRequest path StructFuseFileInfo
datatype AccessRequest = AccessRequest path int
datatype ReadlinkRequest = ReadlinkRequest path nat
datatype OpendirRequest = OpendirRequest path StructFuseFileInfo
datatype ReaddirRequest = ReaddirRequest path nat StructFuseFileInfo
datatype ReleasedirRequest = ReleasedirRequest path StructFuseFileInfo
datatype MknodRequest = MknodRequest path "32 word" "64 word"
datatype MkdirRequest = MkdirRequest path "32 word"
datatype SymlinkRequest = SymlinkRequest path path
datatype UnlinkRequest = UnlinkRequest path
datatype RmdirRequest = RmdirRequest path
datatype RenameRequest = RenameRequest path path
datatype LinkRequest = LinkRequest path path
datatype ChmodRequest = ChmodRequest path "32 word"
datatype ChownRequest = ChownRequest path "32 word" "32 word"
datatype TruncateRequest = TruncateRequest path int
datatype FtruncateRequest = FtruncateRequest path int StructFuseFileInfo
datatype UtimensRequest = UtimensRequest path StructTimespec StructTimespec
datatype CreateRequest = CreateRequest path "32 word" StructFuseFileInfo
datatype OpenRequest = OpenRequest path StructFuseFileInfo
datatype ReadRequest = ReadRequest path nat int StructFuseFileInfo
datatype WriteRequest = WriteRequest path nat int bytes StructFuseFileInfo
datatype StatfsRequest = StatfsRequest path
datatype FlushRequest = FlushRequest path StructFuseFileInfo
datatype ReleaseRequest = ReleaseRequest path StructFuseFileInfo
datatype FsyncRequest = FsyncRequest path int StructFuseFileInfo
datatype FallocateRequest = FallocateRequest path int int int StructFuseFileInfo
datatype SetxattrRequest = SetxattrRequest path string nat int bytes
datatype GetxattrRequest = GetxattrRequest path string nat
datatype ListxattrRequest = ListxattrRequest path nat
datatype RemovexattrRequest = RemovexattrRequest path string

section \<open>Replies\<close>

datatype GetattrReply = GetattrReply int StructStat
datatype FgetattrReply = FgetattrReply int StructStat StructFuseFileInfo
datatype AccessReply = AccessReply int
datatype ReadlinkReply = ReadlinkReply int string
datatype OpendirReply = OpendirReply int StructFuseFileInfo
datatype ReaddirReply = ReaddirReply int "StructDirInfoEntry list" StructFuseFileInfo
datatype ReleasedirReply = ReleasedirReply int StructFuseFileInfo
datatype MknodReply = MknodReply int
datatype MkdirReply = MkdirReply int
datatype SymlinkReply = SymlinkReply int
datatype UnlinkReply = UnlinkReply int
datatype RmdirReply = RmdirReply int
datatype RenameReply = RenameReply int
datatype LinkReply = LinkReply int
datatype ChmodReply = ChmodReply int
datatype ChownReply = ChownReply int
datatype TruncateReply = TruncateReply int
datatype FtruncateReply = FtruncateReply int StructFuseFileInfo
datatype UtimensReply = UtimensReply int
datatype CreateReply = CreateReply int StructFuseFileInfo
datatype OpenReply = OpenReply int StructFuseFileInfo
datatype ReadReply = ReadReply int bytes StructFuseFileInfo
datatype WriteReply = WriteReply int StructFuseFileInfo
datatype StatfsReply = StatfsReply int StructStatvfs
datatype FlushReply = FlushReply int StructFuseFileInfo
datatype ReleaseReply = ReleaseReply int StructFuseFileInfo
datatype FsyncReply = FsyncReply int StructFuseFileInfo
datatype FallocateReply = FallocateReply int StructFuseFileInfo
datatype SetxattrReply = SetxattrReply int
datatype GetxattrReply = GetxattrReply int bytes
datatype ListxattrReply = ListxattrReply int bytes
datatype RemovexattrReply = RemovexattrReply int

section \<open>Procedures\<close>

type_synonym ('n, 'q, 'r) rpc = "'q \<Rightarrow> 'n \<Rightarrow> 'r option \<times> 'n"

end
