(* ===== verification/Rpc_Server.thy ===== *)
theory Rpc_Server
  imports Proto_Messages
begin

text \<open>
  The server side of the remote procedures (\<^verbatim>\<open>lib/fuse_rpc/grpc/server.cpp\<close>): what each
  \<^verbatim>\<open>call_data::proceed\<close> does with a request, the life cycle of the call objects, the three
  streaming procedures with the state they keep between messages, and the set-up in
  \<^verbatim>\<open>server::run\<close>. The operations the server offers are an argument, the table
  \<^verbatim>\<open>operations_\<close>; everything they act on is the state \<open>'s\<close>.
\<close>

section \<open>Unary procedures\<close>

text \<open>
  The body of the \<^verbatim>\<open>PROCESS\<close> case: unpack the request, call the operation, fill the reply.
  \<open>with_info\<close> is the part all operations on open files share: a zeroed local
  \<^verbatim>\<open>fuse_file_info\<close> is filled from the request, passed by address, and written to the reply.
\<close>

definition pointee :: "'a \<Rightarrow> 'a option \<Rightarrow> 'a" where
  "pointee a p = (case p of None \<Rightarrow> a | Some b \<Rightarrow> b)"

definition with_info :: "StructFuseFileInfo \<Rightarrow> (fi_ptr \<Rightarrow> ('s, 'a \<times> fi_ptr) action)
    \<Rightarrow> ('s, 'a \<times> StructFuseFileInfo) action" where
  "with_info info call s =
     (let fi = fill_fuse_file_info info zero_file_info
      in rbind (call (Some fi) s) (\<lambda>((res, p), s1).
           Inr ((res, fill_StructFuseFileInfo (pointee fi p) default_FuseFileInfo), s1)))"

fun getattr_process :: "('s, 'd) fuse_operations \<Rightarrow> GetattrRequest \<Rightarrow> ('s, GetattrReply) action" where
  "getattr_process ops (GetattrRequest path) s =
     rbind (fn (op_getattr ops)) (\<lambda>getattr.
     rbind (getattr path zero_stat s) (\<lambda>((res, stbuf), s1).
       Inr (GetattrReply res (fill_StructStat stbuf default_Stat), s1)))"

fun fgetattr_process :: "('s, 'd) fuse_operations \<Rightarrow> FgetattrRequest \<Rightarrow> ('s, FgetattrReply) action" where
  "fgetattr_process ops (FgetattrRequest path info) s =
     rbind (fn (op_fgetattr ops)) (\<lambda>fgetattr.
     rbind (with_info info (\<lambda>fi s. rbind (fgetattr path zero_stat fi s)
              (\<lambda>((res, stbuf, fi1), s1). Inr (((res, stbuf), fi1), s1))) s)
       (\<lambda>(((res, stbuf), info1), s1).
       Inr (FgetattrReply res (fill_StructStat stbuf default_Stat) info1, s1)))"

fun access_process :: "('s, 'd) fuse_operations \<Rightarrow> AccessRequest \<Rightarrow> ('s, AccessReply) action" where
  "access_process ops (AccessRequest path msk) s =
     rbind (fn (op_access ops)) (\<lambda>access.
     rbind (access path msk s) (\<lambda>(res, s1). Inr (AccessReply res, s1)))"

text \<open>\<^verbatim>\<open>buf->resize(size)\<close> on a fresh string: \<open>size\<close> zero bytes.\<close>

definition resize :: "bytes \<Rightarrow> nat \<Rightarrow> bytes" where
  "resize buf sz = take sz buf @ replicate (sz - length buf) (CHR 0x00)"

fun readlink_process :: "('s, 'd) fuse_operations \<Rightarrow> ReadlinkRequest \<Rightarrow> ('s, ReadlinkReply) action" where
  "readlink_process ops (ReadlinkRequest path sz) s =
     rbind (fn (op_readlink ops)) (\<lambda>readlink.
     rbind (readlink path (resize [] sz) sz s) (\<lambda>((res, buf), s1). Inr (ReadlinkReply res buf, s1)))"

fun opendir_process :: "('s, 'd) fuse_operations \<Rightarrow> OpendirRequest \<Rightarrow> ('s, OpendirReply) action" where
  "opendir_process ops (OpendirRequest path info) s =
     rbind (fn (op_opendir ops)) (\<lambda>opendir.
     rbind (with_info info (opendir path) s) (\<lambda>((res, info1), s1). Inr (OpendirReply res info1, s1)))"

fun readdir_process :: "('s, dir_info) fuse_operations \<Rightarrow> ReaddirRequest \<Rightarrow> ('s, ReaddirReply) action" where
  "readdir_process ops (ReaddirRequest path offset info) s =
     rbind (fn (op_readdir ops)) (\<lambda>readdir.
     rbind (with_info info (\<lambda>fi s. rbind (readdir path [] rpc_filler (off_of_size offset) fi s)
              (\<lambda>((res, di, fi1), s1). Inr (((res, di), fi1), s1))) s)
       (\<lambda>(((res, di), info1), s1).
       Inr (ReaddirReply res (map fill_StructDirEntryInfo di) info1, s1)))"

fun releasedir_process :: "('s, 'd) fuse_operations \<Rightarrow> ReleasedirRequest \<Rightarrow> ('s, ReleasedirReply) action" where
  "releasedir_process ops (ReleasedirRequest path info) s =
     rbind (fn (op_releasedir ops)) (\<lambda>releasedir.
     rbind (with_info info (releasedir path) s) (\<lambda>((res, info1), s1). Inr (ReleasedirReply res info1, s1)))"

fun mknod_process :: "('s, 'd) fuse_operations \<Rightarrow> MknodRequest \<Rightarrow> ('s, MknodReply) action" where
  "mknod_process ops (MknodRequest path mode rdev) s =
     rbind (fn (op_mknod ops)) (\<lambda>f. rbind (f path mode rdev s) (\<lambda>(res, s1). Inr (MknodReply res, s1)))"

fun mkdir_process :: "('s, 'd) fuse_operations \<Rightarrow> MkdirRequest \<Rightarrow> ('s, MkdirReply) action" where
  "mkdir_process ops (MkdirRequest path mode) s =
     rbind (fn (op_mkdir ops)) (\<lambda>f. rbind (f path mode s) (\<lambda>(res, s1). Inr (MkdirReply res, s1)))"

fun symlink_process :: "('s, 'd) fuse_operations \<Rightarrow> SymlinkRequest \<Rightarrow> ('s, SymlinkReply) action" where
  "symlink_process ops (SymlinkRequest src dst) s =
     rbind (fn (op_symlink ops)) (\<lambda>f. rbind (f src dst s) (\<lambda>(res, s1). Inr (SymlinkReply res, s1)))"

fun rename_process :: "('s, 'd) fuse_operations \<Rightarrow> RenameRequest \<Rightarrow> ('s, RenameReply) action" where
  "rename_process ops (RenameRequest src dst) s =
     rbind (fn (op_rename ops)) (\<lambda>f. rbind (f src dst s) (\<lambda>(res, s1). Inr (RenameReply res, s1)))"

fun link_process :: "('s, 'd) fuse_operations \<Rightarrow> LinkRequest \<Rightarrow> ('s, LinkReply) action" where
  "link_process ops (LinkRequest src dst) s =
     rbind (fn (op_link ops)) (\<lambda>f. rbind (f src dst s) (\<lambda>(res, s1). Inr (LinkReply res, s1)))"

fun unlink_process :: "('s, 'd) fuse_operations \<Rightarrow> UnlinkRequest \<Rightarrow> ('s, UnlinkReply) action" where
  "unlink_process ops (UnlinkRequest path) s =
     rbind (fn (op_unlink ops)) (\<lambda>f. rbind (f path s) (\<lambda>(res, s1). Inr (UnlinkReply res, s1)))"

fun rmdir_process :: "('s, 'd) fuse_operations \<Rightarrow> RmdirRequest \<Rightarrow> ('s, RmdirReply) action" where
  "rmdir_process ops (RmdirRequest path) s =
     rbind (fn (op_rmdir ops)) (\<lambda>f. rbind (f path s) (\<lambda>(res, s1). Inr (RmdirReply res, s1)))"

fun chmod_process :: "('s, 'd) fuse_operations \<Rightarrow> ChmodRequest \<Rightarrow> ('s, ChmodReply) action" where
  "chmod_process ops (ChmodRequest path mode) s =
     rbind (fn (op_chmod ops)) (\<lambda>f. rbind (f path mode s) (\<lambda>(res, s1). Inr (ChmodReply res, s1)))"

fun chown_process :: "('s, 'd) fuse_operations \<Rightarrow> ChownRequest \<Rightarrow> ('s, ChownReply) action" where
  "chown_process ops (ChownRequest path uid gid) s =
     rbind (fn (op_chown ops)) (\<lambda>f. rbind (f path uid gid s) (\<lambda>(res, s1). Inr (ChownReply res, s1)))"

text \<open>\<^verbatim>\<open>const size_t size = request_.size()\<close>, then back to \<^verbatim>\<open>off_t\<close> at the call.\<close>

fun truncate_process :: "('s, 'd) fuse_operations \<Rightarrow> TruncateRequest \<Rightarrow> ('s, TruncateReply) action" where
  "truncate_process ops (TruncateRequest path sz) s =
     rbind (fn (op_truncate ops)) (\<lambda>f. rbind (f path (off_of_size (size_of_int sz)) s) (\<lambda>(res, s1). Inr (TruncateReply res, s1)))"

fun ftruncate_process :: "('s, 'd) fuse_operations \<Rightarrow> FtruncateRequest \<Rightarrow> ('s, FtruncateReply) action" where
  "ftruncate_process ops (FtruncateRequest path sz info) s =
     rbind (fn (op_ftruncate ops)) (\<lambda>f.
     rbind (with_info info (f path (off_of_size (size_of_int sz))) s) (\<lambda>((res, info1), s1). Inr (FtruncateReply res info1, s1)))"

fun utimens_process :: "('s, 'd) fuse_operations \<Rightarrow> UtimensRequest \<Rightarrow> ('s, UtimensReply) action" where
  "utimens_process ops (UtimensRequest path tim0 tim1) s =
     rbind (fn (op_utimens ops)) (\<lambda>f.
     rbind (f path (fill_struct_timespec tim0 zero_timespec) (fill_struct_timespec tim1 zero_timespec) s)
       (\<lambda>(res, s1). Inr (UtimensReply res, s1)))"

fun create_process :: "('s, 'd) fuse_operations \<Rightarrow> CreateRequest \<Rightarrow> ('s, CreateReply) action" where
  "create_process ops (CreateRequest path mode info) s =
     rbind (fn (op_create ops)) (\<lambda>f.
     rbind (with_info info (f path mode) s) (\<lambda>((res, info1), s1). Inr (CreateReply res info1, s1)))"

fun open_process :: "('s, 'd) fuse_operations \<Rightarrow> OpenRequest \<Rightarrow> ('s, OpenReply) action" where
  "open_process ops (OpenRequest path info) s =
     rbind (fn (op_open ops)) (\<lambda>f.
     rbind (with_info info (f path) s) (\<lambda>((res, info1), s1). Inr (OpenReply res info1, s1)))"

text \<open>
  \<open>read_into\<close> and \<open>write_from\<close> are the bodies that the unary and the streaming procedures have
  in common; a read fills the reply's own buffer, resized to the requested size.
\<close>

fun read_into :: "('s, 'd) fuse_operations \<Rightarrow> ReadRequest \<Rightarrow> bytes \<Rightarrow> ('s, ReadReply) action" where
  "read_into ops (ReadRequest path sz offset info) buf0 s =
     rbind (fn (op_read ops)) (\<lambda>read.
     rbind (with_info info (\<lambda>fi s. rbind (read path (resize buf0 sz) sz offset fi s)
              (\<lambda>((res, buf, fi1), s1). Inr (((res, buf), fi1), s1))) s)
       (\<lambda>(((res, buf), info1), s1). Inr (ReadReply res buf info1, s1)))"

fun write_from :: "('s, 'd) fuse_operations \<Rightarrow> WriteRequest \<Rightarrow> ('s, WriteReply) action" where
  "write_from ops (WriteRequest path sz offset buf info) s =
     rbind (fn (op_write ops)) (\<lambda>write.
     rbind (with_info info (write path buf sz offset) s) (\<lambda>((res, info1), s1). Inr (WriteReply res info1, s1)))"

definition read_process :: "('s, 'd) fuse_operations \<Rightarrow> ReadRequest \<Rightarrow> ('s, ReadReply) action" where
  "read_process ops req = read_into ops req []"

definition write_process :: "('s, 'd) fuse_operations \<Rightarrow> WriteRequest \<Rightarrow> ('s, WriteReply) action" where
  "write_process ops req = write_from ops req"

fun statfs_process :: "('s, 'd) fuse_operations \<Rightarrow> StatfsRequest \<Rightarrow> ('s, StatfsReply) action" where
  "statfs_process ops (StatfsRequest path) s =
     rbind (fn (op_statfs ops)) (\<lambda>statfs.
     rbind (statfs path zero_statvfs s) (\<lambda>((res, stbuf), s1).
       Inr (StatfsReply res (fill_StructStatvfs stbuf default_Statvfs), s1)))"

fun flush_process :: "('s, 'd) fuse_operations \<Rightarrow> FlushRequest \<Rightarrow> ('s, FlushReply) action" where
  "flush_process ops (FlushRequest path info) s =
     rbind (fn (op_flush ops)) (\<lambda>f.
     rbind (with_info info (f path) s) (\<lambda>((res, info1), s1). Inr (FlushReply res info1, s1)))"

fun release_process :: "('s, 'd) fuse_operations \<Rightarrow> ReleaseRequest \<Rightarrow> ('s, ReleaseReply) action" where
  "release_process ops (ReleaseRequest path info) s =
     rbind (fn (op_release ops)) (\<lambda>f.
     rbind (with_info info (f path) s) (\<lambda>((res, info1), s1). Inr (ReleaseReply res info1, s1)))"

fun fsync_process :: "('s, 'd) fuse_operations \<Rightarrow> FsyncRequest \<Rightarrow> ('s, FsyncReply) action" where
  "fsync_process ops (FsyncRequest path isdatasync info) s =
     rbind (fn (op_fsync ops)) (\<lambda>f.
     rbind (with_info info (f path isdatasync) s) (\<lambda>((res, info1), s1). Inr (FsyncReply res info1, s1)))"

fun fallocate_process :: "('s, 'd) fuse_operations \<Rightarrow> FallocateRequest \<Rightarrow> ('s, FallocateReply) action" where
  "fallocate_process ops (FallocateRequest path mode offset len info) s =
     rbind (fn (op_fallocate ops)) (\<lambda>f.
     rbind (with_info info (f path mode offset len) s) (\<lambda>((res, info1), s1). Inr (FallocateReply res info1, s1)))"

fun setxattr_process :: "('s, 'd) fuse_operations \<Rightarrow> SetxattrRequest \<Rightarrow> ('s, SetxattrReply) action" where
  "setxattr_process ops (SetxattrRequest path name sz flags val) s =
     rbind (fn (op_setxattr ops)) (\<lambda>f. rbind (f path name val sz flags s) (\<lambda>(res, s1). Inr (SetxattrReply res, s1)))"

fun getxattr_process :: "('s, 'd) fuse_operations \<Rightarrow> GetxattrRequest \<Rightarrow> ('s, GetxattrReply) action" where
  "getxattr_process ops (GetxattrRequest path name sz) s =
     rbind (fn (op_getxattr ops)) (\<lambda>getxattr.
     rbind (getxattr path name (resize [] sz) sz s) (\<lambda>((res, val), s1). Inr (GetxattrReply res val, s1)))"

fun listxattr_process :: "('s, 'd) fuse_operations \<Rightarrow> ListxattrRequest \<Rightarrow> ('s, ListxattrReply) action" where
  "listxattr_process ops (ListxattrRequest path sz) s =
     rbind (fn (op_listxattr ops)) (\<lambda>listxattr.
     rbind (listxattr path (resize [] sz) sz s) (\<lambda>((res, lst), s1). Inr (ListxattrReply res lst, s1)))"

fun removexattr_process :: "('s, 'd) fuse_operations \<Rightarrow> RemovexattrRequest \<Rightarrow> ('s, RemovexattrReply) action" where
  "removexattr_process ops (RemovexattrRequest path name) s =
     rbind (fn (op_removexattr ops)) (\<lambda>f. rbind (f path name s) (\<lambda>(res, s1). Inr (RemovexattrReply res, s1)))"

section \<open>Life cycle of a unary call\<close>

text \<open>
  One pool per procedure and completion queue. A live call object waits for one completion:
  of its registration (\<open>PROCESS\<close>) or of its answer (\<open>FINISHED\<close>). \<open>up_log\<close> records, in order,
  which object answered which request how. \<^verbatim>\<open>proceed\<close> ignores its argument \<^verbatim>\<open>ok\<close>.
\<close>

datatype unary_status = PROCESS | FINISHED

record ('q, 'r) unary_pool =
  up_live :: "(nat, unary_status) fmap"
  up_next :: nat
  up_log :: "(nat \<times> 'q \<times> 'r) list"

definition unary_new :: "('q, 'r) unary_pool \<Rightarrow> ('q, 'r) unary_pool" where
  "unary_new pool = pool\<lparr>up_live := fmupd (up_next pool) PROCESS (up_live pool),
                         up_next := Suc (up_next pool)\<rparr>"

definition unary_proceed :: "('q \<Rightarrow> ('s, 'r) action) \<Rightarrow> nat \<Rightarrow> bool \<Rightarrow> 'q
    \<Rightarrow> ('q, 'r) unary_pool \<times> 's \<Rightarrow> ub + ('q, 'r) unary_pool \<times> 's" where
  "unary_proceed body this ok request = (\<lambda>(pool, s).
     case fmlookup (up_live pool) this of
       None \<Rightarrow> Inl Dangling
     | Some PROCESS \<Rightarrow>
         (let pool1 = unary_new pool
          in rbind (body request s) (\<lambda>(reply, s1).
             Inr (pool1\<lparr>up_live := fmupd this FINISHED (up_live pool1),
                        up_log := up_log pool1 @ [(this, request, reply)]\<rparr>, s1)))
     | Some FINISHED \<Rightarrow> Inr (pool\<lparr>up_live := fmdrop this (up_live pool)\<rparr>, s))"

text \<open>
  The loop \<^verbatim>\<open>for (int i = 0; i < 20; i++) new ..._data\<close>, and the completions the pollers then
  hand to \<^verbatim>\<open>proceed\<close>: each concerns an object with an outstanding operation.
\<close>

definition unary_start :: "nat \<Rightarrow> ('q, 'r) unary_pool" where
  "unary_start n = (unary_new ^^ n) \<lparr>up_live = fmempty, up_next = 0, up_log = []\<rparr>"

inductive unary_reachable :: "('q \<Rightarrow> ('s, 'r) action) \<Rightarrow> nat \<Rightarrow> 's \<Rightarrow> ('q, 'r) unary_pool \<times> 's \<Rightarrow> bool"
  for body n s0 where
  start: "unary_reachable body n s0 (unary_start n, s0)"
| event: "unary_reachable body n s0 c \<Longrightarrow> tag \<in> fmdom' (up_live (fst c)) \<Longrightarrow>
    unary_proceed body tag ok request c = Inr c' \<Longrightarrow> unary_reachable body n s0 c'"

section \<open>Streaming procedures\<close>

datatype stream_status = S_CREATE | S_READ | S_WRITE | S_FINISHED

text \<open>What a \<^verbatim>\<open>proceed\<close> asks of the stream before it returns.\<close>

datatype 'r stream_out = Issue_read | Issue_write 'r | Issue_finish | Issue_finish_with 'r | Issue_none

text \<open>\<^verbatim>\<open>reply_\<close> lives as long as the stream: a read resizes the buffer the last one left.\<close>

record stream_read_data =
  srd_status :: stream_status
  srd_reply_buf :: bytes

record stream_write_data =
  swd_status :: stream_status

fun reply_buf :: "ReadReply \<Rightarrow> bytes" where
  "reply_buf (ReadReply res buf info) = buf"

text \<open>
  The result is the object, or none once it has deleted itself, the number of new call
  objects, and the request made of the stream.
\<close>

definition stream_read_proceed :: "('s, 'd) fuse_operations \<Rightarrow> bool \<Rightarrow> ReadRequest \<Rightarrow> stream_read_data
    \<Rightarrow> ('s, stream_read_data option \<times> nat \<times> ReadReply stream_out) action" where
  "stream_read_proceed ops ok request this s =
     (case srd_status this of
        S_CREATE \<Rightarrow> Inr ((Some (this\<lparr>srd_status := S_READ\<rparr>), 1, Issue_read), s)
      | S_READ \<Rightarrow>
          if ok then rbind (read_into ops request (srd_reply_buf this) s) (\<lambda>(reply, s1).
            Inr ((Some (this\<lparr>srd_status := S_WRITE, srd_reply_buf := reply_buf reply\<rparr>), 0, Issue_write reply), s1))
          else Inr ((Some (this\<lparr>srd_status := S_FINISHED\<rparr>), 0, Issue_finish), s)
      | S_WRITE \<Rightarrow> Inr ((Some (this\<lparr>srd_status := S_READ\<rparr>), 0, Issue_read), s)
      | S_FINISHED \<Rightarrow> Inr ((None, 0, Issue_none), s))"

definition stream_write_proceed :: "('s, 'd) fuse_operations \<Rightarrow> bool \<Rightarrow> WriteRequest \<Rightarrow> stream_write_data
    \<Rightarrow> ('s, stream_write_data option \<times> nat \<times> WriteReply stream_out) action" where
  "stream_write_proceed ops ok request this s =
     (case swd_status this of
        S_CREATE \<Rightarrow> Inr ((Some (this\<lparr>swd_status := S_READ\<rparr>), 1, Issue_read), s)
      | S_READ \<Rightarrow>
          if ok then rbind (write_from ops request s) (\<lambda>(reply, s1).
            Inr ((Some (this\<lparr>swd_status := S_WRITE\<rparr>), 0, Issue_write reply), s1))
          else Inr ((Some (this\<lparr>swd_status := S_FINISHED\<rparr>), 0, Issue_finish), s)
      | S_WRITE \<Rightarrow> Inr ((Some (this\<lparr>swd_status := S_READ\<rparr>), 0, Issue_read), s)
      | S_FINISHED \<Rightarrow> Inr ((None, 0, Issue_none), s))"

text \<open>
  The client-streaming procedure answers once, when the client has closed its side, with a
  default \<^verbatim>\<open>WriteReply\<close>. Its status enumeration has no \<^verbatim>\<open>WRITE\<close>.
\<close>

definition default_WriteReply :: WriteReply where
  "default_WriteReply = WriteReply 0 default_FuseFileInfo"

definition ac_stream_write_proceed :: "('s, 'd) fuse_operations \<Rightarrow> bool \<Rightarrow> WriteRequest \<Rightarrow> stream_write_data
    \<Rightarrow> ('s, stream_write_data option \<times> nat \<times> WriteReply stream_out) action" where
  "ac_stream_write_proceed ops ok request this s =
     (case swd_status this of
        S_CREATE \<Rightarrow> Inr ((Some (this\<lparr>swd_status := S_READ\<rparr>), 1, Issue_read), s)
      | S_READ \<Rightarrow>
          if ok then rbind (write_from ops request s) (\<lambda>(reply, s1).
            Inr ((Some this, 0, Issue_read), s1))
          else Inr ((Some (this\<lparr>swd_status := S_FINISHED\<rparr>), 0, Issue_finish_with default_WriteReply), s)
      | S_WRITE \<Rightarrow> Inl Assertion
      | S_FINISHED \<Rightarrow> Inr ((None, 0, Issue_none), s))"

text \<open>The completions of one stream, in order: \<^verbatim>\<open>ok\<close> and the message a read delivered.\<close>

fun drive :: "(bool \<Rightarrow> 'q \<Rightarrow> 'o \<Rightarrow> ('s, 'o option \<times> nat \<times> 'r stream_out) action) \<Rightarrow> (bool \<times> 'q) list
    \<Rightarrow> 'o option \<Rightarrow> ('s, 'o option \<times> nat \<times> 'r stream_out list) action" where
  "drive proceed [] this s = Inr ((this, 0, []), s)"
| "drive proceed (e # es) None s = Inl Dangling"
| "drive proceed ((ok, q) # es) (Some this) s =
     rbind (proceed ok q this s) (\<lambda>((this1, new1, out), s1).
     rbind (drive proceed es this1 s1) (\<lambda>((this2, new2, outs), s2).
       Inr ((this2, new1 + new2, out # outs), s2)))"

section \<open>Set-up\<close>

datatype rpc_method = RPC_Getattr | RPC_Fgetattr | RPC_Access | RPC_Readlink | RPC_Opendir
  | RPC_Readdir | RPC_Releasedir | RPC_Mknod | RPC_Mkdir | RPC_Symlink | RPC_Unlink | RPC_Rmdir
  | RPC_Rename | RPC_Link | RPC_Chmod | RPC_Chown | RPC_Truncate | RPC_Ftruncate | RPC_Utimens
  | RPC_Create | RPC_Open | RPC_Read | RPC_Write | RPC_Statfs | RPC_Flush | RPC_Release
  | RPC_Fsync | RPC_Fallocate | RPC_Setxattr | RPC_Getxattr | RPC_Listxattr | RPC_Removexattr
  | RPC_StreamRead | RPC_StreamWrite | RPC_ACStreamWrite | RPC_GetattrCompound

record server_config =
  sv_server_address :: string
  sv_n_queues :: nat
  sv_n_pollers_per_queue :: nat

definition server_new :: "server_config \<Rightarrow> server_config" where
  "server_new config = config\<lparr>sv_n_queues := max 1 (sv_n_queues config),
     sv_n_pollers_per_queue := max 1 (sv_n_pollers_per_queue config)\<rparr>"

text \<open>One round of the registration loop, in source order.\<close>

definition registered_methods :: "rpc_method list" where
  "registered_methods = [RPC_Getattr, RPC_Fgetattr, RPC_Access, RPC_Readlink, RPC_Opendir,
     RPC_Readdir, RPC_Releasedir, RPC_Mknod, RPC_Mkdir, RPC_Symlink, RPC_Unlink, RPC_Rmdir,
     RPC_Rename, RPC_Link, RPC_Chmod, RPC_Chown, RPC_Truncate, RPC_Ftruncate, RPC_Utimens,
     RPC_Create, RPC_Open, RPC_Read, RPC_Write, RPC_Statfs, RPC_Flush, RPC_Release,
     RPC_Fsync, RPC_Fallocate, RPC_Setxattr, RPC_Getxattr, RPC_Listxattr, RPC_Removexattr,
     RPC_StreamRead, RPC_StreamWrite, RPC_ACStreamWrite]"

text \<open>
  \<open>sr_cqs\<close>: per completion queue, the call objects registered on it; \<open>sr_pollers\<close>: the queue each
  poller thread serves. \<^verbatim>\<open>init\<close> is called only when it is set, after the pollers have started.
\<close>

record running_server =
  sr_cqs :: "rpc_method list list"
  sr_pollers :: "nat list"

definition server_run :: "server_config \<Rightarrow> ('s, 'd) fuse_operations \<Rightarrow> ('s, running_server) action" where
  "server_run config ops s =
     (let cqs = replicate (sv_n_queues config) (concat (replicate 20 registered_methods));
          pollers = concat (map (\<lambda>cq. replicate (sv_n_pollers_per_queue config) cq) [0..<length cqs]);
          srv = \<lparr>sr_cqs = cqs, sr_pollers = pollers\<rparr>
      in case op_init ops of
           None \<Rightarrow> Inr (srv, s)
         | Some init \<Rightarrow> rbind (init s) (\<lambda>(_, s1). Inr (srv, s1)))"

section \<open>Sequential execution\<close>

text \<open>The reference: one request after the other, collecting the replies.\<close>

fun run_all :: "('q \<Rightarrow> ('s, 'r) action) \<Rightarrow> 'q list \<Rightarrow> ('s, 'r list) action" where
  "run_all f [] s = Inr ([], s)"
| "run_all f (q # qs) s = rbind (f q s) (\<lambda>(r, s1). rbind (run_all f qs s1) (\<lambda>(rs, s2). Inr (r # rs, s2)))"

lemma run_all_snoc:
  "run_all f qs s = Inr (rs, s1) \<Longrightarrow> f q s1 = Inr (r, s2) \<Longrightarrow> run_all f (qs @ [q]) s = Inr (rs @ [r], s2)"
  by (induction qs arbitrary: s rs) (auto simp: rbind_eq_Inr_conv)

lemma write_process_eq: "write_process ops = write_from ops"
  by (simp add: fun_eq_iff write_process_def)

section \<open>Unary calls\<close>

definition unary_inv :: "('q \<Rightarrow> ('s, 'r) action) \<Rightarrow> nat \<Rightarrow> 's \<Rightarrow> ('q, 'r) unary_pool \<times> 's \<Rightarrow> bool" where
  "unary_inv body n s0 c \<longleftrightarrow>
     card {i. fmlookup (up_live (fst c)) i = Some PROCESS} = n \<and>
     (\<forall>i \<in> fmdom' (up_live (fst c)). i < up_next (fst c)) \<and>
     (\<forall>e \<in> set (up_log (fst c)). fst e < up_next (fst c) \<and>
        fmlookup (up_live (fst c)) (fst e) \<noteq> Some PROCESS) \<and>
     distinct (map fst (up_log (fst c))) \<and>
     (\<forall>i. fmlookup (up_live (fst c)) i = Some FINISHED \<longrightarrow> i \<in> fst ` set (up_log (fst c))) \<and>
     run_all body (map (fst \<circ> snd) (up_log (fst c))) s0 = Inr (map (snd \<circ> snd) (up_log (fst c)), snd c)"

lemma listeners_finite: "finite {i. fmlookup m i = Some v}"
  by (rule finite_subset [of _ "fmdom' m"]) (auto simp: fmap_simps)

lemma unary_new_listeners:
  assumes "\<forall>i \<in> fmdom' (up_live pool). i < up_next pool"
  shows "{i. fmlookup (up_live (unary_new pool)) i = Some PROCESS} =
    insert (up_next pool) {i. fmlookup (up_live pool) i = Some PROCESS} \<and>
    up_next pool \<notin> {i. fmlookup (up_live pool) i = Some PROCESS}"
  using assms by (auto simp: unary_new_def fmap_simps)

definition unary_idle :: "nat \<Rightarrow> ('q, 'r) unary_pool \<Rightarrow> bool" where
  "unary_idle n pool \<longleftrightarrow> card {i. fmlookup (up_live pool) i = Some PROCESS} = n \<and>
     (\<forall>i \<in> fmdom' (up_live pool). i < up_next pool) \<and> up_log pool = [] \<and>
     (\<forall>i. fmlookup (up_live pool) i \<noteq> Some FINISHED)"

lemma unary_new_idle: "unary_idle n pool \<Longrightarrow> unary_idle (Suc n) (unary_new pool)"
  unfolding unary_idle_def using unary_new_listeners [of pool]
  by (simp add: listeners_finite) (auto simp: unary_new_def fmap_simps less_Suc_eq)

lemma unary_start_idle: "unary_idle n (unary_start n)"
  by (induction n) (simp_all add: unary_start_def unary_new_idle, simp add: unary_idle_def fmap_simps)

lemma unary_start_inv: "unary_inv body n s0 (unary_start n, s0)"
  using unary_start_idle [of n] by (auto simp: unary_inv_def unary_idle_def)

lemma unary_answer_inv:
  assumes inv: "unary_inv body n s0 (pool, s)" and tag: "fmlookup (up_live pool) tag = Some PROCESS"
    and body: "body q s = Inr (r, s1)"
  shows "unary_inv body n s0 ((unary_new pool)\<lparr>up_live := fmupd tag FINISHED (up_live (unary_new pool)),
                        up_log := up_log (unary_new pool) @ [(tag, q, r)]\<rparr>, s1)"
proof -
  let ?P = "{i. fmlookup (up_live pool) i = Some PROCESS}"
  have lt: "\<forall>i \<in> fmdom' (up_live pool). i < up_next pool" and cP: "card ?P = n" and tP: "tag \<in> ?P"
    using inv tag by (auto simp: unary_inv_def)
  then have ne: "tag \<noteq> up_next pool" using tag by (force simp: fmap_simps)
  have "{i. fmlookup (fmupd tag FINISHED (up_live (unary_new pool))) i = Some PROCESS} =
      insert (up_next pool) (?P - {tag})"
    using ne by (auto simp: unary_new_def)
  moreover have "0 < card ?P"
    using tP by (auto simp: card_gt_0_iff listeners_finite)
  then have "card (insert (up_next pool) (?P - {tag})) = n"
    using cP tP unary_new_listeners [OF lt] by (simp add: listeners_finite)
  moreover have "run_all body (map (fst \<circ> snd) (up_log pool) @ [q]) s0 =
      Inr (map (snd \<circ> snd) (up_log pool) @ [r], s1)"
    using inv body by (auto simp: unary_inv_def intro!: run_all_snoc)
  moreover have "tag \<notin> fst ` set (up_log pool)"
    using inv tag by (auto simp: unary_inv_def)
  moreover have "tag < up_next pool"
    using lt tag by (auto simp: fmap_simps)
  ultimately show ?thesis
    using inv unfolding unary_inv_def
    by (auto simp: unary_new_def fmap_simps less_Suc_eq)
qed

lemma unary_delete_inv:
  assumes "unary_inv body n s0 (pool, s)" "fmlookup (up_live pool) tag = Some FINISHED"
  shows "unary_inv body n s0 (pool\<lparr>up_live := fmdrop tag (up_live pool)\<rparr>, s)"
proof -
  have "{i. fmlookup (fmdrop tag (up_live pool)) i = Some PROCESS} =
      {i. fmlookup (up_live pool) i = Some PROCESS}"
    using assms(2) by auto
  with assms show ?thesis by (auto simp: unary_inv_def fmap_simps)
qed

lemma unary_reachable_inv: "unary_reachable body n s0 c \<Longrightarrow> unary_inv body n s0 c"
proof (induction rule: unary_reachable.induct)
  case (event c tag ok request c')
  obtain pool s where c: "c = (pool, s)" by (cases c)
  from event show ?case
    unfolding c unary_proceed_def
    by (auto simp: rbind_eq_Inr_conv fmap_simps Let_def split: option.splits unary_status.splits
        intro: unary_answer_inv unary_delete_inv)
qed (rule unary_start_inv)

section \<open>Streams\<close>

text \<open>
  The completions of a whole stream: the call arrives, every message is read and its answer
  written, the client closes its side, the status is sent. \<open>d\<close> stands for the request buffer
  at completions that deliver no message.
\<close>

definition bidi_events :: "'q \<Rightarrow> 'q list \<Rightarrow> (bool \<times> 'q) list" where
  "bidi_events d qs = (True, d) # concat (map (\<lambda>q. [(True, q), (True, d)]) qs) @ [(False, d), (True, d)]"

definition bidi_outs :: "'r list \<Rightarrow> 'r stream_out list" where
  "bidi_outs rs = Issue_read # concat (map (\<lambda>r. [Issue_write r, Issue_read]) rs) @ [Issue_finish, Issue_none]"

fun serve_all :: "('q \<Rightarrow> 'o \<Rightarrow> ('s, 'r) action) \<Rightarrow> ('r \<Rightarrow> 'o \<Rightarrow> 'o) \<Rightarrow> 'q list \<Rightarrow> 'o \<Rightarrow> ('s, 'r list) action" where
  "serve_all serve upd [] this s = Inr ([], s)"
| "serve_all serve upd (q # qs) this s =
     rbind (serve q this s) (\<lambda>(r, s1).
     rbind (serve_all serve upd qs (upd r this) s1) (\<lambda>(rs, s2). Inr (r # rs, s2)))"

lemma serve_all_stateless: "serve_all (\<lambda>q _. f q) upd qs this s = run_all f qs s"
  by (induction qs arbitrary: this s) simp_all

text \<open>The contract of a bidirectional call object, case by case of its status.\<close>

locale bidi_call =
  fixes proceed :: "bool \<Rightarrow> 'q \<Rightarrow> 'o \<Rightarrow> ('s, 'o option \<times> nat \<times> 'r stream_out) action"
    and status :: "'o \<Rightarrow> stream_status"
    and serve :: "'q \<Rightarrow> 'o \<Rightarrow> ('s, 'r) action"
    and rearm :: "'o \<Rightarrow> 'o"
    and answered :: "'r \<Rightarrow> 'o \<Rightarrow> 'o"
  assumes create: "status obj = S_CREATE \<Longrightarrow> proceed ok q obj s = Inr ((Some (rearm obj), 1, Issue_read), s)"
    and message: "status obj = S_READ \<Longrightarrow> proceed True q obj s =
      rbind (serve q obj s) (\<lambda>(r, s1). Inr ((Some (answered r obj), 0, Issue_write r), s1))"
    and closed: "status obj = S_READ \<Longrightarrow>
      \<exists>obj'. status obj' = S_FINISHED \<and> proceed False q obj s = Inr ((Some obj', 0, Issue_finish), s)"
    and written: "status obj = S_WRITE \<Longrightarrow> proceed ok q obj s = Inr ((Some (rearm obj), 0, Issue_read), s)"
    and finished: "status obj = S_FINISHED \<Longrightarrow> proceed ok q obj s = Inr ((None, 0, Issue_none), s)"
    and status_rearm [simp]: "status (rearm obj) = S_READ"
    and status_answered [simp]: "status (answered r obj) = S_WRITE"
begin

lemma drive_messages:
  "status obj = S_READ \<Longrightarrow>
   drive proceed (concat (map (\<lambda>q. [(True, q), (True, d)]) qs) @ [(False, d), (True, d)]) (Some obj) s =
   rbind (serve_all serve (\<lambda>r obj. rearm (answered r obj)) qs obj s) (\<lambda>(rs, s1).
     Inr ((None, 0, concat (map (\<lambda>r. [Issue_write r, Issue_read]) rs) @ [Issue_finish, Issue_none]), s1))"
proof (induction qs arbitrary: obj s)
  case Nil
  obtain obj' where "status obj' = S_FINISHED" "proceed False d obj s = Inr ((Some obj', 0, Issue_finish), s)"
    using closed [OF Nil] by blast
  then show ?case by (simp add: finished)
next
  case (Cons q qs)
  show ?case
    by (cases "serve q obj s") (auto simp: message [OF Cons.prems] written Cons.IH rbind_assoc split_beta
        intro!: rbind_cong)
qed

lemma drive_stream:
  "status obj = S_CREATE \<Longrightarrow>
   drive proceed (bidi_events d qs) (Some obj) s =
   rbind (serve_all serve (\<lambda>r obj. rearm (answered r obj)) qs (rearm obj) s)
     (\<lambda>(rs, s1). Inr ((None, 1, bidi_outs rs), s1))"
  by (auto simp: bidi_events_def bidi_outs_def create drive_messages rbind_assoc split_beta intro!: rbind_cong)

end

interpretation sread: bidi_call "stream_read_proceed ops" srd_status
  "\<lambda>q obj. read_into ops q (srd_reply_buf obj)" "\<lambda>obj. obj\<lparr>srd_status := S_READ\<rparr>"
  "\<lambda>r obj. obj\<lparr>srd_status := S_WRITE, srd_reply_buf := reply_buf r\<rparr>" for ops
  by unfold_locales (simp_all add: stream_read_proceed_def)

interpretation swrite: bidi_call "stream_write_proceed ops" swd_status
  "\<lambda>q _. write_from ops q" "\<lambda>obj. obj\<lparr>swd_status := S_READ\<rparr>"
  "\<lambda>r obj. obj\<lparr>swd_status := S_WRITE\<rparr>" for ops
  by unfold_locales (simp_all add: stream_write_proceed_def)

text \<open>
  What a read operation owes its caller: it fills a prefix of the buffer as long as its
  result and looks at nothing of the old contents.
\<close>

definition reads_prefix :: "'s read_op \<Rightarrow> ('s \<Rightarrow> bool) \<Rightarrow> bool" where
  "reads_prefix rd I \<longleftrightarrow>
     (\<forall>path n off fi s. I s \<longrightarrow>
        (\<exists>res data fi' s'. I s' \<and> length data = nat res \<and> nat res \<le> n \<and>
           (\<forall>buf. length buf = n \<longrightarrow>
              rd path buf n off fi s = Inr ((res, data @ drop (nat res) buf, fi'), s'))))"

fun same_read :: "ReadReply \<Rightarrow> ReadReply \<Rightarrow> bool" where
  "same_read (ReadReply res buf info) (ReadReply res' buf' info') \<longleftrightarrow>
     res = res' \<and> info = info' \<and> take (nat res) buf = take (nat res') buf' \<and> length buf = length buf'"

lemma resize_length [simp]: "length (resize buf n) = n"
  by (simp add: resize_def)

lemma read_into_prefix:
  assumes "op_read ops = Some rd" "reads_prefix rd I" "I s"
  obtains res data p s' where "I s'" "length data = nat res" "nat res \<le> n"
    "\<And>buf. length buf = n \<Longrightarrow> rd path buf n off (Some (fill_fuse_file_info info zero_file_info)) s =
       Inr ((res, data @ drop (nat res) buf, p), s')"
    "\<And>b. read_into ops (ReadRequest path n off info) b s =
       Inr (ReadReply res (data @ drop (nat res) (resize b n))
         (fill_StructFuseFileInfo (pointee (fill_fuse_file_info info zero_file_info) p) default_FuseFileInfo), s')"
proof -
  let ?fi = "Some (fill_fuse_file_info info zero_file_info)"
  from assms(2,3) have "\<exists>res data p s'. I s' \<and> length data = nat res \<and> nat res \<le> n \<and>
      (\<forall>b. length b = n \<longrightarrow> rd path b n off ?fi s = Inr ((res, data @ drop (nat res) b, p), s'))"
    by (simp add: reads_prefix_def)
  then obtain res data p s' where rd: "I s'" "length data = nat res" "nat res \<le> n"
    "\<And>b. length b = n \<Longrightarrow> rd path b n off ?fi s = Inr ((res, data @ drop (nat res) b, p), s')"
    by blast
  moreover have "read_into ops (ReadRequest path n off info) b s =
      Inr (ReadReply res (data @ drop (nat res) (resize b n))
        (fill_StructFuseFileInfo (pointee (fill_fuse_file_info info zero_file_info) p) default_FuseFileInfo), s')" for b
    using rd(4) [of "resize b n"] by (simp add: with_info_def assms(1))
  ultimately show ?thesis by (rule that)
qed

lemma read_into_blind:
  assumes "op_read ops = Some rd" "reads_prefix rd I" "I s"
  shows "\<exists>r r' s'. read_into ops q buf s = Inr (r, s') \<and> read_into ops q buf' s = Inr (r', s') \<and>
    same_read r r' \<and> I s'"
proof (cases q)
  case (ReadRequest path n off info)
  show ?thesis
    by (rule read_into_prefix [OF assms, of n path off info])
       (simp add: ReadRequest)
qed

lemma serve_all_blind:
  assumes "op_read ops = Some rd" "reads_prefix rd I" "I s"
  shows "\<exists>rs rs' s'. serve_all (\<lambda>q obj. read_into ops q (srd_reply_buf obj)) upd qs obj s = Inr (rs, s') \<and>
    run_all (read_process ops) qs s = Inr (rs', s') \<and> list_all2 same_read rs rs'"
  using assms(3)
proof (induction qs arbitrary: obj s)
  case (Cons q qs)
  obtain r r' s1 where r: "read_into ops q (srd_reply_buf obj) s = Inr (r, s1)"
    "read_into ops q [] s = Inr (r', s1)" "same_read r r'" "I s1"
    using read_into_blind [OF assms(1,2) Cons.prems] by metis
  obtain rs rs' s2 where "serve_all (\<lambda>q obj. read_into ops q (srd_reply_buf obj)) upd qs (upd r obj) s1 = Inr (rs, s2)"
    "run_all (read_process ops) qs s1 = Inr (rs', s2)" "list_all2 same_read rs rs'"
    using Cons.IH [OF r(4)] by metis
  with r show ?case by (simp add: read_process_def [of ops q])
qed simp

definition ac_events :: "'q \<Rightarrow> 'q list \<Rightarrow> (bool \<times> 'q) list" where
  "ac_events d qs = (True, d) # map (\<lambda>q. (True, q)) qs @ [(False, d), (True, d)]"

lemma ac_drive_messages:
  "swd_status obj = S_READ \<Longrightarrow>
   drive (ac_stream_write_proceed ops) (map (\<lambda>q. (True, q)) qs @ [(False, d), (True, d)]) (Some obj) s =
   rbind (run_all (write_process ops) qs s) (\<lambda>(rs, s1).
     Inr ((None, 0, map (\<lambda>_. Issue_read) qs @ [Issue_finish_with default_WriteReply, Issue_none]), s1))"
proof (induction qs arbitrary: s)
  case (Cons q qs)
  show ?case
    using Cons by (auto simp: ac_stream_write_proceed_def write_process_eq rbind_assoc split_beta intro!: rbind_cong)
qed (simp add: ac_stream_write_proceed_def)

section \<open>Counting listeners and pollers\<close>

lemma count_list_concat_replicate: "count_list (concat (replicate n xs)) x = n * count_list xs x"
  by (induction n) simp_all

lemma count_list_replicate: "count_list (replicate n x) y = (if x = y then n else 0)"
  by (induction n) auto

lemma count_list_pollers:
  "count_list (concat (map (replicate n) [0..<k])) cq = (if cq < k then n else 0)"
  by (induction k) (auto simp: count_list_replicate)

section \<open>Properties\<close>

text \<open>
  C9. The unary part of the server, for every procedure and every order in which completions
  arrive: the number of objects waiting for a new call stays what it was at start-up, so a
  listener is never missing; no object answers twice; and the operations have been applied
  exactly as if the answered requests had been executed one after the other, each once, each
  answer being the one of that execution.
\<close>

theorem unary_calls_exactly_once:
  assumes "unary_reachable body n s0 (pool, s)"
  shows "card {i. fmlookup (up_live pool) i = Some PROCESS} = n \<and>
    distinct (map fst (up_log pool)) \<and>
    run_all body (map (fst \<circ> snd) (up_log pool)) s0 = Inr (map (snd \<circ> snd) (up_log pool), s)"
  using unary_reachable_inv [OF assms] by (simp add: unary_inv_def)

definition counting_access :: "(nat, unit) fuse_operations" where
  "counting_access = null_operations\<lparr>op_access := Some (\<lambda>path msk n. Inr (0, Suc n))\<rparr>"

theorem unary_calls_exactly_once_witness:
  "let pool = \<lparr>up_live = fmupd 0 FINISHED (fmupd 1 PROCESS (fmupd 0 PROCESS fmempty)), up_next = 2,
               up_log = [(0, AccessRequest ''/a'' 4, AccessReply 0)]\<rparr>
   in unary_reachable (access_process counting_access) 1 0 (pool, 1) \<and>
      card {i. fmlookup (up_live pool) i = Some PROCESS} = 1"
proof -
  let ?pool = "\<lparr>up_live = fmupd 0 FINISHED (fmupd 1 PROCESS (fmupd 0 PROCESS fmempty)), up_next = 2,
               up_log = [(0, AccessRequest ''/a'' 4, AccessReply 0)]\<rparr>"
  have "unary_reachable (access_process counting_access) 1 0 (?pool, 1)"
    by (rule unary_reachable.event [OF unary_reachable.start,
            where tag = 0 and ok = True and request = "AccessRequest ''/a'' 4"])
       (simp_all add: unary_start_def unary_new_def unary_proceed_def counting_access_def
          null_operations_def fmap_simps)
  then show ?thesis
    using unary_calls_exactly_once [of "access_process counting_access" 1 0 ?pool 1] by (simp add: Let_def)
qed

text \<open>An event never finds its object deleted, and fails only if the operation itself does.\<close>

lemma unary_event_defined:
  assumes "tag \<in> fmdom' (up_live pool)" "body q s = Inr (r, s1)"
  shows "\<exists>c'. unary_proceed body tag ok q (pool, s) = Inr c'"
  using assms by (auto simp: unary_proceed_def fmap_simps Let_def split: unary_status.splits)

text \<open>
  C31. A write stream is equivalent to its messages sent one by one: whatever the requests, the
  call object answers each with what the unary procedure answers, in order, leaves the file
  system in the same state, registers one successor and deletes itself when the client closes
  the stream.
\<close>

theorem stream_write_is_sequential:
  "drive (stream_write_proceed ops) (bidi_events d qs) (Some \<lparr>swd_status = S_CREATE\<rparr>) s =
   rbind (run_all (write_process ops) qs s) (\<lambda>(rs, s1). Inr ((None, 1, bidi_outs rs), s1))"
  by (simp add: swrite.drive_stream serve_all_stateless write_process_eq)

text \<open>
  A read stream is equivalent to its messages sent one by one although it reuses one reply:
  over an operation that fills a prefix of its buffer, every answer has the result, the file
  information and the bytes read that the unary procedure gives; only bytes beyond the result,
  which the client never looks at, may be left over from the previous answer.
\<close>

theorem stream_read_is_sequential:
  assumes "op_read ops = Some rd" "reads_prefix rd I" "I s"
  shows "\<exists>rs rs' s'.
    drive (stream_read_proceed ops) (bidi_events d qs) (Some \<lparr>srd_status = S_CREATE, srd_reply_buf = []\<rparr>) s =
      Inr ((None, 1, bidi_outs rs), s') \<and>
    run_all (read_process ops) qs s = Inr (rs', s') \<and> list_all2 same_read rs rs'"
proof -
  let ?obj = "\<lparr>srd_status = S_CREATE, srd_reply_buf = []\<rparr>"
  obtain rs rs' s' where "serve_all (\<lambda>q obj. read_into ops q (srd_reply_buf obj))
      (\<lambda>r obj. obj\<lparr>srd_status := S_WRITE, srd_reply_buf := reply_buf r\<rparr>\<lparr>srd_status := S_READ\<rparr>) qs
      (?obj\<lparr>srd_status := S_READ\<rparr>) s = Inr (rs, s')"
    "run_all (read_process ops) qs s = Inr (rs', s')" "list_all2 same_read rs rs'"
    using serve_all_blind [OF assms] by metis
  then show ?thesis by (auto simp: sread.drive_stream)
qed

lemma const_read_reads_prefix: "reads_prefix (const_read F) I"
  by (auto simp: reads_prefix_def const_read_def intro!: exI)

definition hello_ops :: "(unit, unit) fuse_operations" where
  "hello_ops = null_operations\<lparr>op_read := Some (const_read ''hello'')\<rparr>"

theorem stream_read_is_sequential_witness:
  "\<exists>rs rs' s'.
    drive (stream_read_proceed hello_ops)
      (bidi_events (ReadRequest [] 0 0 default_FuseFileInfo)
         [ReadRequest ''/f'' 4 0 default_FuseFileInfo, ReadRequest ''/f'' 4 3 default_FuseFileInfo])
      (Some \<lparr>srd_status = S_CREATE, srd_reply_buf = []\<rparr>) () = Inr ((None, 1, bidi_outs rs), s') \<and>
    run_all (read_process hello_ops)
      [ReadRequest ''/f'' 4 0 default_FuseFileInfo, ReadRequest ''/f'' 4 3 default_FuseFileInfo] () = Inr (rs', s') \<and>
    list_all2 same_read rs rs'"
  by (rule stream_read_is_sequential [where rd = "const_read ''hello''" and I = "\<lambda>_. True"])
     (simp_all add: const_read_reads_prefix hello_ops_def)

text \<open>
  The asynchronous write stream applies the client's writes in order, each once, and then
  answers with a default reply: the client sees the result 0 whether or not the writes
  succeeded.
\<close>

theorem ac_stream_write_applies_in_order:
  "drive (ac_stream_write_proceed ops) (ac_events d qs) (Some \<lparr>swd_status = S_CREATE\<rparr>) s =
   rbind (run_all (write_process ops) qs s) (\<lambda>(rs, s1).
     Inr ((None, 1, Issue_read # map (\<lambda>_. Issue_read) qs @ [Issue_finish_with default_WriteReply, Issue_none]), s1))"
proof -
  have "ac_stream_write_proceed ops True d \<lparr>swd_status = S_CREATE\<rparr> s =
      Inr ((Some \<lparr>swd_status = S_READ\<rparr>, 1, Issue_read), s)"
    by (simp add: ac_stream_write_proceed_def)
  then show ?thesis
    by (auto simp: ac_events_def ac_drive_messages rbind_assoc split_beta intro!: rbind_cong)
qed

text \<open>
  After \<^verbatim>\<open>server::run\<close>, whatever sizes were configured (0 included), there is at least one
  completion queue, every queue has the configured number of pollers and at least one, and
  on every queue every procedure of the service except \<^verbatim>\<open>GetattrCompound\<close>, which no class
  implements, has exactly twenty call objects waiting.
\<close>

theorem server_run_serves_every_method:
  assumes "server_run (server_new config) ops s = Inr (srv, s')"
  shows "length (sr_cqs srv) = max 1 (sv_n_queues config) \<and>
    (\<forall>cq < length (sr_cqs srv). count_list (sr_pollers srv) cq = max 1 (sv_n_pollers_per_queue config)) \<and>
    (\<forall>cq \<in> set (sr_cqs srv). \<forall>m. count_list cq m = (if m = RPC_GetattrCompound then 0 else 20))"
proof -
  let ?c = "server_new config"
  have "sr_cqs srv = replicate (sv_n_queues ?c) (concat (replicate 20 registered_methods))"
    "sr_pollers srv = concat (map (replicate (sv_n_pollers_per_queue ?c)) [0..<sv_n_queues ?c])"
    using assms by (auto simp: server_run_def Let_def rbind_eq_Inr_conv split: option.splits)
  moreover have "count_list (concat (replicate 20 registered_methods)) m =
      (if m = RPC_GetattrCompound then 0 else 20)" for m
    by (simp add: count_list_concat_replicate) (cases m; simp add: registered_methods_def)
  ultimately show ?thesis
    by (auto simp: count_list_pollers server_new_def)
qed

theorem server_run_serves_every_method_witness:
  "\<exists>srv. server_run (server_new \<lparr>sv_server_address = ''h'', sv_n_queues = 0, sv_n_pollers_per_queue = 0\<rparr>)
       (null_operations :: (unit, unit) fuse_operations) () = Inr (srv, ()) \<and>
     length (sr_cqs srv) = 1 \<and> (\<forall>cq \<in> set (sr_cqs srv). count_list cq RPC_Read = 20)"
proof -
  let ?c = "\<lparr>sv_server_address = ''h'', sv_n_queues = 0, sv_n_pollers_per_queue = 0\<rparr>"
  obtain srv where "server_run (server_new ?c) (null_operations :: (unit, unit) fuse_operations) () = Inr (srv, ())"
    by (simp add: server_run_def null_operations_def Let_def)
  then show ?thesis
    using server_run_serves_every_method [of ?c "null_operations :: (unit, unit) fuse_operations" "()" srv "()"]
    by auto
qed

end
