(* ===== verification/Sync_Client.thy ===== *)
theory Sync_Client
  imports Proto_Messages
begin

text \<open>
  The synchronous client (\<^verbatim>\<open>lib/fuse_rpc/grpc/sync_client.cpp\<close>): every operation packs a
  request, makes one remote call and unpacks the reply; reads and writes of a path go through
  a stream that stays open for the path and fall back to a plain call when it fails. The
  generated stub is an argument: one function per procedure on a state \<open>'n\<close> of the network
  and everything behind it, and the four operations of a stream on handles \<open>'h\<close>. A status
  other than OK is the answer \<open>None\<close>.
\<close>

section \<open>The stub\<close>

record ('n, 'h) stub =
  stub_Getattr :: "('n, GetattrRequest, GetattrReply) rpc"
  stub_Fgetattr :: "('n, FgetattrRequest, FgetattrReply) rpc"
  stub_Access :: "('n, AccessRequest, AccessReply) rpc"
  stub_Readlink :: "('n, ReadlinkRequest, ReadlinkReply) rpc"
  stub_Opendir :: "('n, OpendirRequest, OpendirReply) rpc"
  stub_Readdir :: "('n, ReaddirRequest, ReaddirReply) rpc"
  stub_Releasedir :: "('n, ReleasedirRequest, ReleasedirReply) rpc"
  stub_Mknod :: "('n, MknodRequest, MknodReply) rpc"
  stub_Mkdir :: "('n, MkdirRequest, MkdirReply) rpc"
  stub_Symlink :: "('n, SymlinkRequest, SymlinkReply) rpc"
  stub_Unlink :: "('n, UnlinkRequest, UnlinkReply) rpc"
  stub_Rmdir :: "('n, RmdirRequest, RmdirReply) rpc"
  stub_Rename :: "('n, RenameRequest, RenameReply) rpc"
  stub_Link :: "('n, LinkRequest, LinkReply) rpc"
  stub_Chmod :: "('n, ChmodRequest, ChmodReply) rpc"
  stub_Chown :: "('n, ChownRequest, ChownReply) rpc"
  stub_Truncate :: "('n, TruncateRequest, TruncateReply) rpc"
  stub_Ftruncate :: "('n, FtruncateRequest, FtruncateReply) rpc"
  stub_Utimens :: "('n, UtimensRequest, UtimensReply) rpc"
  stub_Create :: "('n, CreateRequest, CreateReply) rpc"
  stub_Open :: "('n, OpenRequest, OpenReply) rpc"
  stub_Read :: "('n, ReadRequest, ReadReply) rpc"
  stub_Write :: "('n, WriteRequest, WriteReply) rpc"
  stub_Statfs :: "('n, StatfsRequest, StatfsReply) rpc"
  stub_Flush :: "('n, FlushRequest, FlushReply) rpc"
  stub_Release :: "('n, ReleaseRequest, ReleaseReply) rpc"
  stub_Fsync :: "('n, FsyncRequest, FsyncReply) rpc"
  stub_Fallocate :: "('n, FallocateRequest, FallocateReply) rpc"
  stub_Setxattr :: "('n, SetxattrRequest, SetxattrReply) rpc"
  stub_Getxattr :: "('n, GetxattrRequest, GetxattrReply) rpc"
  stub_Listxattr :: "('n, ListxattrRequest, ListxattrReply) rpc"
  stub_Removexattr :: "('n, RemovexattrRequest, RemovexattrReply) rpc"
  stub_StreamRead :: "'n \<Rightarrow> 'h \<times> 'n"
  rs_Write :: "'h \<Rightarrow> ReadRequest \<Rightarrow> 'n \<Rightarrow> bool \<times> 'n"
  rs_Read :: "'h \<Rightarrow> 'n \<Rightarrow> ReadReply option \<times> 'n"
  rs_WritesDone :: "'h \<Rightarrow> 'n \<Rightarrow> 'n"
  stub_StreamWrite :: "'n \<Rightarrow> 'h \<times> 'n"
  ws_Write :: "'h \<Rightarrow> WriteRequest \<Rightarrow> 'n \<Rightarrow> bool \<times> 'n"
  ws_Read :: "'h \<Rightarrow> 'n \<Rightarrow> WriteReply option \<times> 'n"
  ws_WritesDone :: "'h \<Rightarrow> 'n \<Rightarrow> 'n"

section \<open>State\<close>

record 'h sync_client =
  sc_read_streams :: "(path, 'h) fmap"
  sc_write_streams :: "(path, 'h) fmap"

type_synonym ('n, 'h) client_state = "'h sync_client \<times> 'n"

text \<open>The message written by \<^verbatim>\<open>fill_StructFuseFileInfo(request.mutable_info(), fi)\<close>.\<close>

definition wire_info :: "fuse_file_info \<Rightarrow> StructFuseFileInfo" where
  "wire_info fi = fill_StructFuseFileInfo fi default_FuseFileInfo"

section \<open>Streams\<close>

text \<open>\<^verbatim>\<open>try_emplace(path, stub_)\<close> opens a stream only when the path has none.\<close>

definition add_read_stream :: "('n, 'h) stub \<Rightarrow> path \<Rightarrow> ('n, 'h) client_state \<Rightarrow> ('n, 'h) client_state" where
  "add_read_stream stub path = (\<lambda>(c, n).
     case fmlookup (sc_read_streams c) path of
       Some _ \<Rightarrow> (c, n)
     | None \<Rightarrow> (case stub_StreamRead stub n of
         (h, n1) \<Rightarrow> (c\<lparr>sc_read_streams := fmupd path h (sc_read_streams c)\<rparr>, n1)))"

definition add_write_stream :: "('n, 'h) stub \<Rightarrow> path \<Rightarrow> ('n, 'h) client_state \<Rightarrow> ('n, 'h) client_state" where
  "add_write_stream stub path = (\<lambda>(c, n).
     case fmlookup (sc_write_streams c) path of
       Some _ \<Rightarrow> (c, n)
     | None \<Rightarrow> (case stub_StreamWrite stub n of
         (h, n1) \<Rightarrow> (c\<lparr>sc_write_streams := fmupd path h (sc_write_streams c)\<rparr>, n1)))"

definition create_streams :: "('n, 'h) stub \<Rightarrow> path \<Rightarrow> 32 word \<Rightarrow> ('n, 'h) client_state \<Rightarrow> ('n, 'h) client_state" where
  "create_streams stub path flags st =
     (let mode = and flags O_ACCMODE
      in if mode = O_RDONLY \<or> flags = O_RDONLY then add_read_stream stub path st
         else if mode = O_WRONLY \<or> flags = O_WRONLY then add_write_stream stub path st
         else if mode = O_RDWR \<or> flags = O_RDWR then add_write_stream stub path (add_read_stream stub path st)
         else st)"

definition remove_streams :: "('n, 'h) stub \<Rightarrow> path \<Rightarrow> ('n, 'h) client_state \<Rightarrow> ('n, 'h) client_state" where
  "remove_streams stub path = (\<lambda>(c, n).
     let (c1, n1) = (case fmlookup (sc_read_streams c) path of
           None \<Rightarrow> (c, n)
         | Some h \<Rightarrow> (c\<lparr>sc_read_streams := fmdrop path (sc_read_streams c)\<rparr>, rs_WritesDone stub h n))
     in case fmlookup (sc_write_streams c1) path of
           None \<Rightarrow> (c1, n1)
         | Some h \<Rightarrow> (c1\<lparr>sc_write_streams := fmdrop path (sc_write_streams c1)\<rparr>, ws_WritesDone stub h n1))"

section \<open>Operations\<close>

definition sc_getattr :: "('n, 'h) stub \<Rightarrow> ('n, 'h) client_state getattr_op" where
  "sc_getattr stub path stbuf = (\<lambda>(c, n).
     case stub_Getattr stub (GetattrRequest path) n of
       (None, n1) \<Rightarrow> Inr ((-1, stbuf), c, n1)
     | (Some (GetattrReply res st), n1) \<Rightarrow> Inr ((res, fill_struct_stat st stbuf), c, n1))"

definition sc_fgetattr :: "('n, 'h) stub \<Rightarrow> ('n, 'h) client_state fgetattr_op" where
  "sc_fgetattr stub path stbuf fi = (\<lambda>(c, n). rbind (deref fi) (\<lambda>f.
     case stub_Fgetattr stub (FgetattrRequest path (wire_info f)) n of
       (None, n1) \<Rightarrow> Inr ((-1, stbuf, fi), c, n1)
     | (Some (FgetattrReply res st info), n1) \<Rightarrow>
         Inr ((res, fill_struct_stat st stbuf, Some (fill_fuse_file_info info f)), c, n1)))"

definition sc_readlink :: "('n, 'h) stub \<Rightarrow> ('n, 'h) client_state readlink_op" where
  "sc_readlink stub path buf sz = (\<lambda>(c, n).
     case stub_Readlink stub (ReadlinkRequest path sz) n of
       (None, n1) \<Rightarrow> Inr ((-1, buf), c, n1)
     | (Some (ReadlinkReply res data), n1) \<Rightarrow>
         rbind (mem_copy buf 0 (data @ [CHR 0x00]) 0 sz) (\<lambda>buf1. Inr ((res, buf1), c, n1)))"

fun replay_entries :: "'d fill_dir \<Rightarrow> StructDirInfoEntry list \<Rightarrow> 'd \<Rightarrow> 'd" where
  "replay_entries filler [] buf = buf"
| "replay_entries filler (e # es) buf =
     (case filler buf (sde_name e) (fill_struct_stat (sde_stbuf e) zero_stat) (off_of_size (sde_offset e)) of
        (r, buf1) \<Rightarrow> if r \<noteq> 0 then buf1 else replay_entries filler es buf1)"

definition sc_readdir :: "('n, 'h) stub \<Rightarrow> (('n, 'h) client_state, 'd) readdir_op" where
  "sc_readdir stub path buf filler offset fi = (\<lambda>(c, n). rbind (deref fi) (\<lambda>f.
     case stub_Readdir stub (ReaddirRequest path (size_of_int offset) (wire_info f)) n of
       (None, n1) \<Rightarrow> Inr ((-1, buf, fi), c, n1)
     | (Some (ReaddirReply res entries info), n1) \<Rightarrow>
         Inr ((res, replay_entries filler entries buf, Some (fill_fuse_file_info info f)), c, n1)))"

definition sc_access :: "('n, 'h) stub \<Rightarrow> path \<Rightarrow> int \<Rightarrow> (('n, 'h) client_state, int) action" where
  "sc_access stub path msk = (\<lambda>(c, n).
     case stub_Access stub (AccessRequest path msk) n of
       (None, n1) \<Rightarrow> Inr (-1, c, n1)
     | (Some (AccessReply res), n1) \<Rightarrow> Inr (res, c, n1))"

definition sc_opendir :: "('n, 'h) stub \<Rightarrow> ('n, 'h) client_state fi_op" where
  "sc_opendir stub path fi = (\<lambda>(c, n). rbind (deref fi) (\<lambda>f.
     case stub_Opendir stub (OpendirRequest path (wire_info f)) n of
       (None, n1) \<Rightarrow> Inr ((-1, fi), c, n1)
     | (Some (OpendirReply res info), n1) \<Rightarrow> Inr ((res, Some (fill_fuse_file_info info f)), c, n1)))"

definition sc_releasedir :: "('n, 'h) stub \<Rightarrow> ('n, 'h) client_state fi_op" where
  "sc_releasedir stub path fi = (\<lambda>(c, n). rbind (deref fi) (\<lambda>f.
     case stub_Releasedir stub (ReleasedirRequest path (wire_info f)) n of
       (None, n1) \<Rightarrow> Inr ((-1, fi), c, n1)
     | (Some (ReleasedirReply res info), n1) \<Rightarrow> Inr ((res, Some (fill_fuse_file_info info f)), c, n1)))"

definition sc_mknod :: "('n, 'h) stub \<Rightarrow> path \<Rightarrow> 32 word \<Rightarrow> 64 word \<Rightarrow> (('n, 'h) client_state, int) action" where
  "sc_mknod stub path mode rdev = (\<lambda>(c, n).
     case stub_Mknod stub (MknodRequest path mode rdev) n of
       (None, n1) \<Rightarrow> Inr (-1, c, n1)
     | (Some (MknodReply res), n1) \<Rightarrow> Inr (res, c, n1))"

definition sc_mkdir :: "('n, 'h) stub \<Rightarrow> path \<Rightarrow> 32 word \<Rightarrow> (('n, 'h) client_state, int) action" where
  "sc_mkdir stub path mode = (\<lambda>(c, n).
     case stub_Mkdir stub (MkdirRequest path mode) n of
       (None, n1) \<Rightarrow> Inr (-1, c, n1)
     | (Some (MkdirReply res), n1) \<Rightarrow> Inr (res, c, n1))"

definition sc_symlink :: "('n, 'h) stub \<Rightarrow> ('n, 'h) client_state path2_op" where
  "sc_symlink stub src dst = (\<lambda>(c, n).
     case stub_Symlink stub (SymlinkRequest src dst) n of
       (None, n1) \<Rightarrow> Inr (-1, c, n1)
     | (Some (SymlinkReply res), n1) \<Rightarrow> Inr (res, c, n1))"

definition sc_unlink :: "('n, 'h) stub \<Rightarrow> ('n, 'h) client_state path_op" where
  "sc_unlink stub path = (\<lambda>(c, n).
     case stub_Unlink stub (UnlinkRequest path) n of
       (None, n1) \<Rightarrow> Inr (-1, c, n1)
     | (Some (UnlinkReply res), n1) \<Rightarrow> Inr (res, c, n1))"

definition sc_rmdir :: "('n, 'h) stub \<Rightarrow> ('n, 'h) client_state path_op" where
  "sc_rmdir stub path = (\<lambda>(c, n).
     case stub_Rmdir stub (RmdirRequest path) n of
       (None, n1) \<Rightarrow> Inr (-1, c, n1)
     | (Some (RmdirReply res), n1) \<Rightarrow> Inr (res, c, n1))"

definition sc_rename :: "('n, 'h) stub \<Rightarrow> ('n, 'h) client_state path2_op" where
  "sc_rename stub src dst = (\<lambda>(c, n).
     case stub_Rename stub (RenameRequest src dst) n of
       (None, n1) \<Rightarrow> Inr (-1, c, n1)
     | (Some (RenameReply res), n1) \<Rightarrow> Inr (res, c, n1))"

definition sc_link :: "('n, 'h) stub \<Rightarrow> ('n, 'h) client_state path2_op" where
  "sc_link stub src dst = (\<lambda>(c, n).
     case stub_Link stub (LinkRequest src dst) n of
       (None, n1) \<Rightarrow> Inr (-1, c, n1)
     | (Some (LinkReply res), n1) \<Rightarrow> Inr (res, c, n1))"

definition sc_chmod :: "('n, 'h) stub \<Rightarrow> path \<Rightarrow> 32 word \<Rightarrow> (('n, 'h) client_state, int) action" where
  "sc_chmod stub path mode = (\<lambda>(c, n).
     case stub_Chmod stub (ChmodRequest path mode) n of
       (None, n1) \<Rightarrow> Inr (-1, c, n1)
     | (Some (ChmodReply res), n1) \<Rightarrow> Inr (res, c, n1))"

definition sc_chown :: "('n, 'h) stub \<Rightarrow> path \<Rightarrow> 32 word \<Rightarrow> 32 word \<Rightarrow> (('n, 'h) client_state, int) action" where
  "sc_chown stub path uid gid = (\<lambda>(c, n).
     case stub_Chown stub (ChownRequest path uid gid) n of
       (None, n1) \<Rightarrow> Inr (-1, c, n1)
     | (Some (ChownReply res), n1) \<Rightarrow> Inr (res, c, n1))"

definition sc_truncate :: "('n, 'h) stub \<Rightarrow> path \<Rightarrow> int \<Rightarrow> (('n, 'h) client_state, int) action" where
  "sc_truncate stub path sz = (\<lambda>(c, n).
     case stub_Truncate stub (TruncateRequest path sz) n of
       (None, n1) \<Rightarrow> Inr (-1, c, n1)
     | (Some (TruncateReply res), n1) \<Rightarrow> Inr (res, c, n1))"

definition sc_ftruncate :: "('n, 'h) stub \<Rightarrow> path \<Rightarrow> int \<Rightarrow> fi_ptr \<Rightarrow> (('n, 'h) client_state, int \<times> fi_ptr) action" where
  "sc_ftruncate stub path sz fi = (\<lambda>(c, n). rbind (deref fi) (\<lambda>f.
     case stub_Ftruncate stub (FtruncateRequest path sz (wire_info f)) n of
       (None, n1) \<Rightarrow> Inr ((-1, fi), c, n1)
     | (Some (FtruncateReply res info), n1) \<Rightarrow> Inr ((res, Some (fill_fuse_file_info info f)), c, n1)))"

definition sc_utimens :: "('n, 'h) stub \<Rightarrow> path \<Rightarrow> timespec \<Rightarrow> timespec \<Rightarrow> (('n, 'h) client_state, int) action" where
  "sc_utimens stub path ts0 ts1 = (\<lambda>(c, n).
     case stub_Utimens stub (UtimensRequest path (fill_StructTimespec ts0 default_Timespec) (fill_StructTimespec ts1 default_Timespec)) n of
       (None, n1) \<Rightarrow> Inr (-1, c, n1)
     | (Some (UtimensReply res), n1) \<Rightarrow> Inr (res, c, n1))"

text \<open>
  \<^verbatim>\<open>create\<close> and \<^verbatim>\<open>open\<close> look at the flags the caller passed, before the reply overwrites them, and
  open streams for every result but -1.
\<close>

definition sc_create :: "('n, 'h) stub \<Rightarrow> path \<Rightarrow> 32 word \<Rightarrow> fi_ptr \<Rightarrow> (('n, 'h) client_state, int \<times> fi_ptr) action" where
  "sc_create stub path mode fi = (\<lambda>(c, n). rbind (deref fi) (\<lambda>f.
     case stub_Create stub (CreateRequest path mode (wire_info f)) n of
       (None, n1) \<Rightarrow> Inr ((-1, fi), c, n1)
     | (Some (CreateReply res info), n1) \<Rightarrow> Inr ((res, Some (fill_fuse_file_info info f)), 
         (if res \<noteq> -1 then create_streams stub path (fi_flags f) (c, n1) else (c, n1)))))"

definition sc_open :: "('n, 'h) stub \<Rightarrow> ('n, 'h) client_state fi_op" where
  "sc_open stub path fi = (\<lambda>(c, n). rbind (deref fi) (\<lambda>f.
     case stub_Open stub (OpenRequest path (wire_info f)) n of
       (None, n1) \<Rightarrow> Inr ((-1, fi), c, n1)
     | (Some (OpenReply res info), n1) \<Rightarrow> Inr ((res, Some (fill_fuse_file_info info f)), 
         (if res \<noteq> -1 then create_streams stub path (fi_flags f) (c, n1) else (c, n1)))))"

text \<open>
  The label \<^verbatim>\<open>sync_request\<close>: a plain call, which opens a stream again when it succeeds. It is
  reached when the path has no stream, and by \<^verbatim>\<open>goto\<close> when writing to or reading from the
  stream fails, after the path's streams have been removed.
\<close>

definition read_sync_request :: "('n, 'h) stub \<Rightarrow> path \<Rightarrow> ReadRequest \<Rightarrow> ('n, 'h) client_state
    \<Rightarrow> ReadReply option \<times> ('n, 'h) client_state" where
  "read_sync_request stub path request = (\<lambda>(c, n).
     case stub_Read stub request n of
       (None, n1) \<Rightarrow> (None, c, n1)
     | (Some reply, n1) \<Rightarrow> (Some reply, create_streams stub path O_RDONLY (c, n1)))"

definition read_reply :: "('n, 'h) stub \<Rightarrow> path \<Rightarrow> ReadRequest \<Rightarrow> ('n, 'h) client_state
    \<Rightarrow> ReadReply option \<times> ('n, 'h) client_state" where
  "read_reply stub path request = (\<lambda>(c, n).
     case fmlookup (sc_read_streams c) path of
       None \<Rightarrow> read_sync_request stub path request (c, n)
     | Some h \<Rightarrow>
         (case rs_Write stub h request n of
            (False, n1) \<Rightarrow> read_sync_request stub path request (remove_streams stub path (c, n1))
          | (True, n1) \<Rightarrow>
              (case rs_Read stub h n1 of
                 (None, n2) \<Rightarrow> read_sync_request stub path request (remove_streams stub path (c, n2))
               | (Some reply, n2) \<Rightarrow> (Some reply, c, n2))))"

definition sc_read :: "('n, 'h) stub \<Rightarrow> ('n, 'h) client_state read_op" where
  "sc_read stub path buf sz offset fi st = rbind (deref fi) (\<lambda>f.
     case read_reply stub path (ReadRequest path sz offset (wire_info f)) st of
       (None, st1) \<Rightarrow> Inr ((-1, buf, fi), st1)
     | (Some (ReadReply res data info), st1) \<Rightarrow>
         rbind (if res > 0 then mem_copy buf 0 (data @ [CHR 0x00]) 0 (nat res) else Inr buf) (\<lambda>buf1.
           Inr ((res, buf1, Some (fill_fuse_file_info info f)), st1)))"

definition write_sync_request :: "('n, 'h) stub \<Rightarrow> path \<Rightarrow> WriteRequest \<Rightarrow> ('n, 'h) client_state
    \<Rightarrow> WriteReply option \<times> ('n, 'h) client_state" where
  "write_sync_request stub path request = (\<lambda>(c, n).
     case stub_Write stub request n of
       (None, n1) \<Rightarrow> (None, c, n1)
     | (Some reply, n1) \<Rightarrow> (Some reply, create_streams stub path O_WRONLY (c, n1)))"

definition write_reply :: "('n, 'h) stub \<Rightarrow> path \<Rightarrow> WriteRequest \<Rightarrow> ('n, 'h) client_state
    \<Rightarrow> WriteReply option \<times> ('n, 'h) client_state" where
  "write_reply stub path request = (\<lambda>(c, n).
     case fmlookup (sc_write_streams c) path of
       None \<Rightarrow> write_sync_request stub path request (c, n)
     | Some h \<Rightarrow>
         (case ws_Write stub h request n of
            (False, n1) \<Rightarrow> write_sync_request stub path request (remove_streams stub path (c, n1))
          | (True, n1) \<Rightarrow>
              (case ws_Read stub h n1 of
                 (None, n2) \<Rightarrow> write_sync_request stub path request (remove_streams stub path (c, n2))
               | (Some reply, n2) \<Rightarrow> (Some reply, c, n2))))"

text \<open>\<^verbatim>\<open>request.set_buf(buf, size)\<close> copies \<open>size\<close> bytes; \<^verbatim>\<open>fi->flush\<close> marks a synchronous write.\<close>

definition sc_write :: "('n, 'h) stub \<Rightarrow> ('n, 'h) client_state write_op" where
  "sc_write stub path buf sz offset fi st = rbind (deref fi) (\<lambda>f0.
     let f = f0\<lparr>fi_flush := 1\<rparr>
     in if length buf < sz then Inl Out_of_bounds
        else case write_reply stub path (WriteRequest path sz offset (take sz buf) (wire_info f)) st of
          (None, st1) \<Rightarrow> Inr ((-1, Some f), st1)
        | (Some (WriteReply res info), st1) \<Rightarrow> Inr ((res, Some (fill_fuse_file_info info f)), st1))"

definition sc_statfs :: "('n, 'h) stub \<Rightarrow> path \<Rightarrow> statvfs \<Rightarrow> (('n, 'h) client_state, int \<times> statvfs) action" where
  "sc_statfs stub path stbuf = (\<lambda>(c, n).
     case stub_Statfs stub (StatfsRequest path) n of
       (None, n1) \<Rightarrow> Inr ((-1, stbuf), c, n1)
     | (Some (StatfsReply res st), n1) \<Rightarrow> Inr ((res, fill_struct_statvfs st stbuf), c, n1))"

definition sc_flush :: "('n, 'h) stub \<Rightarrow> ('n, 'h) client_state fi_op" where
  "sc_flush stub path fi = (\<lambda>(c, n). rbind (deref fi) (\<lambda>f.
     case stub_Flush stub (FlushRequest path (wire_info f)) n of
       (None, n1) \<Rightarrow> Inr ((-1, fi), c, n1)
     | (Some (FlushReply res info), n1) \<Rightarrow> Inr ((res, Some (fill_fuse_file_info info f)), c, n1)))"

definition sc_release :: "('n, 'h) stub \<Rightarrow> ('n, 'h) client_state fi_op" where
  "sc_release stub path fi = (\<lambda>(c, n). rbind (deref fi) (\<lambda>f.
     case stub_Release stub (ReleaseRequest path (wire_info f)) n of
       (None, n1) \<Rightarrow> Inr ((-1, fi), c, n1)
     | (Some (ReleaseReply res info), n1) \<Rightarrow> Inr ((res, Some (fill_fuse_file_info info f)), remove_streams stub path (c, n1))))"

definition sc_fsync :: "('n, 'h) stub \<Rightarrow> path \<Rightarrow> int \<Rightarrow> fi_ptr \<Rightarrow> (('n, 'h) client_state, int \<times> fi_ptr) action" where
  "sc_fsync stub path isdatasync fi = (\<lambda>(c, n). rbind (deref fi) (\<lambda>f.
     case stub_Fsync stub (FsyncRequest path isdatasync (wire_info f)) n of
       (None, n1) \<Rightarrow> Inr ((-1, fi), c, n1)
     | (Some (FsyncReply res info), n1) \<Rightarrow> Inr ((res, Some (fill_fuse_file_info info f)), c, n1)))"

definition sc_fallocate :: "('n, 'h) stub \<Rightarrow> path \<Rightarrow> int \<Rightarrow> int \<Rightarrow> int \<Rightarrow> fi_ptr \<Rightarrow> (('n, 'h) client_state, int \<times> fi_ptr) action" where
  "sc_fallocate stub path mode offset len fi = (\<lambda>(c, n). rbind (deref fi) (\<lambda>f.
     case stub_Fallocate stub (FallocateRequest path mode offset len (wire_info f)) n of
       (None, n1) \<Rightarrow> Inr ((-1, fi), c, n1)
     | (Some (FallocateReply res info), n1) \<Rightarrow> Inr ((res, Some (fill_fuse_file_info info f)), c, n1)))"

definition sc_setxattr :: "('n, 'h) stub \<Rightarrow> path \<Rightarrow> string \<Rightarrow> bytes \<Rightarrow> nat \<Rightarrow> int
    \<Rightarrow> (('n, 'h) client_state, int) action" where
  "sc_setxattr stub path name val sz flags = (\<lambda>(c, n).
     if length val < sz then Inl Out_of_bounds
     else case stub_Setxattr stub (SetxattrRequest path name sz flags (take sz val)) n of
       (None, n1) \<Rightarrow> Inr (-1, c, n1)
     | (Some (SetxattrReply res), n1) \<Rightarrow> Inr (res, c, n1))"

definition sc_getxattr :: "('n, 'h) stub \<Rightarrow> path \<Rightarrow> string \<Rightarrow> bytes \<Rightarrow> nat
    \<Rightarrow> (('n, 'h) client_state, int \<times> bytes) action" where
  "sc_getxattr stub path name val sz = (\<lambda>(c, n).
     case stub_Getxattr stub (GetxattrRequest path name sz) n of
       (None, n1) \<Rightarrow> Inr ((-1, val), c, n1)
     | (Some (GetxattrReply res data), n1) \<Rightarrow>
         rbind (if res > 0 then mem_copy val 0 (data @ [CHR 0x00]) 0 (nat res) else Inr val)
           (\<lambda>val1. Inr ((res, val1), c, n1)))"

definition sc_listxattr :: "('n, 'h) stub \<Rightarrow> path \<Rightarrow> bytes \<Rightarrow> nat
    \<Rightarrow> (('n, 'h) client_state, int \<times> bytes) action" where
  "sc_listxattr stub path lst sz = (\<lambda>(c, n).
     case stub_Listxattr stub (ListxattrRequest path sz) n of
       (None, n1) \<Rightarrow> Inr ((-1, lst), c, n1)
     | (Some (ListxattrReply res data), n1) \<Rightarrow>
         rbind (if res > 0 then mem_copy lst 0 (data @ [CHR 0x00]) 0 (nat res) else Inr lst)
           (\<lambda>lst1. Inr ((res, lst1), c, n1)))"

definition sc_removexattr :: "('n, 'h) stub \<Rightarrow> path \<Rightarrow> string \<Rightarrow> (('n, 'h) client_state, int) action" where
  "sc_removexattr stub path name = (\<lambda>(c, n).
     case stub_Removexattr stub (RemovexattrRequest path name) n of
       (None, n1) \<Rightarrow> Inr (-1, c, n1)
     | (Some (RemovexattrReply res), n1) \<Rightarrow> Inr (res, c, n1))"

section \<open>Properties\<close>

lemma add_read_stream_domains:
  "fmdom' (sc_read_streams (fst (add_read_stream stub path st))) = insert path (fmdom' (sc_read_streams (fst st)))"
  "sc_write_streams (fst (add_read_stream stub path st)) = sc_write_streams (fst st)"
  by (auto simp: add_read_stream_def fmap_simps split: option.splits prod.splits)

lemma add_write_stream_domains:
  "fmdom' (sc_write_streams (fst (add_write_stream stub path st))) = insert path (fmdom' (sc_write_streams (fst st)))"
  "sc_read_streams (fst (add_write_stream stub path st)) = sc_read_streams (fst st)"
  by (auto simp: add_write_stream_def fmap_simps split: option.splits prod.splits)

lemma fmdrop_absent: "fmlookup m k = None \<Longrightarrow> fmdrop k m = m"
  by (rule fmap_ext) auto

lemma remove_streams_domains:
  "sc_read_streams (fst (remove_streams stub path st)) = fmdrop path (sc_read_streams (fst st))"
  "sc_write_streams (fst (remove_streams stub path st)) = fmdrop path (sc_write_streams (fst st))"
  by (auto simp: remove_streams_def fmdrop_absent split: option.splits prod.splits)

lemmas stream_domains = add_read_stream_domains add_write_stream_domains remove_streams_domains

text \<open>
  Which streams a path has after \<^verbatim>\<open>create_streams\<close>: a read stream if it had one or the access
  mode of the flags allows reading, a write stream if it had one or the mode allows writing,
  whatever other flags are set; other paths keep what they had.
\<close>

theorem create_streams_follow_access_mode:
  "fmdom' (sc_read_streams (fst (create_streams stub path flags st))) =
     fmdom' (sc_read_streams (fst st)) \<union>
       (if and flags O_ACCMODE \<in> {O_RDONLY, O_RDWR} then {path} else {}) \<and>
   fmdom' (sc_write_streams (fst (create_streams stub path flags st))) =
     fmdom' (sc_write_streams (fst st)) \<union>
       (if and flags O_ACCMODE \<in> {O_WRONLY, O_RDWR} then {path} else {})"
proof -
  have "flags = O_RDONLY \<Longrightarrow> and flags O_ACCMODE = O_RDONLY"
    "flags = O_WRONLY \<Longrightarrow> and flags O_ACCMODE = O_WRONLY"
    "flags = O_RDWR \<Longrightarrow> and flags O_ACCMODE = O_RDWR"
    by (simp_all add: O_RDONLY_def O_WRONLY_def O_RDWR_def O_ACCMODE_def)
  moreover have "O_RDONLY \<noteq> O_WRONLY" "O_RDONLY \<noteq> O_RDWR" "O_WRONLY \<noteq> O_RDWR"
    by (simp_all add: O_RDONLY_def O_WRONLY_def O_RDWR_def)
  ultimately show ?thesis
    by (auto simp: create_streams_def Let_def stream_domains)
qed

text \<open>
  C39. A broken read stream is not an error of the read: if writing to the stream or reading from
  it fails, the client closes both streams of the path and makes a plain call. If that
  succeeds, the caller gets its result and bytes, and the path has a new read stream and no
  write stream; if it fails, the caller gets -1 with its buffer and file information
  untouched, and the path has no stream.
\<close>

theorem broken_read_stream_falls_back:
  assumes h: "fmlookup (sc_read_streams c) path = Some h"
    and q: "q = ReadRequest path sz offset (wire_info f)"
    and broken: "rs_Write stub h q n = (False, nb) \<or>
      (\<exists>n0. rs_Write stub h q n = (True, n0) \<and> rs_Read stub h n0 = (None, nb))"
    and plain: "stub_Read stub q (snd (remove_streams stub path (c, nb))) = (reply, np)"
    and fits: "\<forall>res data info. reply = Some (ReadReply res data info) \<longrightarrow> nat res \<le> length buf \<and> nat res \<le> length data"
  shows "\<exists>c' n'. sc_read stub path buf sz offset (Some f) (c, n) =
    Inr ((case reply of
            None \<Rightarrow> (-1, buf, Some f)
          | Some (ReadReply res data info) \<Rightarrow>
              (res, take (nat res) data @ drop (nat res) buf, Some (fill_fuse_file_info info f))), c', n') \<and>
    (path \<in> fmdom' (sc_read_streams c') \<longleftrightarrow> reply \<noteq> None) \<and> path \<notin> fmdom' (sc_write_streams c')"
proof -
  obtain c1 nr where rm: "remove_streams stub path (c, nb) = (c1, nr)" by (cases "remove_streams stub path (c, nb)")
  have c1: "path \<notin> fmdom' (sc_read_streams c1)" "path \<notin> fmdom' (sc_write_streams c1)"
    using remove_streams_domains [of stub path "(c, nb)"] by (simp_all add: rm)
  have "read_reply stub path q (c, n) = read_sync_request stub path q (c1, nr)"
    using h broken by (auto simp: read_reply_def rm)
  then have rr: "read_reply stub path q (c, n) =
      (case reply of None \<Rightarrow> (None, c1, np) | Some r \<Rightarrow> (Some r, create_streams stub path O_RDONLY (c1, np)))"
    using plain by (simp add: read_sync_request_def rm split: option.splits)
  show ?thesis
  proof (cases reply)
    case None
    then show ?thesis using rr c1 by (simp add: sc_read_def q)
  next
    case (Some r)
    obtain res data info where r: "r = ReadReply res data info" by (cases r)
    obtain c2 n3 where cs: "create_streams stub path O_RDONLY (c1, np) = (c2, n3)"
      by (cases "create_streams stub path O_RDONLY (c1, np)")
    have "path \<in> fmdom' (sc_read_streams c2)" "path \<notin> fmdom' (sc_write_streams c2)"
      using cs c1 add_read_stream_domains [of stub path "(c1, np)"] by (auto simp: create_streams_def)
    moreover have "nat res \<le> length buf" "nat res \<le> length data" using fits Some r by auto
    ultimately show ?thesis
      using rr Some r cs by (auto simp: sc_read_def q mem_copy_def)
  qed
qed

end
