(* ===== verification/Remote.thy ===== *)
theory Remote
  imports Rpc_Server Sync_Client
begin

text \<open>
  Client and server together. The locale \<open>remote_service\<close> states what the client needs of the
  stub when the network delivers: a unary call answers what the server's procedure answers,
  and a stream answers each message with the procedure's reply. It is interpreted on
  \<open>loopback\<close>, a network that hands every message to the server's own call objects, and the
  properties compare the client's operations with the operations table of the server.
\<close>

section \<open>Directory entries\<close>

text \<open>The loop of a \<^verbatim>\<open>readdir\<close>: hand over the entries until the callback asks to stop.\<close>

fun fill_until :: "'d fill_dir \<Rightarrow> dir_entry list \<Rightarrow> 'd \<Rightarrow> 'd" where
  "fill_until filler [] buf = buf"
| "fill_until filler (e # es) buf =
     (case filler buf (de_name e) (de_st e) (de_offset e) of
        (r, buf1) \<Rightarrow> if r \<noteq> 0 then buf1 else fill_until filler es buf1)"

text \<open>An entry after the wire; \<^verbatim>\<open>off_t\<close> values come back unchanged (\<open>off_of_size_of_int\<close>).\<close>

definition narrow_entry :: "dir_entry \<Rightarrow> dir_entry" where
  "narrow_entry e = e\<lparr>de_st := narrow_stat (de_st e), de_offset := off_of_size (size_of_int (de_offset e))\<rparr>"

lemma replay_entries_narrow:
  "replay_entries filler (map fill_StructDirEntryInfo es) buf = fill_until filler (map narrow_entry es) buf"
  by (induction es arbitrary: buf) (auto simp: fill_StructDirEntryInfo_def narrow_entry_def split: prod.splits)

lemma fill_until_rpc_filler: "fill_until rpc_filler es di = di @ es"
  by (induction es arbitrary: di) (simp_all add: rpc_filler_def)

section \<open>Contracts\<close>

text \<open>
  \<open>srv n\<close> is the state the server's operations act on; \<open>keeps n n'\<close> says that what was true of the
  network (that it delivers, which streams are open) still is.
\<close>

definition answers :: "('n \<Rightarrow> bool) \<Rightarrow> ('n \<Rightarrow> 'n \<Rightarrow> bool) \<Rightarrow> ('n \<Rightarrow> 's) \<Rightarrow> ('n, 'q, 'r) rpc
    \<Rightarrow> ('q \<Rightarrow> ('s, 'r) action) \<Rightarrow> bool" where
  "answers ok keeps srv rpc body \<longleftrightarrow>
     (\<forall>q n r s'. ok n \<longrightarrow> body q (srv n) = Inr (r, s') \<longrightarrow>
        (\<exists>n'. rpc q n = (Some r, n') \<and> srv n' = s' \<and> keeps n n'))"

lemma answersD:
  "answers ok keeps srv rpc body \<Longrightarrow> ok n \<Longrightarrow> body q (srv n) = Inr (r, s') \<Longrightarrow>
   \<exists>n'. rpc q n = (Some r, n') \<and> srv n' = s' \<and> keeps n n'"
  unfolding answers_def by blast

text \<open>The client operation \<open>g\<close> does to the server's state, and returns, what \<open>f\<close> does there.\<close>

definition mirrors :: "(('n, 'h) client_state \<Rightarrow> bool) \<Rightarrow> ('n \<Rightarrow> 's) \<Rightarrow> ('s, 'a) action
    \<Rightarrow> (('n, 'h) client_state, 'a) action \<Rightarrow> bool" where
  "mirrors ok srv f g \<longleftrightarrow>
     (\<forall>st a s'. ok st \<longrightarrow> f (srv (snd st)) = Inr (a, s') \<longrightarrow>
        (\<exists>st'. g st = Inr (a, st') \<and> srv (snd st') = s' \<and> ok st'))"

text \<open>A call that receives the caller's structure by address.\<close>

definition settle :: "fuse_file_info \<Rightarrow> (fi_ptr \<Rightarrow> ('s, 'a \<times> fi_ptr) action) \<Rightarrow> ('s, 'a \<times> fi_ptr) action" where
  "settle fi call s = rbind (call (Some fi) s) (\<lambda>((a, p), s1). Inr ((a, Some (pointee fi p)), s1))"

definition streams_of :: "'h sync_client \<Rightarrow> ('n \<Rightarrow> 'h \<Rightarrow> bool) \<Rightarrow> ('n \<Rightarrow> 'h \<Rightarrow> bool) \<Rightarrow> 'n \<Rightarrow> bool" where
  "streams_of c ropen wopen n \<longleftrightarrow>
     (\<forall>p h. fmlookup (sc_read_streams c) p = Some h \<longrightarrow> ropen n h) \<and>
     (\<forall>p h. fmlookup (sc_write_streams c) p = Some h \<longrightarrow> wopen n h) \<and>
     (\<forall>p p' h. fmlookup (sc_read_streams c) p = Some h \<longrightarrow> fmlookup (sc_read_streams c) p' = Some h \<longrightarrow> p = p') \<and>
     (\<forall>p p' h. fmlookup (sc_write_streams c) p = Some h \<longrightarrow> fmlookup (sc_write_streams c) p' = Some h \<longrightarrow> p = p')"

definition usable :: "('n \<Rightarrow> bool) \<Rightarrow> ('n \<Rightarrow> 'h \<Rightarrow> bool) \<Rightarrow> ('n \<Rightarrow> 'h \<Rightarrow> bool) \<Rightarrow> ('n, 'h) client_state \<Rightarrow> bool" where
  "usable good ropen wopen st \<longleftrightarrow> good (snd st) \<and> streams_of (fst st) ropen wopen (snd st)"

locale remote_service =
  fixes stub :: "('n, 'h) stub"
    and ops :: "('s, dir_info) fuse_operations"
    and srv :: "'n \<Rightarrow> 's"
    and good :: "'n \<Rightarrow> bool"
    and ropen :: "'n \<Rightarrow> 'h \<Rightarrow> bool"
    and wopen :: "'n \<Rightarrow> 'h \<Rightarrow> bool"
    and keeps :: "'n \<Rightarrow> 'n \<Rightarrow> bool"
  assumes keeps_good: "keeps n n' \<Longrightarrow> good n'"
    and keeps_ropen: "keeps n n' \<Longrightarrow> ropen n h \<Longrightarrow> ropen n' h"
    and keeps_wopen: "keeps n n' \<Longrightarrow> wopen n h \<Longrightarrow> wopen n' h"
    and open_read: "good n \<Longrightarrow> stub_StreamRead stub n = (h, n') \<Longrightarrow>
      srv n' = srv n \<and> keeps n n' \<and> ropen n' h \<and> \<not> ropen n h"
    and open_write: "good n \<Longrightarrow> stub_StreamWrite stub n = (h, n') \<Longrightarrow>
      srv n' = srv n \<and> keeps n n' \<and> wopen n' h \<and> \<not> wopen n h"
    and close_read: "good n \<Longrightarrow> ropen n h \<Longrightarrow>
      srv (rs_WritesDone stub h n) = srv n \<and> good (rs_WritesDone stub h n) \<and>
      (\<forall>h'. h' \<noteq> h \<longrightarrow> ropen n h' \<longrightarrow> ropen (rs_WritesDone stub h n) h') \<and>
      (\<forall>h'. wopen n h' \<longrightarrow> wopen (rs_WritesDone stub h n) h')"
    and close_write: "good n \<Longrightarrow> wopen n h \<Longrightarrow>
      srv (ws_WritesDone stub h n) = srv n \<and> good (ws_WritesDone stub h n) \<and>
      (\<forall>h'. h' \<noteq> h \<longrightarrow> wopen n h' \<longrightarrow> wopen (ws_WritesDone stub h n) h') \<and>
      (\<forall>h'. ropen n h' \<longrightarrow> ropen (ws_WritesDone stub h n) h')"
    and stream_read: "good n \<Longrightarrow> ropen n h \<Longrightarrow>
      (\<And>buf. \<exists>r s'. read_into ops q buf (srv n) = Inr (r, s')) \<Longrightarrow>
      \<exists>buf r n1 n2. rs_Write stub h q n = (True, n1) \<and> rs_Read stub h n1 = (Some r, n2) \<and>
        read_into ops q buf (srv n) = Inr (r, srv n2) \<and> keeps n n2"
    and stream_write: "good n \<Longrightarrow> wopen n h \<Longrightarrow> write_from ops wq (srv n) = Inr (wr, s') \<Longrightarrow>
      \<exists>n1 n2. ws_Write stub h wq n = (True, n1) \<and> ws_Read stub h n1 = (Some wr, n2) \<and>
        srv n2 = s' \<and> keeps n n2"
    and getattr_answers: "answers good keeps srv (stub_Getattr stub) (getattr_process ops)"
    and fgetattr_answers: "answers good keeps srv (stub_Fgetattr stub) (fgetattr_process ops)"
    and access_answers: "answers good keeps srv (stub_Access stub) (access_process ops)"
    and readlink_answers: "answers good keeps srv (stub_Readlink stub) (readlink_process ops)"
    and opendir_answers: "answers good keeps srv (stub_Opendir stub) (opendir_process ops)"
    and readdir_answers: "answers good keeps srv (stub_Readdir stub) (readdir_process ops)"
    and releasedir_answers: "answers good keeps srv (stub_Releasedir stub) (releasedir_process ops)"
    and mknod_answers: "answers good keeps srv (stub_Mknod stub) (mknod_process ops)"
    and mkdir_answers: "answers good keeps srv (stub_Mkdir stub) (mkdir_process ops)"
    and symlink_answers: "answers good keeps srv (stub_Symlink stub) (symlink_process ops)"
    and unlink_answers: "answers good keeps srv (stub_Unlink stub) (unlink_process ops)"
    and rmdir_answers: "answers good keeps srv (stub_Rmdir stub) (rmdir_process ops)"
    and rename_answers: "answers good keeps srv (stub_Rename stub) (rename_process ops)"
    and link_answers: "answers good keeps srv (stub_Link stub) (link_process ops)"
    and chmod_answers: "answers good keeps srv (stub_Chmod stub) (chmod_process ops)"
    and chown_answers: "answers good keeps srv (stub_Chown stub) (chown_process ops)"
    and truncate_answers: "answers good keeps srv (stub_Truncate stub) (truncate_process ops)"
    and ftruncate_answers: "answers good keeps srv (stub_Ftruncate stub) (ftruncate_process ops)"
    and utimens_answers: "answers good keeps srv (stub_Utimens stub) (utimens_process ops)"
    and create_answers: "answers good keeps srv (stub_Create stub) (create_process ops)"
    and open_answers: "answers good keeps srv (stub_Open stub) (open_process ops)"
    and read_answers: "answers good keeps srv (stub_Read stub) (read_process ops)"
    and write_answers: "answers good keeps srv (stub_Write stub) (write_process ops)"
    and statfs_answers: "answers good keeps srv (stub_Statfs stub) (statfs_process ops)"
    and flush_answers: "answers good keeps srv (stub_Flush stub) (flush_process ops)"
    and release_answers: "answers good keeps srv (stub_Release stub) (release_process ops)"
    and fsync_answers: "answers good keeps srv (stub_Fsync stub) (fsync_process ops)"
    and fallocate_answers: "answers good keeps srv (stub_Fallocate stub) (fallocate_process ops)"
    and setxattr_answers: "answers good keeps srv (stub_Setxattr stub) (setxattr_process ops)"
    and getxattr_answers: "answers good keeps srv (stub_Getxattr stub) (getxattr_process ops)"
    and listxattr_answers: "answers good keeps srv (stub_Listxattr stub) (listxattr_process ops)"
    and removexattr_answers: "answers good keeps srv (stub_Removexattr stub) (removexattr_process ops)"
begin

lemma keeps_usable: "usable good ropen wopen (c, n) \<Longrightarrow> keeps n n' \<Longrightarrow> usable good ropen wopen (c, n')"
  using keeps_good keeps_ropen keeps_wopen by (auto simp: usable_def streams_of_def)

lemma add_read_stream_usable:
  assumes "usable good ropen wopen st"
  shows "usable good ropen wopen (add_read_stream stub path st) \<and>
    srv (snd (add_read_stream stub path st)) = srv (snd st)"
proof -
  obtain c n where st: "st = (c, n)" by (cases st)
  obtain h n' where o: "stub_StreamRead stub n = (h, n')" by (cases "stub_StreamRead stub n")
  have "srv n' = srv n \<and> keeps n n' \<and> ropen n' h \<and> \<not> ropen n h"
    using open_read [OF _ o] assms by (simp add: st usable_def)
  then show ?thesis
    using assms keeps_good [of n n'] keeps_ropen [of n n'] keeps_wopen [of n n']
    by (auto simp: st add_read_stream_def o usable_def streams_of_def split: option.splits)
qed

lemma add_write_stream_usable:
  assumes "usable good ropen wopen st"
  shows "usable good ropen wopen (add_write_stream stub path st) \<and>
    srv (snd (add_write_stream stub path st)) = srv (snd st)"
proof -
  obtain c n where st: "st = (c, n)" by (cases st)
  obtain h n' where o: "stub_StreamWrite stub n = (h, n')" by (cases "stub_StreamWrite stub n")
  have "srv n' = srv n \<and> keeps n n' \<and> wopen n' h \<and> \<not> wopen n h"
    using open_write [OF _ o] assms by (simp add: st usable_def)
  then show ?thesis
    using assms keeps_good [of n n'] keeps_ropen [of n n'] keeps_wopen [of n n']
    by (auto simp: st add_write_stream_def o usable_def streams_of_def split: option.splits)
qed

lemma create_streams_usable:
  "usable good ropen wopen st \<Longrightarrow>
   usable good ropen wopen (create_streams stub path flags st) \<and>
   srv (snd (create_streams stub path flags st)) = srv (snd st)"
  by (simp add: create_streams_def Let_def add_read_stream_usable add_write_stream_usable)

lemma remove_read_usable:
  assumes "usable good ropen wopen (c, n)" "fmlookup (sc_read_streams c) path = Some h"
  shows "usable good ropen wopen (c\<lparr>sc_read_streams := fmdrop path (sc_read_streams c)\<rparr>, rs_WritesDone stub h n) \<and>
    srv (rs_WritesDone stub h n) = srv n"
proof -
  have "good n" "ropen n h" using assms by (auto simp: usable_def streams_of_def)
  with close_read [of n h] show ?thesis
    using assms by (auto simp: usable_def streams_of_def; metis)
qed

lemma remove_write_usable:
  assumes "usable good ropen wopen (c, n)" "fmlookup (sc_write_streams c) path = Some h"
  shows "usable good ropen wopen (c\<lparr>sc_write_streams := fmdrop path (sc_write_streams c)\<rparr>, ws_WritesDone stub h n) \<and>
    srv (ws_WritesDone stub h n) = srv n"
proof -
  have "good n" "wopen n h" using assms by (auto simp: usable_def streams_of_def)
  with close_write [of n h] show ?thesis
    using assms by (auto simp: usable_def streams_of_def; metis)
qed

lemma remove_streams_usable:
  assumes "usable good ropen wopen st"
  shows "usable good ropen wopen (remove_streams stub path st) \<and>
    srv (snd (remove_streams stub path st)) = srv (snd st)"
proof -
  obtain c n where st: "st = (c, n)" by (cases st)
  obtain c1 n1 where one: "(case fmlookup (sc_read_streams c) path of
           None \<Rightarrow> (c, n)
         | Some h \<Rightarrow> (c\<lparr>sc_read_streams := fmdrop path (sc_read_streams c)\<rparr>, rs_WritesDone stub h n)) = (c1, n1)"
    (is "?first = _") by (cases ?first)
  have ok: "usable good ropen wopen (c1, n1) \<and> srv n1 = srv n"
  proof (cases "fmlookup (sc_read_streams c) path")
    case None
    then show ?thesis using one assms st by simp
  next
    case (Some h)
    then show ?thesis using one remove_read_usable [of c n path h] assms st by auto
  qed
  show ?thesis
  proof (cases "fmlookup (sc_write_streams c1) path")
    case None
    then show ?thesis using ok by (simp add: st remove_streams_def one)
  next
    case (Some h)
    then show ?thesis using ok remove_write_usable [of c1 n1 path h] by (simp add: st remove_streams_def one)
  qed
qed

text \<open>A client operation that makes one call and only rearranges streams afterwards.\<close>

lemma mirror_call:
  assumes ans: "answers good keeps srv rpc body"
    and call: "\<And>c n a s'. f (srv n) = Inr (a, s') \<Longrightarrow> \<exists>r. body q (srv n) = Inr (r, s') \<and>
      (\<forall>n1. rpc q n = (Some r, n1) \<longrightarrow> g (c, n) = Inr (a, post r (c, n1)))"
    and post: "\<And>r st. usable good ropen wopen st \<Longrightarrow>
      usable good ropen wopen (post r st) \<and> srv (snd (post r st)) = srv (snd st)"
  shows "mirrors (usable good ropen wopen) srv f g"
  unfolding mirrors_def
proof (intro allI impI)
  fix st a s'
  assume ok: "usable good ropen wopen st" and f: "f (srv (snd st)) = Inr (a, s')"
  obtain c n where st: "st = (c, n)" by (cases st)
  obtain r where r: "body q (srv n) = Inr (r, s')"
    "\<And>n1. rpc q n = (Some r, n1) \<Longrightarrow> g (c, n) = Inr (a, post r (c, n1))"
    using call f st by fastforce
  obtain n1 where n1: "rpc q n = (Some r, n1)" "srv n1 = s'" "keeps n n1"
    using answersD [OF ans _ r(1)] ok st by (auto simp: usable_def)
  have "usable good ropen wopen (c, n1)"
    using keeps_usable ok st n1(3) by blast
  from post [OF this] show "\<exists>st'. g st = Inr (a, st') \<and> srv (snd st') = s' \<and> usable good ropen wopen st'"
    using r(2) [OF n1(1)] n1(2) st by auto
qed

lemmas mirror_plain = mirror_call [where post = "\<lambda>_ st. st", simplified]

lemma access_mirrors: "op_access ops = Some f \<Longrightarrow>
    mirrors (usable good ropen wopen) srv (f path msk) (sc_access stub path msk)"
  by (rule mirror_plain [OF access_answers, where q = "AccessRequest path msk"])
     (auto simp: sc_access_def)

lemma mkdir_mirrors: "op_mkdir ops = Some f \<Longrightarrow>
    mirrors (usable good ropen wopen) srv (f path mode) (sc_mkdir stub path mode)"
  by (rule mirror_plain [OF mkdir_answers, where q = "MkdirRequest path mode"])
     (auto simp: sc_mkdir_def)

lemma mknod_mirrors: "op_mknod ops = Some f \<Longrightarrow>
    mirrors (usable good ropen wopen) srv (f path mode rdev) (sc_mknod stub path mode rdev)"
  by (rule mirror_plain [OF mknod_answers, where q = "MknodRequest path mode rdev"])
     (auto simp: sc_mknod_def)

lemma symlink_mirrors: "op_symlink ops = Some f \<Longrightarrow>
    mirrors (usable good ropen wopen) srv (f src dst) (sc_symlink stub src dst)"
  by (rule mirror_plain [OF symlink_answers, where q = "SymlinkRequest src dst"])
     (auto simp: sc_symlink_def)

lemma rename_mirrors: "op_rename ops = Some f \<Longrightarrow>
    mirrors (usable good ropen wopen) srv (f src dst) (sc_rename stub src dst)"
  by (rule mirror_plain [OF rename_answers, where q = "RenameRequest src dst"])
     (auto simp: sc_rename_def)

lemma link_mirrors: "op_link ops = Some f \<Longrightarrow>
    mirrors (usable good ropen wopen) srv (f src dst) (sc_link stub src dst)"
  by (rule mirror_plain [OF link_answers, where q = "LinkRequest src dst"])
     (auto simp: sc_link_def)

lemma unlink_mirrors: "op_unlink ops = Some f \<Longrightarrow>
    mirrors (usable good ropen wopen) srv (f path) (sc_unlink stub path)"
  by (rule mirror_plain [OF unlink_answers, where q = "UnlinkRequest path"])
     (auto simp: sc_unlink_def)

lemma rmdir_mirrors: "op_rmdir ops = Some f \<Longrightarrow>
    mirrors (usable good ropen wopen) srv (f path) (sc_rmdir stub path)"
  by (rule mirror_plain [OF rmdir_answers, where q = "RmdirRequest path"])
     (auto simp: sc_rmdir_def)

lemma chmod_mirrors: "op_chmod ops = Some f \<Longrightarrow>
    mirrors (usable good ropen wopen) srv (f path mode) (sc_chmod stub path mode)"
  by (rule mirror_plain [OF chmod_answers, where q = "ChmodRequest path mode"])
     (auto simp: sc_chmod_def)

lemma chown_mirrors: "op_chown ops = Some f \<Longrightarrow>
    mirrors (usable good ropen wopen) srv (f path uid gid) (sc_chown stub path uid gid)"
  by (rule mirror_plain [OF chown_answers, where q = "ChownRequest path uid gid"])
     (auto simp: sc_chown_def)

lemma truncate_mirrors: "- (2 ^ 63) \<le> sz \<Longrightarrow> sz < 2 ^ 63 \<Longrightarrow> op_truncate ops = Some f \<Longrightarrow>
    mirrors (usable good ropen wopen) srv (f path sz) (sc_truncate stub path sz)"
  by (rule mirror_plain [OF truncate_answers, where q = "TruncateRequest path sz"])
     (auto simp: sc_truncate_def off_of_size_of_int)

lemma utimens_mirrors: "op_utimens ops = Some f \<Longrightarrow>
    mirrors (usable good ropen wopen) srv (f path ts0 ts1) (sc_utimens stub path ts0 ts1)"
  by (rule mirror_plain [OF utimens_answers, where q = "UtimensRequest path (fill_StructTimespec ts0 default_Timespec) (fill_StructTimespec ts1 default_Timespec)"])
     (auto simp: sc_utimens_def)

lemma setxattr_mirrors: "sz \<le> length val \<Longrightarrow> op_setxattr ops = Some f \<Longrightarrow>
    mirrors (usable good ropen wopen) srv (f path name (take sz val) sz flags) (sc_setxattr stub path name val sz flags)"
  by (rule mirror_plain [OF setxattr_answers, where q = "SetxattrRequest path name sz flags (take sz val)"])
     (auto simp: sc_setxattr_def)

lemma removexattr_mirrors: "op_removexattr ops = Some f \<Longrightarrow>
    mirrors (usable good ropen wopen) srv (f path name) (sc_removexattr stub path name)"
  by (rule mirror_plain [OF removexattr_answers, where q = "RemovexattrRequest path name"])
     (auto simp: sc_removexattr_def)

text \<open>Operations on open files: the structure goes out, comes back, and is the caller's again.\<close>

lemma with_info_wire:
  assumes "settle fi call s = Inr ((a, p), s')"
  shows "\<exists>fi'. with_info (wire_info fi) call s = Inr ((a, wire_info fi'), s') \<and> p = Some fi'"
  using assms
  by (auto simp: with_info_def wire_info_def settle_def rbind_eq_Inr_conv split_beta)

lemma fill_wire_info [simp]: "fill_fuse_file_info (wire_info fi) f = fi"
  by (simp add: wire_info_def)

lemma opendir_mirrors: "op_opendir ops = Some f \<Longrightarrow>
    mirrors (usable good ropen wopen) srv (settle fi (f path)) (sc_opendir stub path (Some fi))"
  by (rule mirror_plain [OF opendir_answers, where q = "OpendirRequest path (wire_info fi)"])
     (auto simp: sc_opendir_def dest!: with_info_wire)

lemma releasedir_mirrors: "op_releasedir ops = Some f \<Longrightarrow>
    mirrors (usable good ropen wopen) srv (settle fi (f path)) (sc_releasedir stub path (Some fi))"
  by (rule mirror_plain [OF releasedir_answers, where q = "ReleasedirRequest path (wire_info fi)"])
     (auto simp: sc_releasedir_def dest!: with_info_wire)

lemma flush_mirrors: "op_flush ops = Some f \<Longrightarrow>
    mirrors (usable good ropen wopen) srv (settle fi (f path)) (sc_flush stub path (Some fi))"
  by (rule mirror_plain [OF flush_answers, where q = "FlushRequest path (wire_info fi)"])
     (auto simp: sc_flush_def dest!: with_info_wire)

lemma ftruncate_mirrors: "- (2 ^ 63) \<le> sz \<Longrightarrow> sz < 2 ^ 63 \<Longrightarrow> op_ftruncate ops = Some f \<Longrightarrow>
    mirrors (usable good ropen wopen) srv (settle fi (f path sz)) (sc_ftruncate stub path sz (Some fi))"
  by (rule mirror_plain [OF ftruncate_answers, where q = "FtruncateRequest path sz (wire_info fi)"])
     (auto simp: sc_ftruncate_def off_of_size_of_int dest!: with_info_wire)

lemma fsync_mirrors: "op_fsync ops = Some f \<Longrightarrow>
    mirrors (usable good ropen wopen) srv (settle fi (f path isdatasync)) (sc_fsync stub path isdatasync (Some fi))"
  by (rule mirror_plain [OF fsync_answers, where q = "FsyncRequest path isdatasync (wire_info fi)"])
     (auto simp: sc_fsync_def dest!: with_info_wire)

lemma fallocate_mirrors: "op_fallocate ops = Some f \<Longrightarrow>
    mirrors (usable good ropen wopen) srv (settle fi (f path mode offset len)) (sc_fallocate stub path mode offset len (Some fi))"
  by (rule mirror_plain [OF fallocate_answers, where q = "FallocateRequest path mode offset len (wire_info fi)"])
     (auto simp: sc_fallocate_def dest!: with_info_wire)

lemma create_mirrors: "op_create ops = Some f \<Longrightarrow>
    mirrors (usable good ropen wopen) srv (settle fi (f path mode)) (sc_create stub path mode (Some fi))"
  by (rule mirror_call [OF create_answers, where q = "CreateRequest path mode (wire_info fi)" and
        post = "\<lambda>r st. case r of CreateReply res info \<Rightarrow>
          if res \<noteq> -1 then create_streams stub path (fi_flags fi) st else st"])
     (auto simp: sc_create_def create_streams_usable dest!: with_info_wire split: CreateReply.splits)

lemma open_mirrors: "op_open ops = Some f \<Longrightarrow>
    mirrors (usable good ropen wopen) srv (settle fi (f path)) (sc_open stub path (Some fi))"
  by (rule mirror_call [OF open_answers, where q = "OpenRequest path (wire_info fi)" and
        post = "\<lambda>r st. case r of OpenReply res info \<Rightarrow>
          if res \<noteq> -1 then create_streams stub path (fi_flags fi) st else st"])
     (auto simp: sc_open_def create_streams_usable dest!: with_info_wire split: OpenReply.splits)

lemma release_mirrors: "op_release ops = Some f \<Longrightarrow>
    mirrors (usable good ropen wopen) srv (settle fi (f path)) (sc_release stub path (Some fi))"
  by (rule mirror_call [OF release_answers, where q = "ReleaseRequest path (wire_info fi)" and
        post = "\<lambda>_. remove_streams stub path"])
     (auto simp: sc_release_def remove_streams_usable dest!: with_info_wire)

text \<open>Operations that fill a structure: it arrives narrowed to what the message carries.\<close>

lemma getattr_mirrors: "op_getattr ops = Some f \<Longrightarrow>
    mirrors (usable good ropen wopen) srv
      (\<lambda>s. rbind (f path zero_stat s) (\<lambda>((res, st), s1). Inr ((res, narrow_stat st), s1)))
      (sc_getattr stub path stbuf)"
  by (rule mirror_plain [OF getattr_answers, where q = "GetattrRequest path"])
     (auto simp: sc_getattr_def rbind_eq_Inr_conv split_beta)

lemma statfs_mirrors: "op_statfs ops = Some f \<Longrightarrow>
    mirrors (usable good ropen wopen) srv
      (\<lambda>s. rbind (f path zero_statvfs s) (\<lambda>((res, st), s1). Inr ((res, narrow_statvfs st), s1)))
      (sc_statfs stub path stbuf)"
  by (rule mirror_plain [OF statfs_answers, where q = "StatfsRequest path"])
     (auto simp: sc_statfs_def rbind_eq_Inr_conv split_beta)

lemma fgetattr_mirrors: "op_fgetattr ops = Some f \<Longrightarrow>
    mirrors (usable good ropen wopen) srv
      (\<lambda>s. rbind (f path zero_stat (Some fi) s) (\<lambda>((res, st, p), s1).
         Inr ((res, narrow_stat st, Some (pointee fi p)), s1)))
      (sc_fgetattr stub path stbuf (Some fi))"
  by (rule mirror_plain [OF fgetattr_answers, where q = "FgetattrRequest path (wire_info fi)"])
     (auto simp: sc_fgetattr_def rbind_eq_Inr_conv split_beta with_info_def wire_info_def)

text \<open>Operations that fill a buffer of the caller in place.\<close>

lemma readlink_mirrors:
  assumes "op_readlink ops = Some f" "length buf = sz"
    and "\<And>s res data s'. f path (resize [] sz) sz s = Inr ((res, data), s') \<Longrightarrow> length data = sz"
  shows "mirrors (usable good ropen wopen) srv (f path (resize [] sz) sz) (sc_readlink stub path buf sz)"
proof (rule mirror_plain [OF readlink_answers, where q = "ReadlinkRequest path sz"])
  fix c n a s'
  assume f: "f path (resize [] sz) sz (srv n) = Inr (a, s')"
  then have "length (snd a) = sz" using assms(3) [of "srv n" "fst a" "snd a"] by simp
  with f show "\<exists>r. readlink_process ops (ReadlinkRequest path sz) (srv n) = Inr (r, s') \<and>
      (\<forall>n1. stub_Readlink stub (ReadlinkRequest path sz) n = (Some r, n1) \<longrightarrow>
         sc_readlink stub path buf sz (c, n) = Inr (a, c, n1))"
    by (cases a) (simp add: sc_readlink_def mem_copy_def assms(1,2))
qed

lemma getxattr_mirrors:
  assumes "op_getxattr ops = Some f" "length val = sz"
    and "\<And>s res data s'. f path name (resize [] sz) sz s = Inr ((res, data), s') \<Longrightarrow>
           length data = sz \<and> nat res \<le> sz"
  shows "mirrors (usable good ropen wopen) srv
      (\<lambda>s. rbind (f path name (resize [] sz) sz s) (\<lambda>((res, data), s1).
         Inr ((res, take (nat res) data @ drop (nat res) val), s1)))
      (sc_getxattr stub path name val sz)"
proof (rule mirror_plain [OF getxattr_answers, where q = "GetxattrRequest path name sz"])
  fix c n a s'
  assume "rbind (f path name (resize [] sz) sz (srv n)) (\<lambda>((res, data), s1).
    Inr ((res, take (nat res) data @ drop (nat res) val), s1)) = Inr (a, s')"
  then obtain res data where f: "f path name (resize [] sz) sz (srv n) = Inr ((res, data), s')"
    and a: "a = (res, take (nat res) data @ drop (nat res) val)"
    by (auto simp: rbind_eq_Inr_conv)
  have "length data = sz" "nat res \<le> sz" using assms(3) [OF f] by simp_all
  then show "\<exists>r. getxattr_process ops (GetxattrRequest path name sz) (srv n) = Inr (r, s') \<and>
      (\<forall>n1. stub_Getxattr stub (GetxattrRequest path name sz) n = (Some r, n1) \<longrightarrow>
         sc_getxattr stub path name val sz (c, n) = Inr (a, c, n1))"
    by (simp add: sc_getxattr_def mem_copy_def assms(1,2) f a)
qed

lemma listxattr_mirrors:
  assumes "op_listxattr ops = Some f" "length lst = sz"
    and "\<And>s res data s'. f path (resize [] sz) sz s = Inr ((res, data), s') \<Longrightarrow>
           length data = sz \<and> nat res \<le> sz"
  shows "mirrors (usable good ropen wopen) srv
      (\<lambda>s. rbind (f path (resize [] sz) sz s) (\<lambda>((res, data), s1).
         Inr ((res, take (nat res) data @ drop (nat res) lst), s1)))
      (sc_listxattr stub path lst sz)"
proof (rule mirror_plain [OF listxattr_answers, where q = "ListxattrRequest path sz"])
  fix c n a s'
  assume "rbind (f path (resize [] sz) sz (srv n)) (\<lambda>((res, data), s1).
    Inr ((res, take (nat res) data @ drop (nat res) lst), s1)) = Inr (a, s')"
  then obtain res data where f: "f path (resize [] sz) sz (srv n) = Inr ((res, data), s')"
    and a: "a = (res, take (nat res) data @ drop (nat res) lst)"
    by (auto simp: rbind_eq_Inr_conv)
  have "length data = sz" "nat res \<le> sz" using assms(3) [OF f] by simp_all
  then show "\<exists>r. listxattr_process ops (ListxattrRequest path sz) (srv n) = Inr (r, s') \<and>
      (\<forall>n1. stub_Listxattr stub (ListxattrRequest path sz) n = (Some r, n1) \<longrightarrow>
         sc_listxattr stub path lst sz (c, n) = Inr (a, c, n1))"
    by (simp add: sc_listxattr_def mem_copy_def assms(1,2) f a)
qed

lemma readdir_mirrors:
  assumes "op_readdir ops = Some f" "- (2 ^ 63) \<le> offset" "offset < 2 ^ 63"
  shows "mirrors (usable good ropen wopen) srv
      (\<lambda>s. rbind (f path [] rpc_filler offset (Some fi) s) (\<lambda>((res, es, p), s1).
         Inr ((res, fill_until filler (map narrow_entry es) buf, Some (pointee fi p)), s1)))
      (sc_readdir stub path buf filler offset (Some fi))"
  using assms
  by (intro mirror_plain [OF readdir_answers, where q = "ReaddirRequest path (size_of_int offset) (wire_info fi)"])
     (auto simp: sc_readdir_def rbind_eq_Inr_conv split_beta with_info_def wire_info_def off_of_size_of_int
        replay_entries_narrow)

text \<open>Reads and writes take the stream of the path if there is one.\<close>

lemma read_reply_remote:
  assumes ok: "usable good ropen wopen st"
    and defined: "\<And>buf. \<exists>r s'. read_into ops q buf (srv (snd st)) = Inr (r, s')"
  shows "\<exists>r st' buf. read_reply stub path q st = (Some r, st') \<and>
    read_into ops q buf (srv (snd st)) = Inr (r, srv (snd st')) \<and> usable good ropen wopen st'"
proof -
  obtain c n where st: "st = (c, n)" by (cases st)
  show ?thesis
  proof (cases "fmlookup (sc_read_streams c) path")
    case None
    obtain r s' where r: "read_process ops q (srv n) = Inr (r, s')"
      using defined [of "[]"] st by (auto simp: read_process_def)
    obtain n1 where n1: "stub_Read stub q n = (Some r, n1)" "srv n1 = s'" "keeps n n1"
      using answersD [OF read_answers _ r] ok st by (auto simp: usable_def)
    have "usable good ropen wopen (c, n1)" using keeps_usable ok st n1(3) by blast
    from create_streams_usable [OF this, of path O_RDONLY] r n1(1,2) None show ?thesis
      by (auto simp: st read_reply_def read_sync_request_def read_process_def)
  next
    case (Some h)
    then have "ropen n h" "good n" using ok st by (auto simp: usable_def streams_of_def)
    then obtain buf r n1 n2 where "rs_Write stub h q n = (True, n1)" "rs_Read stub h n1 = (Some r, n2)"
      "read_into ops q buf (srv n) = Inr (r, srv n2)" "keeps n n2"
      using stream_read [of n h q] defined st by auto
    with Some keeps_usable [of c n n2] ok st show ?thesis
      by (auto simp: read_reply_def)
  qed
qed

lemma write_reply_remote:
  assumes ok: "usable good ropen wopen st"
    and r: "write_from ops q (srv (snd st)) = Inr (r, s')"
  shows "\<exists>st'. write_reply stub path q st = (Some r, st') \<and> srv (snd st') = s' \<and> usable good ropen wopen st'"
proof -
  obtain c n where st: "st = (c, n)" by (cases st)
  have r': "write_process ops q (srv n) = Inr (r, s')" using r st by (simp add: write_process_eq)
  show ?thesis
  proof (cases "fmlookup (sc_write_streams c) path")
    case None
    obtain n1 where n1: "stub_Write stub q n = (Some r, n1)" "srv n1 = s'" "keeps n n1"
      using answersD [OF write_answers _ r'] ok st by (auto simp: usable_def)
    have "usable good ropen wopen (c, n1)" using keeps_usable ok st n1(3) by blast
    from create_streams_usable [OF this, of path O_WRONLY] n1(1,2) None show ?thesis
      by (auto simp: st write_reply_def write_sync_request_def)
  next
    case (Some h)
    then have "wopen n h" "good n" using ok st by (auto simp: usable_def streams_of_def)
    then obtain n1 n2 where "ws_Write stub h q n = (True, n1)" "ws_Read stub h n1 = (Some r, n2)"
      "srv n2 = s'" "keeps n n2"
      using stream_write [of n h q r s'] r st by auto
    with Some keeps_usable [of c n n2] ok st show ?thesis
      by (auto simp: write_reply_def)
  qed
qed

lemma read_mirrors:
  assumes rd: "op_read ops = Some rd" "reads_prefix rd I" and ok: "usable good ropen wopen st"
    and I: "I (srv (snd st))" and buf: "length buf = sz"
  shows "\<exists>res buf' p s' st'. rd path buf sz offset (Some fi) (srv (snd st)) = Inr ((res, buf', p), s') \<and>
    sc_read stub path buf sz offset (Some fi) st = Inr ((res, buf', Some (pointee fi p)), st') \<and>
    srv (snd st') = s' \<and> I s' \<and> usable good ropen wopen st'"
proof (rule read_into_prefix [OF rd I, of sz path offset "wire_info fi"])
  fix res data p s'
  assume *: "I s'" "length data = nat res" "nat res \<le> sz"
    "\<And>b. length b = sz \<Longrightarrow> rd path b sz offset (Some (fill_fuse_file_info (wire_info fi) zero_file_info))
       (srv (snd st)) = Inr ((res, data @ drop (nat res) b, p), s')"
    "\<And>b. read_into ops (ReadRequest path sz offset (wire_info fi)) b (srv (snd st)) =
       Inr (ReadReply res (data @ drop (nat res) (resize b sz)) (fill_StructFuseFileInfo
         (pointee (fill_fuse_file_info (wire_info fi) zero_file_info) p) default_FuseFileInfo), s')"
  obtain st' b where st': "read_reply stub path (ReadRequest path sz offset (wire_info fi)) st =
      (Some (ReadReply res (data @ drop (nat res) (resize b sz)) (wire_info (pointee fi p))), st')"
    "srv (snd st') = s'" "usable good ropen wopen st'"
    using read_reply_remote [OF ok, of "ReadRequest path sz offset (wire_info fi)" path] *(5)
    by (auto simp: wire_info_def)
  have "sc_read stub path buf sz offset (Some fi) st =
      Inr ((res, data @ drop (nat res) buf, Some (pointee fi p)), st')"
    using *(2,3) buf by (auto simp: sc_read_def st'(1) mem_copy_def)
  with *(1) *(4) [OF buf] st'(2,3) show ?thesis by auto
qed

lemma write_mirrors:
  assumes "op_write ops = Some f" "sz \<le> length buf"
  shows "mirrors (usable good ropen wopen) srv
    (settle (fi\<lparr>fi_flush := 1\<rparr>) (f path (take sz buf) sz offset)) (sc_write stub path buf sz offset (Some fi))"
  unfolding mirrors_def
proof (intro allI impI)
  fix st a s'
  let ?fi = "fi\<lparr>fi_flush := 1\<rparr>"
  assume ok: "usable good ropen wopen st"
    and f: "settle ?fi (f path (take sz buf) sz offset) (srv (snd st)) = Inr (a, s')"
  obtain res p where a: "a = (res, p)" by (cases a)
  obtain fi' where fi': "with_info (wire_info ?fi) (f path (take sz buf) sz offset) (srv (snd st)) =
      Inr ((res, wire_info fi'), s')" "p = Some fi'"
    using with_info_wire [OF f [unfolded a]] by blast
  then have "write_from ops (WriteRequest path sz offset (take sz buf) (wire_info ?fi)) (srv (snd st)) =
      Inr (WriteReply res (wire_info fi'), s')"
    using assms(1) by simp
  from write_reply_remote [OF ok this, of path] fi'(2) a assms(2)
  show "\<exists>st'. sc_write stub path buf sz offset (Some fi) st = Inr (a, st') \<and> srv (snd st') = s' \<and>
      usable good ropen wopen st'"
    by (auto simp: sc_write_def)
qed

end

section \<open>A network that delivers\<close>

text \<open>
  The server's state, its open stream objects with the answers the client has not collected
  yet, and the next stream handle. A message is handed to the object's \<^verbatim>\<open>proceed\<close> at once; a
  call the server cannot complete ends with a status other than OK.
\<close>

record 's loopback_net =
  lb_srv :: 's
  lb_rstreams :: "(nat, stream_read_data \<times> ReadReply list) fmap"
  lb_wstreams :: "(nat, stream_write_data \<times> WriteReply list) fmap"
  lb_next :: nat

definition lb_call :: "('q \<Rightarrow> ('s, 'r) action) \<Rightarrow> ('s loopback_net, 'q, 'r) rpc" where
  "lb_call body q n =
     (case body q (lb_srv n) of
        Inl _ \<Rightarrow> (None, n)
      | Inr (r, s) \<Rightarrow> (Some r, n\<lparr>lb_srv := s\<rparr>))"

text \<open>The new object has seen the completion of its \<^verbatim>\<open>CREATE\<close> case.\<close>

definition lb_StreamRead :: "'s loopback_net \<Rightarrow> nat \<times> 's loopback_net" where
  "lb_StreamRead n =
     (lb_next n, n\<lparr>lb_rstreams := fmupd (lb_next n) (\<lparr>srd_status = S_READ, srd_reply_buf = []\<rparr>, []) (lb_rstreams n),
                   lb_next := Suc (lb_next n)\<rparr>)"

definition lb_StreamWrite :: "'s loopback_net \<Rightarrow> nat \<times> 's loopback_net" where
  "lb_StreamWrite n =
     (lb_next n, n\<lparr>lb_wstreams := fmupd (lb_next n) (\<lparr>swd_status = S_READ\<rparr>, []) (lb_wstreams n),
                   lb_next := Suc (lb_next n)\<rparr>)"

text \<open>A message, then the completion of the answer.\<close>

definition lb_rs_Write :: "('s, 'd) fuse_operations \<Rightarrow> nat \<Rightarrow> ReadRequest \<Rightarrow> 's loopback_net \<Rightarrow> bool \<times> 's loopback_net" where
  "lb_rs_Write ops h q n =
     (case fmlookup (lb_rstreams n) h of
        None \<Rightarrow> (False, n)
      | Some (obj, rs) \<Rightarrow>
          (case drive (stream_read_proceed ops) [(True, q), (True, q)] (Some obj) (lb_srv n) of
             Inr ((Some obj', _, [Issue_write r, Issue_read]), s) \<Rightarrow>
               (True, n\<lparr>lb_srv := s, lb_rstreams := fmupd h (obj', rs @ [r]) (lb_rstreams n)\<rparr>)
           | _ \<Rightarrow> (False, n)))"

definition lb_ws_Write :: "('s, 'd) fuse_operations \<Rightarrow> nat \<Rightarrow> WriteRequest \<Rightarrow> 's loopback_net \<Rightarrow> bool \<times> 's loopback_net" where
  "lb_ws_Write ops h q n =
     (case fmlookup (lb_wstreams n) h of
        None \<Rightarrow> (False, n)
      | Some (obj, rs) \<Rightarrow>
          (case drive (stream_write_proceed ops) [(True, q), (True, q)] (Some obj) (lb_srv n) of
             Inr ((Some obj', _, [Issue_write r, Issue_read]), s) \<Rightarrow>
               (True, n\<lparr>lb_srv := s, lb_wstreams := fmupd h (obj', rs @ [r]) (lb_wstreams n)\<rparr>)
           | _ \<Rightarrow> (False, n)))"

definition lb_rs_Read :: "nat \<Rightarrow> 's loopback_net \<Rightarrow> ReadReply option \<times> 's loopback_net" where
  "lb_rs_Read h n =
     (case fmlookup (lb_rstreams n) h of
        Some (obj, r # rs) \<Rightarrow> (Some r, n\<lparr>lb_rstreams := fmupd h (obj, rs) (lb_rstreams n)\<rparr>)
      | _ \<Rightarrow> (None, n))"

definition lb_ws_Read :: "nat \<Rightarrow> 's loopback_net \<Rightarrow> WriteReply option \<times> 's loopback_net" where
  "lb_ws_Read h n =
     (case fmlookup (lb_wstreams n) h of
        Some (obj, r # rs) \<Rightarrow> (Some r, n\<lparr>lb_wstreams := fmupd h (obj, rs) (lb_wstreams n)\<rparr>)
      | _ \<Rightarrow> (None, n))"

definition loopback :: "('s, dir_info) fuse_operations \<Rightarrow> ('s loopback_net, nat) stub" where
  "loopback ops = \<lparr>
     stub_Getattr = lb_call (getattr_process ops),
     stub_Fgetattr = lb_call (fgetattr_process ops),
     stub_Access = lb_call (access_process ops),
     stub_Readlink = lb_call (readlink_process ops),
     stub_Opendir = lb_call (opendir_process ops),
     stub_Readdir = lb_call (readdir_process ops),
     stub_Releasedir = lb_call (releasedir_process ops),
     stub_Mknod = lb_call (mknod_process ops),
     stub_Mkdir = lb_call (mkdir_process ops),
     stub_Symlink = lb_call (symlink_process ops),
     stub_Unlink = lb_call (unlink_process ops),
     stub_Rmdir = lb_call (rmdir_process ops),
     stub_Rename = lb_call (rename_process ops),
     stub_Link = lb_call (link_process ops),
     stub_Chmod = lb_call (chmod_process ops),
     stub_Chown = lb_call (chown_process ops),
     stub_Truncate = lb_call (truncate_process ops),
     stub_Ftruncate = lb_call (ftruncate_process ops),
     stub_Utimens = lb_call (utimens_process ops),
     stub_Create = lb_call (create_process ops),
     stub_Open = lb_call (open_process ops),
     stub_Read = lb_call (read_process ops),
     stub_Write = lb_call (write_process ops),
     stub_Statfs = lb_call (statfs_process ops),
     stub_Flush = lb_call (flush_process ops),
     stub_Release = lb_call (release_process ops),
     stub_Fsync = lb_call (fsync_process ops),
     stub_Fallocate = lb_call (fallocate_process ops),
     stub_Setxattr = lb_call (setxattr_process ops),
     stub_Getxattr = lb_call (getxattr_process ops),
     stub_Listxattr = lb_call (listxattr_process ops),
     stub_Removexattr = lb_call (removexattr_process ops),
     stub_StreamRead = lb_StreamRead,
     rs_Write = lb_rs_Write ops,
     rs_Read = lb_rs_Read,
     rs_WritesDone = (\<lambda>h n. n\<lparr>lb_rstreams := fmdrop h (lb_rstreams n)\<rparr>),
     stub_StreamWrite = lb_StreamWrite,
     ws_Write = lb_ws_Write ops,
     ws_Read = lb_ws_Read,
     ws_WritesDone = (\<lambda>h n. n\<lparr>lb_wstreams := fmdrop h (lb_wstreams n)\<rparr>)\<rparr>"

definition lb_good :: "'s loopback_net \<Rightarrow> bool" where
  "lb_good n \<longleftrightarrow> (\<forall>h. lb_next n \<le> h \<longrightarrow>
     fmlookup (lb_rstreams n) h = None \<and> fmlookup (lb_wstreams n) h = None)"

definition lb_ropen :: "'s loopback_net \<Rightarrow> nat \<Rightarrow> bool" where
  "lb_ropen n h \<longleftrightarrow> (\<exists>obj. fmlookup (lb_rstreams n) h = Some (obj, []) \<and> srd_status obj = S_READ)"

definition lb_wopen :: "'s loopback_net \<Rightarrow> nat \<Rightarrow> bool" where
  "lb_wopen n h \<longleftrightarrow> (\<exists>obj. fmlookup (lb_wstreams n) h = Some (obj, []) \<and> swd_status obj = S_READ)"

definition lb_keeps :: "'s loopback_net \<Rightarrow> 's loopback_net \<Rightarrow> bool" where
  "lb_keeps n n' \<longleftrightarrow> lb_good n' \<and> (\<forall>h. lb_ropen n h \<longrightarrow> lb_ropen n' h) \<and> (\<forall>h. lb_wopen n h \<longrightarrow> lb_wopen n' h)"

lemma lb_call_answers: "answers lb_good lb_keeps lb_srv (lb_call body) body"
  by (auto simp: answers_def lb_call_def lb_keeps_def lb_good_def lb_ropen_def lb_wopen_def)

lemma lb_StreamRead_opens:
  assumes "lb_good n" "lb_StreamRead n = (h, n')"
  shows "lb_srv n' = lb_srv n \<and> lb_keeps n n' \<and> lb_ropen n' h \<and> \<not> lb_ropen n h"
  using assms by (auto simp: lb_StreamRead_def lb_keeps_def lb_good_def lb_ropen_def lb_wopen_def)

lemma lb_StreamWrite_opens:
  assumes "lb_good n" "lb_StreamWrite n = (h, n')"
  shows "lb_srv n' = lb_srv n \<and> lb_keeps n n' \<and> lb_wopen n' h \<and> \<not> lb_wopen n h"
  using assms by (auto simp: lb_StreamWrite_def lb_keeps_def lb_good_def lb_ropen_def lb_wopen_def)

lemma lb_keeps_rstream:
  assumes "lb_good n" "lb_ropen n h" "srd_status obj = S_READ"
  shows "lb_keeps n (n\<lparr>lb_srv := s, lb_rstreams := fmupd h (obj, []) (lb_rstreams n)\<rparr>)"
  using assms by (auto simp: lb_keeps_def lb_good_def lb_ropen_def lb_wopen_def)

lemma lb_keeps_wstream:
  assumes "lb_good n" "lb_wopen n h" "swd_status obj = S_READ"
  shows "lb_keeps n (n\<lparr>lb_srv := s, lb_wstreams := fmupd h (obj, []) (lb_wstreams n)\<rparr>)"
  using assms by (auto simp: lb_keeps_def lb_good_def lb_ropen_def lb_wopen_def)

lemma lb_stream_read:
  assumes n: "lb_good n" "lb_ropen n h" and r: "\<And>buf. \<exists>r s'. read_into ops q buf (lb_srv n) = Inr (r, s')"
  shows "\<exists>buf r n1 n2. lb_rs_Write ops h q n = (True, n1) \<and> lb_rs_Read h n1 = (Some r, n2) \<and>
    read_into ops q buf (lb_srv n) = Inr (r, lb_srv n2) \<and> lb_keeps n n2"
proof -
  obtain obj where obj: "fmlookup (lb_rstreams n) h = Some (obj, [])" "srd_status obj = S_READ"
    using n(2) by (auto simp: lb_ropen_def)
  obtain r s' where r: "read_into ops q (srd_reply_buf obj) (lb_srv n) = Inr (r, s')"
    using r by blast
  define obj' where "obj' = obj\<lparr>srd_reply_buf := reply_buf r, srd_status := S_READ\<rparr>"
  have w: "lb_rs_Write ops h q n =
      (True, n\<lparr>lb_srv := s', lb_rstreams := fmupd h (obj', [r]) (lb_rstreams n)\<rparr>)"
    by (simp add: lb_rs_Write_def obj stream_read_proceed_def r obj'_def)
  have rd: "lb_rs_Read h (n\<lparr>lb_srv := s', lb_rstreams := fmupd h (obj', [r]) (lb_rstreams n)\<rparr>) =
      (Some r, n\<lparr>lb_srv := s', lb_rstreams := fmupd h (obj', []) (lb_rstreams n)\<rparr>)"
    by (simp add: lb_rs_Read_def)
  have "lb_keeps n (n\<lparr>lb_srv := s', lb_rstreams := fmupd h (obj', []) (lb_rstreams n)\<rparr>)"
    by (rule lb_keeps_rstream [OF n]) (simp add: obj'_def)
  with w rd r show ?thesis by (intro exI conjI) auto
qed

lemma lb_stream_write:
  assumes n: "lb_good n" "lb_wopen n h" and r: "write_from ops q (lb_srv n) = Inr (r, s')"
  shows "\<exists>n1 n2. lb_ws_Write ops h q n = (True, n1) \<and> lb_ws_Read h n1 = (Some r, n2) \<and>
    lb_srv n2 = s' \<and> lb_keeps n n2"
proof -
  obtain obj where obj: "fmlookup (lb_wstreams n) h = Some (obj, [])" "swd_status obj = S_READ"
    using n(2) by (auto simp: lb_wopen_def)
  have w: "lb_ws_Write ops h q n =
      (True, n\<lparr>lb_srv := s', lb_wstreams := fmupd h (obj\<lparr>swd_status := S_READ\<rparr>, [r]) (lb_wstreams n)\<rparr>)"
    by (simp add: lb_ws_Write_def obj stream_write_proceed_def r)
  have rd: "lb_ws_Read h (n\<lparr>lb_srv := s', lb_wstreams := fmupd h (obj\<lparr>swd_status := S_READ\<rparr>, [r]) (lb_wstreams n)\<rparr>) =
      (Some r, n\<lparr>lb_srv := s', lb_wstreams := fmupd h (obj\<lparr>swd_status := S_READ\<rparr>, []) (lb_wstreams n)\<rparr>)"
    by (simp add: lb_ws_Read_def)
  have "lb_keeps n (n\<lparr>lb_srv := s', lb_wstreams := fmupd h (obj\<lparr>swd_status := S_READ\<rparr>, []) (lb_wstreams n)\<rparr>)"
    by (rule lb_keeps_wstream [OF n]) simp
  with w rd show ?thesis by (intro exI conjI) auto
qed

lemma loopback_sel [simp]:
  "stub_Getattr (loopback ops) = lb_call (getattr_process ops)"
  "stub_Fgetattr (loopback ops) = lb_call (fgetattr_process ops)"
  "stub_Access (loopback ops) = lb_call (access_process ops)"
  "stub_Readlink (loopback ops) = lb_call (readlink_process ops)"
  "stub_Opendir (loopback ops) = lb_call (opendir_process ops)"
  "stub_Readdir (loopback ops) = lb_call (readdir_process ops)"
  "stub_Releasedir (loopback ops) = lb_call (releasedir_process ops)"
  "stub_Mknod (loopback ops) = lb_call (mknod_process ops)"
  "stub_Mkdir (loopback ops) = lb_call (mkdir_process ops)"
  "stub_Symlink (loopback ops) = lb_call (symlink_process ops)"
  "stub_Unlink (loopback ops) = lb_call (unlink_process ops)"
  "stub_Rmdir (loopback ops) = lb_call (rmdir_process ops)"
  "stub_Rename (loopback ops) = lb_call (rename_process ops)"
  "stub_Link (loopback ops) = lb_call (link_process ops)"
  "stub_Chmod (loopback ops) = lb_call (chmod_process ops)"
  "stub_Chown (loopback ops) = lb_call (chown_process ops)"
  "stub_Truncate (loopback ops) = lb_call (truncate_process ops)"
  "stub_Ftruncate (loopback ops) = lb_call (ftruncate_process ops)"
  "stub_Utimens (loopback ops) = lb_call (utimens_process ops)"
  "stub_Create (loopback ops) = lb_call (create_process ops)"
  "stub_Open (loopback ops) = lb_call (open_process ops)"
  "stub_Read (loopback ops) = lb_call (read_process ops)"
  "stub_Write (loopback ops) = lb_call (write_process ops)"
  "stub_Statfs (loopback ops) = lb_call (statfs_process ops)"
  "stub_Flush (loopback ops) = lb_call (flush_process ops)"
  "stub_Release (loopback ops) = lb_call (release_process ops)"
  "stub_Fsync (loopback ops) = lb_call (fsync_process ops)"
  "stub_Fallocate (loopback ops) = lb_call (fallocate_process ops)"
  "stub_Setxattr (loopback ops) = lb_call (setxattr_process ops)"
  "stub_Getxattr (loopback ops) = lb_call (getxattr_process ops)"
  "stub_Listxattr (loopback ops) = lb_call (listxattr_process ops)"
  "stub_Removexattr (loopback ops) = lb_call (removexattr_process ops)"
  "stub_StreamRead (loopback ops) = lb_StreamRead"
  "stub_StreamWrite (loopback ops) = lb_StreamWrite"
  "rs_Read (loopback ops) = lb_rs_Read"
  "ws_Read (loopback ops) = lb_ws_Read"
  "rs_Write (loopback ops) = lb_rs_Write ops"
  "ws_Write (loopback ops) = lb_ws_Write ops"
  "rs_WritesDone (loopback ops) = (\<lambda>h n. n\<lparr>lb_rstreams := fmdrop h (lb_rstreams n)\<rparr>)"
  "ws_WritesDone (loopback ops) = (\<lambda>h n. n\<lparr>lb_wstreams := fmdrop h (lb_wstreams n)\<rparr>)"
  by (simp_all add: loopback_def)

lemma lb_close_read:
  assumes "lb_good n"
  shows "lb_srv (n\<lparr>lb_rstreams := fmdrop h (lb_rstreams n)\<rparr>) = lb_srv n \<and>
    lb_good (n\<lparr>lb_rstreams := fmdrop h (lb_rstreams n)\<rparr>) \<and>
    (\<forall>h'. h' \<noteq> h \<longrightarrow> lb_ropen n h' \<longrightarrow> lb_ropen (n\<lparr>lb_rstreams := fmdrop h (lb_rstreams n)\<rparr>) h') \<and>
    (\<forall>h'. lb_wopen n h' \<longrightarrow> lb_wopen (n\<lparr>lb_rstreams := fmdrop h (lb_rstreams n)\<rparr>) h')"
  using assms by (auto simp: lb_good_def lb_ropen_def lb_wopen_def)

lemma lb_close_write:
  assumes "lb_good n"
  shows "lb_srv (n\<lparr>lb_wstreams := fmdrop h (lb_wstreams n)\<rparr>) = lb_srv n \<and>
    lb_good (n\<lparr>lb_wstreams := fmdrop h (lb_wstreams n)\<rparr>) \<and>
    (\<forall>h'. h' \<noteq> h \<longrightarrow> lb_wopen n h' \<longrightarrow> lb_wopen (n\<lparr>lb_wstreams := fmdrop h (lb_wstreams n)\<rparr>) h') \<and>
    (\<forall>h'. lb_ropen n h' \<longrightarrow> lb_ropen (n\<lparr>lb_wstreams := fmdrop h (lb_wstreams n)\<rparr>) h')"
  using assms by (auto simp: lb_good_def lb_ropen_def lb_wopen_def)

interpretation loop: remote_service "loopback ops" ops lb_srv lb_good lb_ropen lb_wopen lb_keeps for ops
proof (unfold_locales, goal_cases)
  case (4 n h n') then show ?case by (intro lb_StreamRead_opens) simp_all
next
  case (5 n h n') then show ?case by (intro lb_StreamWrite_opens) simp_all
next
  case (6 n h) then show ?case unfolding loopback_sel by (intro lb_close_read)
next
  case (7 n h) then show ?case unfolding loopback_sel by (intro lb_close_write)
next
  case (8 n h q) then show ?case unfolding loopback_sel by (intro lb_stream_read)
next
  case (9 n h wq wr s') then show ?case unfolding loopback_sel by (intro lb_stream_write)
qed (auto simp: lb_keeps_def lb_call_answers)

section \<open>Properties\<close>

text \<open>A call through the server's table, and the comparison on the network above.\<close>

definition direct :: "'f option \<Rightarrow> ('f \<Rightarrow> ('s, 'a) action) \<Rightarrow> ('s, 'a) action" where
  "direct p k s = rbind (fn p) (\<lambda>f. k f s)"

definition remote_mirrors :: "('s, 'a) action \<Rightarrow> (('s loopback_net, nat) client_state, 'a) action \<Rightarrow> bool" where
  "remote_mirrors f g \<longleftrightarrow> mirrors (usable lb_good lb_ropen lb_wopen) lb_srv f g"

lemma remote_direct:
  "(\<And>f. p = Some f \<Longrightarrow> mirrors (usable lb_good lb_ropen lb_wopen) lb_srv (k f) g) \<Longrightarrow> remote_mirrors (direct p k) g"
  by (cases p) (simp_all add: remote_mirrors_def mirrors_def direct_def)

text \<open>
  C32. Operations on names through client and server are the operations of the server's table:
  whenever the direct call returns a result, the client's operation on a usable connection
  returns the same result, leaves the server's file system in the same state and the
  connection usable. One statement for each of the twelve operations.
\<close>

theorem remote_name_operations:
  "remote_mirrors (direct (op_access ops) (\<lambda>f. f path msk)) (sc_access (loopback ops) path msk) \<and>
   remote_mirrors (direct (op_mknod ops) (\<lambda>f. f path mode rdev)) (sc_mknod (loopback ops) path mode rdev) \<and>
   remote_mirrors (direct (op_mkdir ops) (\<lambda>f. f path mode)) (sc_mkdir (loopback ops) path mode) \<and>
   remote_mirrors (direct (op_symlink ops) (\<lambda>f. f src dst)) (sc_symlink (loopback ops) src dst) \<and>
   remote_mirrors (direct (op_unlink ops) (\<lambda>f. f path)) (sc_unlink (loopback ops) path) \<and>
   remote_mirrors (direct (op_rmdir ops) (\<lambda>f. f path)) (sc_rmdir (loopback ops) path) \<and>
   remote_mirrors (direct (op_rename ops) (\<lambda>f. f src dst)) (sc_rename (loopback ops) src dst) \<and>
   remote_mirrors (direct (op_link ops) (\<lambda>f. f src dst)) (sc_link (loopback ops) src dst) \<and>
   remote_mirrors (direct (op_chmod ops) (\<lambda>f. f path mode)) (sc_chmod (loopback ops) path mode) \<and>
   remote_mirrors (direct (op_chown ops) (\<lambda>f. f path uid gid)) (sc_chown (loopback ops) path uid gid) \<and>
   remote_mirrors (direct (op_utimens ops) (\<lambda>f. f path ts0 ts1)) (sc_utimens (loopback ops) path ts0 ts1) \<and>
   remote_mirrors (direct (op_removexattr ops) (\<lambda>f. f path name)) (sc_removexattr (loopback ops) path name)"
  by (intro conjI remote_direct loop.access_mirrors loop.mknod_mirrors loop.mkdir_mirrors
      loop.symlink_mirrors loop.unlink_mirrors loop.rmdir_mirrors loop.rename_mirrors loop.link_mirrors
      loop.chmod_mirrors loop.chown_mirrors loop.utimens_mirrors loop.removexattr_mirrors)

text \<open>
  C33. Operations on open files through client and server: same result, same effect, and the
  caller's \<^verbatim>\<open>fuse_file_info\<close> ends as a direct call with its address leaves it; the sizes of the
  truncations are those of \<^verbatim>\<open>off_t\<close>. Opening and creating add the path's streams, releasing
  removes them, and the connection stays usable.
\<close>

theorem remote_file_operations:
  assumes "- (2 ^ 63) \<le> sz" "sz < 2 ^ 63"
  shows
  "remote_mirrors (direct (op_open ops) (\<lambda>f. settle fi (f path))) (sc_open (loopback ops) path (Some fi)) \<and>
   remote_mirrors (direct (op_create ops) (\<lambda>f. settle fi (f path mode))) (sc_create (loopback ops) path mode (Some fi)) \<and>
   remote_mirrors (direct (op_release ops) (\<lambda>f. settle fi (f path))) (sc_release (loopback ops) path (Some fi)) \<and>
   remote_mirrors (direct (op_flush ops) (\<lambda>f. settle fi (f path))) (sc_flush (loopback ops) path (Some fi)) \<and>
   remote_mirrors (direct (op_fsync ops) (\<lambda>f. settle fi (f path ds))) (sc_fsync (loopback ops) path ds (Some fi)) \<and>
   remote_mirrors (direct (op_fallocate ops) (\<lambda>f. settle fi (f path m off len)))
     (sc_fallocate (loopback ops) path m off len (Some fi)) \<and>
   remote_mirrors (direct (op_opendir ops) (\<lambda>f. settle fi (f path))) (sc_opendir (loopback ops) path (Some fi)) \<and>
   remote_mirrors (direct (op_releasedir ops) (\<lambda>f. settle fi (f path))) (sc_releasedir (loopback ops) path (Some fi)) \<and>
   remote_mirrors (direct (op_ftruncate ops) (\<lambda>f. settle fi (f path sz))) (sc_ftruncate (loopback ops) path sz (Some fi)) \<and>
   remote_mirrors (direct (op_truncate ops) (\<lambda>f. f path sz)) (sc_truncate (loopback ops) path sz)"
  by (intro conjI remote_direct loop.open_mirrors loop.create_mirrors loop.release_mirrors loop.flush_mirrors
      loop.fsync_mirrors loop.fallocate_mirrors loop.opendir_mirrors loop.releasedir_mirrors
      loop.ftruncate_mirrors [OF assms] loop.truncate_mirrors [OF assms])

text \<open>A server whose operations count how often they are called, and a client without streams.\<close>

definition counting_ops :: "(nat, dir_info) fuse_operations" where
  "counting_ops = null_operations\<lparr>
     op_truncate := Some (\<lambda>path sz n. Inr (0, Suc n)),
     op_read := Some (const_read ''hello''),
     op_write := Some (\<lambda>path buf sz off fi n. Inr ((int sz, fi), Suc n)),
     op_getxattr := Some (\<lambda>path name buf sz n. Inr ((5, buf), n)),
     op_readdir := Some (\<lambda>path di filler off fi n.
        Inr ((0, snd (filler (snd (filler di ''.'' zero_stat 0)) ''a'' zero_stat 0), fi), n))\<rparr>"

definition idle_client :: "(nat loopback_net, nat) client_state" where
  "idle_client = (\<lparr>sc_read_streams = fmempty, sc_write_streams = fmempty\<rparr>,
     \<lparr>lb_srv = 0, lb_rstreams = fmempty, lb_wstreams = fmempty, lb_next = 0\<rparr>)"

lemma idle_client_usable: "usable lb_good lb_ropen lb_wopen idle_client"
  by (simp add: idle_client_def usable_def lb_good_def streams_of_def)

theorem remote_file_operations_witness:
  "\<exists>st'. sc_truncate (loopback counting_ops) ''/a'' 10 idle_client = Inr (0, st') \<and> lb_srv (snd st') = 1"
proof -
  have "remote_mirrors (direct (op_truncate counting_ops) (\<lambda>f. f ''/a'' 10)) (sc_truncate (loopback counting_ops) ''/a'' 10)"
    using remote_file_operations [of 10 counting_ops zero_file_info "''/a''" 0 0 0 0 0] by simp
  then show ?thesis
    using idle_client_usable unfolding remote_mirrors_def mirrors_def
    by (fastforce simp: direct_def counting_ops_def null_operations_def idle_client_def)
qed

text \<open>
  C34. Attributes through client and server: same result and effect, and the caller's
  \<^verbatim>\<open>struct stat\<close> or \<^verbatim>\<open>struct statvfs\<close>, whatever it held, ends as the one the server's operation
  filled, narrowed to what the wire carries.
\<close>

theorem remote_attributes:
  "remote_mirrors (direct (op_getattr ops) (\<lambda>f s. rbind (f path zero_stat s) (\<lambda>((res, st), s1).
      Inr ((res, narrow_stat st), s1)))) (sc_getattr (loopback ops) path stbuf) \<and>
   remote_mirrors (direct (op_fgetattr ops) (\<lambda>f s. rbind (f path zero_stat (Some fi) s) (\<lambda>((res, st, p), s1).
      Inr ((res, narrow_stat st, Some (pointee fi p)), s1)))) (sc_fgetattr (loopback ops) path stbuf (Some fi)) \<and>
   remote_mirrors (direct (op_statfs ops) (\<lambda>f s. rbind (f path zero_statvfs s) (\<lambda>((res, st), s1).
      Inr ((res, narrow_statvfs st), s1)))) (sc_statfs (loopback ops) path vbuf)"
  by (intro conjI remote_direct loop.getattr_mirrors loop.fgetattr_mirrors loop.statfs_mirrors)

text \<open>
  C35. A read through client and server, over the path's stream or by a plain call, returns
  what the server's read operation returns when it is given the caller's own buffer: the same
  result, buffer, file information and state of the server, for every operation that fills a
  prefix of its buffer; and the connection stays usable.
\<close>

theorem remote_read:
  assumes "op_read ops = Some rd" "reads_prefix rd I" "usable lb_good lb_ropen lb_wopen st"
    "I (lb_srv (snd st))" "length buf = sz"
  shows "\<exists>res buf' p s' st'. rd path buf sz offset (Some fi) (lb_srv (snd st)) = Inr ((res, buf', p), s') \<and>
    sc_read (loopback ops) path buf sz offset (Some fi) st = Inr ((res, buf', Some (pointee fi p)), st') \<and>
    lb_srv (snd st') = s' \<and> I s' \<and> usable lb_good lb_ropen lb_wopen st'"
  by (rule loop.read_mirrors [OF assms])

theorem remote_read_witness:
  "\<exists>st'. sc_read (loopback counting_ops) ''/f'' (replicate 4 CHR ''x'') 4 3 (Some zero_file_info) idle_client =
     Inr ((2, ''loxx'', Some zero_file_info), st') \<and> usable lb_good lb_ropen lb_wopen st'"
  using remote_read [of counting_ops "const_read ''hello''" "\<lambda>_. True" idle_client "replicate 4 CHR ''x''" 4 "''/f''" 3
      zero_file_info, OF _ const_read_reads_prefix idle_client_usable]
  by (auto simp: counting_ops_def null_operations_def const_read_def fslice_def pointee_def numeral_eq_Suc)

text \<open>
  C36. A write through client and server hands the server's operation exactly the first \<open>sz\<close>
  bytes, the offset and the file information marked with \<^verbatim>\<open>flush\<close>, once, over the path's stream or
  by a plain call; result, information and effect are those of that operation.
\<close>

theorem remote_write:
  assumes "sz \<le> length buf"
  shows "remote_mirrors (direct (op_write ops) (\<lambda>f. settle (fi\<lparr>fi_flush := 1\<rparr>) (f path (take sz buf) sz offset)))
    (sc_write (loopback ops) path buf sz offset (Some fi))"
  by (intro remote_direct loop.write_mirrors assms)

theorem remote_write_witness:
  "\<exists>st'. sc_write (loopback counting_ops) ''/f'' ''abc'' 2 0 (Some zero_file_info) idle_client =
     Inr ((2, Some (zero_file_info\<lparr>fi_flush := 1\<rparr>)), st') \<and> lb_srv (snd st') = 1"
proof -
  have "remote_mirrors (direct (op_write counting_ops)
      (\<lambda>f. settle (zero_file_info\<lparr>fi_flush := 1\<rparr>) (f ''/f'' (take 2 ''abc'') 2 0)))
    (sc_write (loopback counting_ops) ''/f'' ''abc'' 2 0 (Some zero_file_info))"
    by (rule remote_write) simp
  then show ?thesis
    using idle_client_usable unfolding remote_mirrors_def mirrors_def
    by (fastforce simp: direct_def counting_ops_def null_operations_def idle_client_def settle_def pointee_def)
qed

text \<open>
  C37. Reading a directory through client and server: the client's callback receives, in order,
  the entries the server's operation handed to its own callback, until it asks to stop; only
  their attributes are narrowed by the wire. Result, file information and effect are the
  server's.
\<close>

theorem remote_readdir:
  assumes "- (2 ^ 63) \<le> offset" "offset < 2 ^ 63"
  shows "remote_mirrors (direct (op_readdir ops) (\<lambda>f s. rbind (f path [] rpc_filler offset (Some fi) s)
      (\<lambda>((res, es, p), s1). Inr ((res, fill_until filler (map narrow_entry es) buf, Some (pointee fi p)), s1))))
    (sc_readdir (loopback ops) path buf filler offset (Some fi))"
  by (intro remote_direct loop.readdir_mirrors assms)

theorem remote_readdir_witness:
  "\<exists>st'. sc_readdir (loopback counting_ops) ''/'' [] (\<lambda>xs name st off. (1, xs @ [name])) 0 (Some zero_file_info) idle_client =
     Inr ((0, [''.''], Some zero_file_info), st')"
proof -
  let ?filler = "\<lambda>xs name (st :: stat) (off :: int). (1 :: int, xs @ [name :: string])"
  have "remote_mirrors (direct (op_readdir counting_ops) (\<lambda>f s. rbind (f ''/'' [] rpc_filler 0 (Some zero_file_info) s)
      (\<lambda>((res, es, p), s1). Inr ((res, fill_until ?filler (map narrow_entry es) [], Some (pointee zero_file_info p)), s1))))
    (sc_readdir (loopback counting_ops) ''/'' [] ?filler 0 (Some zero_file_info))"
    by (rule remote_readdir) simp_all
  then show ?thesis
    using idle_client_usable unfolding remote_mirrors_def mirrors_def
    by (fastforce simp: direct_def counting_ops_def null_operations_def idle_client_def pointee_def rpc_filler_def
        narrow_entry_def)
qed

text \<open>
  C38. Asking for the size of an extended attribute, a call with a buffer of size 0, runs out of
  bounds in the client: whenever the attribute is not empty, \<^verbatim>\<open>getxattr\<close> copies as many bytes as
  the result announces into the caller's empty buffer.
\<close>

theorem getxattr_size_query_overruns:
  assumes "op_getxattr ops = Some f" "f path name [] 0 (lb_srv n) = Inr ((res, data), s')" "0 < res"
  shows "sc_getxattr (loopback ops) path name [] 0 (c, n) = Inl Out_of_bounds"
  using assms by (simp add: sc_getxattr_def lb_call_def resize_def mem_copy_def)

theorem getxattr_size_query_overruns_witness:
  "sc_getxattr (loopback counting_ops) ''/f'' ''user.a'' [] 0 idle_client = Inl Out_of_bounds"
  unfolding idle_client_def
  by (rule getxattr_size_query_overruns) (auto simp: counting_ops_def null_operations_def)

text \<open>The fallback of a broken stream, on a network whose read streams refuse every message.\<close>

theorem broken_read_stream_falls_back_witness:
  "\<exists>c' n'. sc_read ((loopback counting_ops)\<lparr>rs_Write := \<lambda>h q n. (False, n)\<rparr>) ''/f'' ''xxxx'' 4 3 (Some zero_file_info)
      ((fst idle_client)\<lparr>sc_read_streams := fmupd ''/f'' 0 fmempty\<rparr>, snd idle_client) =
    Inr ((2, ''loxx'', Some zero_file_info), c', n') \<and> ''/f'' \<in> fmdom' (sc_read_streams c')"
proof -
  let ?stub = "(loopback counting_ops)\<lparr>rs_Write := \<lambda>h q n. (False, n)\<rparr>"
  let ?c = "(fst idle_client)\<lparr>sc_read_streams := fmupd ''/f'' 0 fmempty\<rparr>"
  let ?q = "ReadRequest ''/f'' 4 3 (wire_info zero_file_info)"
  have "stub_Read ?stub ?q (snd (remove_streams ?stub ''/f'' (?c, snd idle_client))) =
      (Some (ReadReply 2 (''lo'' @ [CHR 0x00, CHR 0x00]) (wire_info zero_file_info)), snd idle_client)"
    by (simp add: idle_client_def remove_streams_def lb_call_def read_process_def counting_ops_def null_operations_def
        with_info_def const_read_def fslice_def pointee_def resize_def wire_info_def numeral_eq_Suc)
  from broken_read_stream_falls_back [where stub = ?stub and c = ?c and path = "''/f''" and h = 0 and q = ?q
      and sz = 4 and offset = 3 and f = zero_file_info and n = "snd idle_client" and nb = "snd idle_client"
      and buf = "''xxxx''", OF _ refl _ this]
  show ?thesis by (auto simp: numeral_eq_Suc)
qed

end
