(* ===== verification/Channel.thy ===== *)
theory Channel
  imports Prelude
begin

text \<open>
  The message channel between threads (\<^verbatim>\<open>include/rsafefs/fuse_rpc/grpc/channel.hpp\<close>). Every
  member function holds the mutex from its first to its last access of the queue, so an
  execution is a sequence of whole operations; \<^verbatim>\<open>receive\<close> waits while the queue is empty, that
  is, it is not enabled there.
\<close>

type_synonym 'a channel = "'a list"

definition channel_new :: "'a channel" where
  "channel_new = []"

definition send :: "'a \<Rightarrow> 'a channel \<Rightarrow> 'a channel" where
  "send item q = q @ [item]"

definition receive :: "'a channel \<Rightarrow> ('a \<times> 'a channel) option" where
  "receive q = (case q of [] \<Rightarrow> None | item # q' \<Rightarrow> Some (item, q'))"

definition n_pending_messages :: "'a channel \<Rightarrow> nat" where
  "n_pending_messages q = length q"

definition has_pending_messages :: "'a channel \<Rightarrow> bool" where
  "has_pending_messages q \<longleftrightarrow> q \<noteq> []"

section \<open>First in, first out\<close>

text \<open>What the users of a channel rely on, over an abstract list of pending messages.\<close>

locale fifo =
  fixes empty :: "'q"
    and put :: "'a \<Rightarrow> 'q \<Rightarrow> 'q"
    and get :: "'q \<Rightarrow> ('a \<times> 'q) option"
    and pending :: "'q \<Rightarrow> 'a list"
  assumes pending_empty [simp]: "pending empty = []"
    and pending_put [simp]: "pending (put a q) = pending q @ [a]"
    and get_None: "get q = None \<longleftrightarrow> pending q = []"
    and get_Some: "get q = Some (a, q') \<Longrightarrow> pending q = a # pending q'"

text \<open>A history of a channel: the messages sent and received so far and the channel.\<close>

inductive channel_history :: "'q \<Rightarrow> ('a \<Rightarrow> 'q \<Rightarrow> 'q) \<Rightarrow> ('q \<Rightarrow> ('a \<times> 'q) option)
    \<Rightarrow> 'a list \<Rightarrow> 'a list \<Rightarrow> 'q \<Rightarrow> bool"
  for empty put get where
  start: "channel_history empty put get [] [] empty"
| sent: "channel_history empty put get ss rs q \<Longrightarrow> channel_history empty put get (ss @ [a]) rs (put a q)"
| received: "channel_history empty put get ss rs q \<Longrightarrow> get q = Some (a, q') \<Longrightarrow>
    channel_history empty put get ss (rs @ [a]) q'"

context fifo
begin

lemma history_pending: "channel_history empty put get ss rs q \<Longrightarrow> ss = rs @ pending q"
  by (induction rule: channel_history.induct) (auto dest: get_Some)

lemma never_stuck: "channel_history empty put get ss rs q \<Longrightarrow> length rs < length ss \<Longrightarrow> get q \<noteq> None"
  using history_pending [of ss rs q] by (auto simp: get_None)

end

interpretation chan: fifo channel_new send receive "\<lambda>q. q"
  by unfold_locales (auto simp: channel_new_def send_def receive_def split: list.splits)

section \<open>Properties\<close>

text \<open>
  The channel delivers messages in the order they were sent, each once: under every
  interleaving of senders and receivers the messages sent are those received followed by
  those pending, and a receiver waits only if every message sent has been received.
\<close>

theorem channel_is_fifo:
  assumes "channel_history channel_new send receive ss rs q"
  shows "ss = rs @ q \<and> n_pending_messages q = length ss - length rs \<and>
    (has_pending_messages q \<longleftrightarrow> length rs < length ss) \<and> (receive q = None \<longleftrightarrow> rs = ss)"
  using chan.history_pending [OF assms]
  by (auto simp: n_pending_messages_def has_pending_messages_def chan.get_None)

theorem channel_is_fifo_witness:
  "channel_history channel_new send receive [1, 2 :: nat] [1] [2] \<and> [1, 2 :: nat] = [1] @ [2]"
proof -
  have "channel_history channel_new send receive ([] @ [1 :: nat]) [] (send 1 channel_new)"
    by (intro channel_history.intros)
  then have "channel_history channel_new send receive (([] @ [1 :: nat]) @ [2]) [] (send 2 (send 1 channel_new))"
    by (rule channel_history.sent)
  then have "channel_history channel_new send receive (([] @ [1 :: nat]) @ [2]) ([] @ [1]) [2]"
    by (rule channel_history.received) (simp add: receive_def send_def channel_new_def)
  then show ?thesis using channel_is_fifo [of "[1, 2 :: nat]" "[1]" "[2]"] by simp
qed

end
