(* ===== verification/Async_Client.thy ===== *)
theory Async_Client
  imports Channel Rpc_Server Sync_Client
begin

text \<open>
  The asynchronous client (\<^verbatim>\<open>lib/fuse_rpc/grpc/async_client.cpp\<close>): writes are queued as blocks
  and return at once; a flush hands the queue to a call object, the scheduler thread lets one
  call at a time talk to the server, and a call sends its blocks in order over one stream,
  merging neighbouring ones up to a maximal size. The threads interact through a channel of
  events, two mutexes and the promises of the calls.
\<close>

section \<open>Blocks and messages\<close>

record ablock =
  ab_path :: path
  ab_buf :: bytes
  ab_size :: nat
  ab_offset :: int
  ab_fi :: fuse_file_info

definition is_mergeable :: "ablock \<Rightarrow> ablock \<Rightarrow> bool" where
  "is_mergeable this block \<longleftrightarrow>
     ab_path this = ab_path block \<and>
     size_add (size_of_int (ab_offset this)) (ab_size this) = size_of_int (ab_offset block) \<and>
     fi_direct_io (ab_fi this) = fi_direct_io (ab_fi block) \<and> fi_fh (ab_fi this) = fi_fh (ab_fi block) \<and>
     fi_fh_old (ab_fi this) = fi_fh_old (ab_fi block) \<and> fi_flags (ab_fi this) = fi_flags (ab_fi block) \<and>
     fi_flock_release (ab_fi this) = fi_flock_release (ab_fi block) \<and> fi_flush (ab_fi this) = fi_flush (ab_fi block) \<and>
     fi_keep_cache (ab_fi this) = fi_keep_cache (ab_fi block) \<and>
     fi_lock_owner (ab_fi this) = fi_lock_owner (ab_fi block) \<and>
     fi_nonseekable (ab_fi this) = fi_nonseekable (ab_fi block) \<and> fi_padding (ab_fi this) = fi_padding (ab_fi block) \<and>
     fi_writepage (ab_fi this) = fi_writepage (ab_fi block)"

text \<open>The merge loop: the final \<^verbatim>\<open>bufSize\<close> and how many blocks join the first.\<close>

fun merge_count :: "nat \<Rightarrow> nat \<Rightarrow> ablock \<Rightarrow> ablock list \<Rightarrow> nat \<times> nat" where
  "merge_count max_block_size bufSize last_block [] = (bufSize, 0)"
| "merge_count max_block_size bufSize last_block (current # rest) =
     (if size_add bufSize (ab_size current) \<le> max_block_size \<and> is_mergeable last_block current
      then case merge_count max_block_size (size_add bufSize (ab_size current)) current rest of
             (sz, k) \<Rightarrow> (sz, Suc k)
      else (bufSize, 0))"

fun copy_blocks :: "bytes \<Rightarrow> nat \<Rightarrow> ablock list \<Rightarrow> bytes res" where
  "copy_blocks buf n_copied_bytes [] = Inr buf"
| "copy_blocks buf n_copied_bytes (b # bs) =
     rbind (mem_copy buf n_copied_bytes (ab_buf b) 0 (ab_size b)) (\<lambda>buf1.
       copy_blocks buf1 (size_add n_copied_bytes (ab_size b)) bs)"

text \<open>\<^verbatim>\<open>send_block\<close>: the request it writes and \<^verbatim>\<open>n_blocks_sent_\<close>.\<close>

definition send_block :: "nat \<Rightarrow> ablock list \<Rightarrow> (WriteRequest \<times> nat) res" where
  "send_block max_block_size blocks =
     (case blocks of
        [] \<Rightarrow> Inl End_deref
      | first # rest \<Rightarrow>
          if length blocks > 1
          then (case merge_count max_block_size (ab_size first) first rest of
             (bufSize, k) \<Rightarrow>
               rbind (copy_blocks (resize [] bufSize) 0 (take (Suc k) blocks)) (\<lambda>buf.
                 Inr (WriteRequest (ab_path first) bufSize (ab_offset first) buf (wire_info (ab_fi first)), Suc k)))
          else rbind (mem_copy (resize [] (ab_size first)) 0 (ab_buf first) 0 (ab_size first)) (\<lambda>buf.
                 Inr (WriteRequest (ab_path first) (ab_size first) (ab_offset first) buf
                        (wire_info (ab_fi first)), 1)))"

section \<open>State\<close>

datatype event = TERMINATED | CALL_ENDED | FLUSH_REQUEST

datatype call_status = AC_CREATE | AC_WRITE | AC_WRITES_DONE | AC_FINISHED

record call_data =
  cl_id :: nat
  cl_blocks :: "ablock list"
  cl_status :: call_status
  cl_n_sent :: nat

text \<open>
  \<open>flush_threshold\<close>, a \<^verbatim>\<open>double\<close> in the code, is a rational here: sizes below \<open>2 ^ 53\<close> convert to
  \<^verbatim>\<open>double\<close> exactly.
\<close>

record async_config =
  as_cache_limit :: nat
  as_block_size :: nat
  as_threads :: nat
  as_flush_threshold :: rat

text \<open>
  Besides the members of the class: \<open>as_flushing\<close> and \<open>as_terminated\<close> are the scheduler's locals,
  \<open>as_active\<close> the started calls with an outstanding completion, \<open>as_promises\<close> the promises kept so
  far, \<open>as_waiting\<close> a writer that holds \<^verbatim>\<open>mtx_blocks_\<close> and waits for a call before it queues its
  block. \<open>as_accepted\<close> and \<open>as_sent\<close> record every block queued and every message written.
\<close>

record async_client =
  as_blocks :: "ablock list"
  as_queue_size :: nat
  as_cache_size :: nat
  as_calls :: "call_data list"
  as_channel :: "event channel"
  as_flushing :: bool
  as_terminated :: bool
  as_active :: "call_data list"
  as_next_id :: nat
  as_promises :: "(nat \<times> bool) list"
  as_waiting :: "(nat \<times> ablock) option"
  as_accepted :: "ablock list"
  as_sent :: "WriteRequest list"

section \<open>Operations\<close>

definition async_config_new :: "async_config \<Rightarrow> async_config" where
  "async_config_new config = config\<lparr>as_threads := max 1 (as_threads config),
     as_flush_threshold := of_nat (as_cache_limit config) * min 1 \<bar>as_flush_threshold config\<bar>\<rparr>"

definition async_client_new :: async_client where
  "async_client_new = \<lparr>as_blocks = [], as_queue_size = 0, as_cache_size = 0, as_calls = [],
     as_channel = channel_new, as_flushing = False, as_terminated = False, as_active = [], as_next_id = 0,
     as_promises = [], as_waiting = None, as_accepted = [], as_sent = []\<rparr>"

text \<open>A new call takes the blocks over and leaves an empty queue behind.\<close>

definition call_data_new :: "nat \<Rightarrow> ablock list \<Rightarrow> call_data \<times> ablock list" where
  [simp]: "call_data_new i blocks = (\<lparr>cl_id = i, cl_blocks = blocks, cl_status = AC_CREATE, cl_n_sent = 0\<rparr>, [])"

text \<open>The result is the identity of the call, that is, its future.\<close>

definition schedule_flush :: "async_client \<Rightarrow> nat \<times> async_client" where
  "schedule_flush st =
     (as_next_id st,
      case call_data_new (as_next_id st) (as_blocks st) of (call, blocks) \<Rightarrow>
      st\<lparr>as_blocks := blocks, as_queue_size := 0, as_calls := as_calls st @ [call],
         as_channel := send FLUSH_REQUEST (as_channel st), as_next_id := Suc (as_next_id st)\<rparr>)"

definition push_block :: "ablock \<Rightarrow> async_client \<Rightarrow> async_client" where
  "push_block b st = st\<lparr>as_blocks := as_blocks st @ [b],
     as_queue_size := size_add (as_queue_size st) (ab_size b),
     as_cache_size := size_add (as_cache_size st) (ab_size b), as_accepted := as_accepted st @ [b]\<rparr>"

text \<open>The block \<^verbatim>\<open>write\<close> queues: a copy of the caller's bytes and of its \<^verbatim>\<open>fuse_file_info\<close>.\<close>

definition make_block :: "path \<Rightarrow> bytes \<Rightarrow> nat \<Rightarrow> int \<Rightarrow> fi_ptr \<Rightarrow> ablock res" where
  "make_block path buf sz offset fi =
     rbind (mem_copy (resize [] sz) 0 buf 0 sz) (\<lambda>buffer. rbind (deref fi) (\<lambda>f.
       Inr \<lparr>ab_path = path, ab_buf = buffer, ab_size = sz, ab_offset = offset, ab_fi = f\<rparr>))"

text \<open>
  \<^verbatim>\<open>write\<close> up to its return or to the wait in \<^verbatim>\<open>schedule_flush().get()\<close>; \<open>write_resume\<close> is the rest
  after the wait.
\<close>

definition async_write :: "async_config \<Rightarrow> ablock \<Rightarrow> async_client \<Rightarrow> async_client" where
  "async_write config b st =
     (if as_cache_size st > as_cache_limit config
      then (case schedule_flush st of (fut, st1) \<Rightarrow> st1\<lparr>as_waiting := Some (fut, b)\<rparr>)
      else if rat_of_nat (as_queue_size st) > as_flush_threshold config
      then push_block b (snd (schedule_flush st))
      else push_block b st)"

definition write_resume :: "async_client \<Rightarrow> async_client option" where
  "write_resume st =
     (case as_waiting st of
        None \<Rightarrow> None
      | Some (fut, b) \<Rightarrow>
          if fut \<in> fst ` set (as_promises st) then Some (push_block b (st\<lparr>as_waiting := None\<rparr>)) else None)"

text \<open>
  The end of a call: \<^verbatim>\<open>CALL_ENDED\<close> is sent and then the promise is set. Here they are one step; the thread that
  waits for the promise may go on at any later time.
\<close>

definition call_end :: "call_data \<Rightarrow> bool \<Rightarrow> async_client \<Rightarrow> async_client" where
  "call_end call status st = st\<lparr>as_channel := send CALL_ENDED (as_channel st),
     as_promises := as_promises st @ [(cl_id call, status)]\<rparr>"

definition call_start :: "call_data \<Rightarrow> async_client \<Rightarrow> async_client" where
  "call_start call st =
     (if cl_blocks call = [] then call_end call True st else st\<lparr>as_active := as_active st @ [call]\<rparr>)"

definition start_next :: "async_client \<Rightarrow> async_client" where
  "start_next st =
     (case as_calls st of
        [] \<Rightarrow> st
      | call # calls \<Rightarrow> (call_start call (st\<lparr>as_calls := calls\<rparr>))\<lparr>as_flushing := True\<rparr>)"

text \<open>One round of the scheduler's loop; \<open>None\<close> while it waits for an event or has ended.\<close>

definition scheduler :: "async_client \<Rightarrow> async_client option" where
  "scheduler st =
     (if as_terminated st then None
      else case receive (as_channel st) of
        None \<Rightarrow> None
      | Some (ev, channel) \<Rightarrow>
          let st1 = st\<lparr>as_channel := channel\<rparr>
          in Some (case ev of
               CALL_ENDED \<Rightarrow> start_next (st1\<lparr>as_flushing := False\<rparr>)
             | FLUSH_REQUEST \<Rightarrow> if as_calls st1 \<noteq> [] \<and> \<not> as_flushing st1 then start_next st1 else st1
             | TERMINATED \<Rightarrow>
                 if has_pending_messages channel then st1\<lparr>as_channel := send TERMINATED channel\<rparr>
                 else st1\<lparr>as_terminated := True\<rparr>))"

text \<open>The pops of the \<^verbatim>\<open>WRITE\<close> case, each giving the size of a block back.\<close>

fun pop_blocks :: "nat \<Rightarrow> ablock list \<Rightarrow> nat \<Rightarrow> (ablock list \<times> nat) res" where
  "pop_blocks 0 bs cache_size = Inr (bs, cache_size)"
| "pop_blocks (Suc n) [] cache_size = Inl End_deref"
| "pop_blocks (Suc n) (b # bs) cache_size = pop_blocks n bs (size_sub cache_size (ab_size b))"

definition call_send :: "async_config \<Rightarrow> call_data \<Rightarrow> async_client \<Rightarrow> (call_data \<times> async_client) res" where
  "call_send config call st =
     rbind (send_block (as_block_size config) (cl_blocks call)) (\<lambda>(request, n).
       Inr (call\<lparr>cl_status := AC_WRITE, cl_n_sent := n\<rparr>, st\<lparr>as_sent := as_sent st @ [request]\<rparr>))"

text \<open>
  A completion of a started call. \<open>status\<close> is the status of the stream, known in the last state;
  \<^verbatim>\<open>ok\<close> is not looked at. The result is the call, unless it has ended.
\<close>

definition call_proceed :: "async_config \<Rightarrow> bool \<Rightarrow> call_data \<Rightarrow> async_client \<Rightarrow> (call_data option \<times> async_client) res" where
  "call_proceed config status call st =
     (case cl_status call of
        AC_CREATE \<Rightarrow>
          if cl_blocks call = [] then Inr (Some (call\<lparr>cl_status := AC_FINISHED\<rparr>), st)
          else rbind (call_send config call st) (\<lambda>(call1, st1). Inr (Some call1, st1))
      | AC_WRITE \<Rightarrow>
          rbind (pop_blocks (cl_n_sent call) (cl_blocks call) (as_cache_size st)) (\<lambda>(blocks, cache_size).
            let call1 = call\<lparr>cl_blocks := blocks, cl_n_sent := 0\<rparr>; st1 = st\<lparr>as_cache_size := cache_size\<rparr>
            in if blocks = [] then Inr (Some (call1\<lparr>cl_status := AC_WRITES_DONE\<rparr>), st1)
               else rbind (call_send config call1 st1) (\<lambda>(call2, st2). Inr (Some call2, st2)))
      | AC_WRITES_DONE \<Rightarrow> Inr (Some (call\<lparr>cl_status := AC_FINISHED\<rparr>), st)
      | AC_FINISHED \<Rightarrow> Inr (None, call_end call status st))"

definition completion :: "async_config \<Rightarrow> nat \<Rightarrow> bool \<Rightarrow> async_client \<Rightarrow> async_client res" where
  "completion config i status st =
     rbind (call_proceed config status (as_active st ! i) st) (\<lambda>(call, st1).
       Inr (st1\<lparr>as_active := take i (as_active st1) @ (case call of None \<Rightarrow> [] | Some c \<Rightarrow> [c])
                             @ drop (Suc i) (as_active st1)\<rparr>))"

section \<open>What a message stands for\<close>

text \<open>
  Blocks as \<^verbatim>\<open>write\<close> makes them; a group of blocks that one request can carry: contiguous
  parts of one open file, within the maximal size if there is more than one.
\<close>

definition wf_block :: "ablock \<Rightarrow> bool" where
  "wf_block b \<longleftrightarrow> length (ab_buf b) = ab_size b \<and> 0 \<le> ab_offset b \<and> ab_offset b + int (ab_size b) < 2 ^ 63"

definition sizes :: "ablock list \<Rightarrow> nat" where
  "sizes bs = sum_list (map ab_size bs)"

fun adjacent :: "ablock list \<Rightarrow> bool" where
  "adjacent (a # b # bs) \<longleftrightarrow> is_mergeable a b \<and> adjacent (b # bs)"
| "adjacent _ \<longleftrightarrow> True"

definition block_group :: "nat \<Rightarrow> ablock list \<Rightarrow> bool" where
  "block_group max_block_size bs \<longleftrightarrow> bs \<noteq> [] \<and> list_all wf_block bs \<and> adjacent bs \<and>
     (length bs = 1 \<or> sizes bs \<le> max_block_size)"

definition request_of :: "ablock list \<Rightarrow> WriteRequest" where
  "request_of bs = WriteRequest (ab_path (hd bs)) (sizes bs) (ab_offset (hd bs)) (concat (map ab_buf bs))
     (wire_info (ab_fi (hd bs)))"

lemma sizes_simps [simp]: "sizes [] = 0" "sizes (b # bs) = ab_size b + sizes bs" "sizes (bs @ cs) = sizes bs + sizes cs"
  by (simp_all add: sizes_def)

lemma sizes_take_le: "sizes (take n bs) \<le> sizes bs"
proof -
  have "sizes bs = sizes (take n bs) + sizes (drop n bs)"
    by (metis append_take_drop_id sizes_simps(3))
  then show ?thesis by simp
qed

lemma wf_concat_length: "list_all wf_block bs \<Longrightarrow> length (concat (map ab_buf bs)) = sizes bs"
  by (induction bs) (auto simp: wf_block_def)

lemma merge_count_spec:
  assumes "merge_count mx sz prev bs = (sz', k)" "sz + sizes bs < 2 ^ 64"
  shows "k \<le> length bs \<and> sz' = sz + sizes (take k bs) \<and> adjacent (prev # take k bs) \<and> (0 < k \<longrightarrow> sz' \<le> mx)"
  using assms
proof (induction bs arbitrary: sz prev sz' k)
  case (Cons b bs)
  show ?case
  proof (cases "size_add sz (ab_size b) \<le> mx \<and> is_mergeable prev b")
    case True
    obtain k' where k': "merge_count mx (sz + ab_size b) b bs = (sz', k')" "k = Suc k'"
      using Cons.prems True by (auto simp: size_add_exact split: prod.splits)
    have "sz + ab_size b + sizes bs < 2 ^ 64" using Cons.prems(2) by simp
    from Cons.IH [OF k'(1) this] True k'(2) show ?thesis
      using Cons.prems by (cases "k' = 0") (auto simp: size_add_exact)
  qed (use Cons.prems in auto)
qed simp

lemma copy_blocks_spec:
  assumes "list_all wf_block bs" "n + sizes bs = length buf" "length buf < 2 ^ 64"
  shows "copy_blocks buf n bs = Inr (take n buf @ concat (map ab_buf bs))"
  using assms
proof (induction bs arbitrary: buf n)
  case (Cons b bs)
  let ?buf = "take n buf @ ab_buf b @ drop (n + ab_size b) buf"
  have b: "length (ab_buf b) = ab_size b" "list_all wf_block bs"
    using Cons.prems(1) by (simp_all add: wf_block_def [of b])
  have len: "length ?buf = length buf" "n + ab_size b + sizes bs = length ?buf" using Cons.prems b by auto
  have "copy_blocks ?buf (n + ab_size b) bs = Inr (take (n + ab_size b) ?buf @ concat (map ab_buf bs))"
    using Cons.IH [of "n + ab_size b" ?buf] Cons.prems(3) b(2) len by simp
  then show ?case
    using Cons.prems b by (simp add: mem_copy_def size_add_exact)
qed simp

lemma adjacent_same_fi: "adjacent (a # bs) \<Longrightarrow> b \<in> set bs \<Longrightarrow> ab_fi b = ab_fi a \<and> ab_path b = ab_path a"
proof (induction bs arbitrary: a)
  case (Cons c bs)
  have "ab_fi c = ab_fi a \<and> ab_path c = ab_path a"
    using Cons.prems(1) by (cases "ab_fi c", cases "ab_fi a") (auto simp: is_mergeable_def)
  with Cons show ?case by auto
qed simp

text \<open>What one \<^verbatim>\<open>send_block\<close> sends: the request of a group that is a prefix of the blocks.\<close>

lemma send_block_spec:
  assumes "bs \<noteq> []" "list_all wf_block bs" "sizes bs < 2 ^ 64"
  shows "\<exists>n. 0 < n \<and> n \<le> length bs \<and> send_block mx bs = Inr (request_of (take n bs), n) \<and> block_group mx (take n bs)"
proof (cases bs)
  case (Cons b rest)
  have wb: "length (ab_buf b) = ab_size b" using assms(2) Cons by (simp add: wf_block_def)
  show ?thesis
  proof (cases rest)
    case Nil
    then have "send_block mx bs = Inr (request_of (take 1 bs), 1)"
      using wb Cons by (simp add: send_block_def request_of_def mem_copy_def)
    moreover have "block_group mx (take 1 bs)" using assms(2) Cons Nil by (simp add: block_group_def)
    ultimately show ?thesis using Cons by (intro exI [of _ 1]) simp
  next
    case (Cons c cs)
    note rest = this
    obtain sz k where mc: "merge_count mx (ab_size b) b rest = (sz, k)" by (cases "merge_count mx (ab_size b) b rest")
    have k: "k \<le> length rest" "sz = sizes (take (Suc k) bs)" "adjacent (take (Suc k) bs)" "0 < k \<longrightarrow> sz \<le> mx"
      using merge_count_spec [OF mc] assms(3) \<open>bs = b # rest\<close> by auto
    have wft: "list_all wf_block (take (Suc k) bs)"
      using assms(2) by (meson list_all_iff in_set_takeD)
    have "sz < 2 ^ 64" using k(2) sizes_take_le [of "Suc k" bs] assms(3) by simp
    then have "copy_blocks (resize [] sz) 0 (take (Suc k) bs) = Inr (concat (map ab_buf (take (Suc k) bs)))"
      using copy_blocks_spec [OF wft, of 0 "resize [] sz"] k(2) by simp
    then have "send_block mx bs = Inr (request_of (take (Suc k) bs), Suc k)"
      using mc k(2) \<open>bs = b # rest\<close> rest by (simp add: send_block_def request_of_def)
    moreover have "block_group mx (take (Suc k) bs)"
      using k wft \<open>bs = b # rest\<close> by (cases "k = 0") (auto simp: block_group_def)
    ultimately show ?thesis using k(1) \<open>bs = b # rest\<close> by (intro exI [of _ "Suc k"]) simp
  qed
qed (use assms in simp)

section \<open>The effect of the messages\<close>

text \<open>
  The effect of a write on the server's state, its result left aside, and of a sequence of
  writes. A write operation splits if writing two neighbouring pieces one after the other has
  the effect of writing them at once, as \<^verbatim>\<open>pwrite\<close> on a regular file does.
\<close>

definition write_effect :: "'s write_op \<Rightarrow> path \<Rightarrow> bytes \<Rightarrow> int \<Rightarrow> fuse_file_info \<Rightarrow> 's \<Rightarrow> 's res" where
  "write_effect f path d off fi s = rbind (f path d (length d) off (Some fi) s) (\<lambda>(_, s1). Inr s1)"

fun effects :: "('a \<Rightarrow> 's \<Rightarrow> 's res) \<Rightarrow> 'a list \<Rightarrow> 's \<Rightarrow> 's res" where
  "effects g [] s = Inr s"
| "effects g (x # xs) s = rbind (g x s) (effects g xs)"

definition splits_writes :: "'s write_op \<Rightarrow> bool" where
  "splits_writes f \<longleftrightarrow> (\<forall>path d1 d2 off fi s. 0 \<le> off \<longrightarrow>
     rbind (write_effect f path d1 off fi s) (write_effect f path d2 (off + int (length d1)) fi) =
     write_effect f path (d1 @ d2) off fi s)"

definition block_effect :: "'s write_op \<Rightarrow> ablock \<Rightarrow> 's \<Rightarrow> 's res" where
  "block_effect f b = write_effect f (ab_path b) (ab_buf b) (ab_offset b) (ab_fi b)"

definition served_effect :: "('s, 'd) fuse_operations \<Rightarrow> WriteRequest list \<Rightarrow> 's \<Rightarrow> 's res" where
  "served_effect ops qs s = rbind (run_all (write_process ops) qs s) (\<lambda>(_, s1). Inr s1)"

lemma effects_append: "effects g (xs @ ys) s = rbind (effects g xs s) (effects g ys)"
  by (induction xs arbitrary: s) (auto simp: rbind_assoc intro: rbind_cong)

lemma served_effect_Cons:
  "served_effect ops (q # qs) s = rbind (rbind (write_process ops q s) (\<lambda>(_, s1). Inr s1)) (served_effect ops qs)"
  by (auto simp: served_effect_def rbind_assoc split_beta intro!: rbind_cong)

lemma mergeable_offset:
  assumes "is_mergeable a b" "wf_block a" "wf_block b"
  shows "ab_offset b = ab_offset a + int (ab_size a)"
proof -
  have "size_add (nat (ab_offset a)) (ab_size a) = nat (ab_offset b)"
    using assms by (simp add: is_mergeable_def wf_block_def size_of_int_exact)
  moreover have "nat (ab_offset a) + ab_size a < 2 ^ 64"
    using assms(2) by (auto simp: wf_block_def)
  ultimately have "nat (ab_offset a) + ab_size a = nat (ab_offset b)" by (simp add: size_add_exact)
  moreover have "0 \<le> ab_offset a" "0 \<le> ab_offset b" using assms(2,3) by (simp_all add: wf_block_def)
  ultimately show ?thesis by linarith
qed

lemma group_effect:
  assumes "splits_writes f" "adjacent (b # bs)" "list_all wf_block (b # bs)"
  shows "effects (block_effect f) (b # bs) s =
    write_effect f (ab_path b) (concat (map ab_buf (b # bs))) (ab_offset b) (ab_fi b) s"
  using assms(2,3)
proof (induction bs arbitrary: b s)
  case Nil
  show ?case by (cases "write_effect f (ab_path b) (ab_buf b) (ab_offset b) (ab_fi b) s") (simp_all add: block_effect_def)
next
  case (Cons c cs)
  have c: "ab_path c = ab_path b" "ab_fi c = ab_fi b" using adjacent_same_fi [OF Cons.prems(1), of c] by auto
  have off: "ab_offset c = ab_offset b + int (length (ab_buf b))"
    using mergeable_offset [of b c] Cons.prems by (simp add: wf_block_def [of b])
  have "0 \<le> ab_offset b" using Cons.prems by (simp add: wf_block_def [of b])
  have "effects (block_effect f) (b # c # cs) s = rbind (block_effect f b s) (effects (block_effect f) (c # cs))"
    by simp
  also have "\<dots> = rbind (write_effect f (ab_path b) (ab_buf b) (ab_offset b) (ab_fi b) s)
      (write_effect f (ab_path b) (concat (map ab_buf (c # cs))) (ab_offset b + int (length (ab_buf b))) (ab_fi b))"
    using Cons.IH [of c] Cons.prems c off
    by (auto simp: block_effect_def [of f b] simp del: effects.simps intro!: rbind_cong)
  also have "\<dots> = write_effect f (ab_path b) (concat (map ab_buf (b # c # cs))) (ab_offset b) (ab_fi b) s"
    using assms(1) \<open>0 \<le> ab_offset b\<close> by (simp add: splits_writes_def)
  finally show ?case .
qed

lemma request_effect:
  assumes "op_write ops = Some f" "splits_writes f" "block_group mx g"
  shows "rbind (write_process ops (request_of g) s) (\<lambda>(_, s1). Inr s1) = effects (block_effect f) g s"
proof -
  obtain b bs where g: "g = b # bs" using assms(3) by (cases g) (auto simp: block_group_def)
  have len: "length (concat (map ab_buf g)) = sizes g" using assms(3) by (simp add: block_group_def wf_concat_length)
  have "rbind (write_process ops (request_of g) s) (\<lambda>(_, s1). Inr s1) =
      write_effect f (ab_path b) (concat (map ab_buf g)) (ab_offset b) (ab_fi b) s"
    using assms(1) len
    by (auto simp: write_process_eq request_of_def with_info_def write_effect_def wire_info_def g rbind_assoc
        split_beta Let_def intro!: rbind_cong)
  then show ?thesis
    using group_effect [OF assms(2), of b bs s] assms(3) g by (simp add: block_group_def del: effects.simps)
qed

lemma served_groups_effect:
  assumes "op_write ops = Some f" "splits_writes f" "\<forall>g \<in> set gs. block_group mx g"
  shows "served_effect ops (map request_of gs) s = effects (block_effect f) (concat gs) s"
  using assms(3)
proof (induction gs arbitrary: s)
  case (Cons g gs)
  then have "served_effect ops (map request_of (g # gs)) s =
      rbind (effects (block_effect f) g s) (served_effect ops (map request_of gs))"
    using request_effect [OF assms(1,2), of mx g s] by (simp add: served_effect_Cons)
  also have "\<dots> = rbind (effects (block_effect f) g s) (effects (block_effect f) (concat gs))"
    using Cons by (auto intro: rbind_cong)
  finally show ?case by (simp add: effects_append)
qed (simp add: served_effect_def)

section \<open>Interleavings\<close>

text \<open>
  The threads of a client: writers and flushers, which need \<^verbatim>\<open>mtx_blocks_\<close> and so wait while a
  writer holds it; and the internal ones, the scheduler and the completions of started calls.
  Writes are of at most \<open>W\<close> bytes.
\<close>

inductive ac_internal :: "async_config \<Rightarrow> async_client \<Rightarrow> async_client \<Rightarrow> bool" for config where
  scheduled: "scheduler st = Some st' \<Longrightarrow> ac_internal config st st'"
| completed: "i < length (as_active st) \<Longrightarrow> completion config i status st = Inr st' \<Longrightarrow> ac_internal config st st'"

inductive ac_reachable :: "async_config \<Rightarrow> nat \<Rightarrow> async_client \<Rightarrow> bool" for config W where
  started: "ac_reachable config W async_client_new"
| written: "ac_reachable config W st \<Longrightarrow> as_waiting st = None \<Longrightarrow> wf_block b \<Longrightarrow> ab_size b \<le> W \<Longrightarrow>
    ac_reachable config W (async_write config b st)"
| resumed: "ac_reachable config W st \<Longrightarrow> write_resume st = Some st' \<Longrightarrow> ac_reachable config W st'"
| flushed: "ac_reachable config W st \<Longrightarrow> as_waiting st = None \<Longrightarrow> ac_reachable config W (snd (schedule_flush st))"
| terminating: "ac_reachable config W st \<Longrightarrow>
    ac_reachable config W (st\<lparr>as_channel := send TERMINATED (as_channel st)\<rparr>)"
| stepped: "ac_reachable config W st \<Longrightarrow> ac_internal config st st' \<Longrightarrow> ac_reachable config W st'"

section \<open>The invariant\<close>

text \<open>The blocks the client still holds, and those of them no message has carried yet.\<close>

definition backlog :: "async_client \<Rightarrow> ablock list" where
  "backlog st = concat (map cl_blocks (as_active st)) @ concat (map cl_blocks (as_calls st)) @ as_blocks st"

definition unsent :: "async_client \<Rightarrow> ablock list" where
  "unsent st = concat (map (\<lambda>c. drop (cl_n_sent c) (cl_blocks c)) (as_active st)) @
     concat (map cl_blocks (as_calls st)) @ as_blocks st"

definition call_queued :: "call_data \<Rightarrow> bool" where
  "call_queued c \<longleftrightarrow> cl_status c = AC_CREATE \<and> cl_n_sent c = 0"

definition call_running :: "call_data \<Rightarrow> bool" where
  "call_running c \<longleftrightarrow>
     (case cl_status c of
        AC_CREATE \<Rightarrow> cl_n_sent c = 0 \<and> cl_blocks c \<noteq> []
      | AC_WRITE \<Rightarrow> 0 < cl_n_sent c \<and> cl_n_sent c \<le> length (cl_blocks c)
      | _ \<Rightarrow> cl_n_sent c = 0 \<and> cl_blocks c = [])"

definition inv_sizes :: "async_config \<Rightarrow> nat \<Rightarrow> async_client \<Rightarrow> bool" where
  "inv_sizes config W st \<longleftrightarrow> as_cache_size st = sizes (backlog st) \<and> as_queue_size st = sizes (as_blocks st) \<and>
     as_cache_size st \<le> as_cache_limit config + W"

definition inv_events :: "async_client \<Rightarrow> bool" where
  "inv_events st \<longleftrightarrow>
     length (as_active st) + count_list (as_channel st) CALL_ENDED = (if as_flushing st then 1 else 0) \<and>
     (as_calls st \<noteq> [] \<longrightarrow> as_flushing st \<or> FLUSH_REQUEST \<in> set (as_channel st))"

definition inv_calls :: "async_client \<Rightarrow> bool" where
  "inv_calls st \<longleftrightarrow> list_all wf_block (backlog st) \<and> list_all call_running (as_active st) \<and>
     list_all call_queued (as_calls st)"

definition inv_order :: "async_config \<Rightarrow> async_client \<Rightarrow> bool" where
  "inv_order config st \<longleftrightarrow> (\<exists>gs. as_sent st = map request_of gs \<and>
     (\<forall>g \<in> set gs. block_group (as_block_size config) g) \<and> as_accepted st = concat gs @ unsent st)"

definition call_ids :: "async_client \<Rightarrow> nat list" where
  "call_ids st = map cl_id (as_active st @ as_calls st)"

definition inv_futures :: "nat \<Rightarrow> async_client \<Rightarrow> bool" where
  "inv_futures W st \<longleftrightarrow> distinct (call_ids st) \<and>
     (\<forall>k \<in> set (call_ids st). k < as_next_id st \<and> k \<notin> fst ` set (as_promises st)) \<and>
     (\<forall>k \<in> fst ` set (as_promises st). k < as_next_id st) \<and>
     (\<forall>k < as_next_id st. k \<in> set (call_ids st) \<or> k \<in> fst ` set (as_promises st)) \<and>
     (\<forall>fut b. as_waiting st = Some (fut, b) \<longrightarrow> wf_block b \<and> ab_size b \<le> W \<and> as_blocks st = [] \<and>
        (if fut \<in> fst ` set (as_promises st) then call_ids st = []
         else call_ids st \<noteq> [] \<and> last (call_ids st) = fut))"

definition ac_inv :: "async_config \<Rightarrow> nat \<Rightarrow> async_client \<Rightarrow> bool" where
  "ac_inv config W st \<longleftrightarrow> inv_sizes config W st \<and> inv_events st \<and> inv_calls st \<and> inv_order config st \<and>
     inv_futures W st"

lemmas ac_inv_defs = inv_sizes_def inv_events_def inv_calls_def inv_order_def inv_futures_def
  backlog_def unsent_def call_ids_def

lemma new_inv: "ac_inv config W async_client_new"
  by (simp add: ac_inv_def ac_inv_defs async_client_new_def channel_new_def)

lemma schedule_flush_inv:
  assumes "ac_inv config W st" "as_waiting st = None"
  shows "ac_inv config W (snd (schedule_flush st))"
proof -
  have "inv_futures W (snd (schedule_flush st))"
    using assms unfolding ac_inv_def inv_futures_def call_ids_def schedule_flush_def
    by (auto simp: less_Suc_eq)
  moreover have "inv_order config (snd (schedule_flush st))"
    using assms by (simp add: ac_inv_def inv_order_def schedule_flush_def unsent_def)
  ultimately show ?thesis
    using assms unfolding ac_inv_def
    by (simp add: inv_sizes_def inv_events_def inv_calls_def backlog_def schedule_flush_def send_def call_queued_def)
qed

lemma push_block_inv:
  assumes inv: "ac_inv config W st" and st: "as_waiting st = None"
    and b: "wf_block b" "ab_size b \<le> W" and room: "as_cache_size st \<le> as_cache_limit config"
    and cfg: "as_cache_limit config + W < 2 ^ 64"
  shows "ac_inv config W (push_block b st)"
proof -
  have "as_queue_size st \<le> as_cache_size st"
    using inv by (simp add: ac_inv_def inv_sizes_def backlog_def)
  then have "inv_sizes config W (push_block b st)"
    using inv b(2) room cfg by (simp add: ac_inv_def inv_sizes_def backlog_def push_block_def size_add_exact)
  moreover have "inv_order config (push_block b st)"
    using inv by (auto simp: ac_inv_def inv_order_def push_block_def unsent_def)
  moreover have "inv_futures W (push_block b st)"
    using inv st by (simp add: ac_inv_def inv_futures_def push_block_def call_ids_def)
  ultimately show ?thesis
    using inv b(1) by (simp add: ac_inv_def inv_events_def inv_calls_def push_block_def backlog_def)
qed

lemma async_write_inv:
  assumes inv: "ac_inv config W st" and st: "as_waiting st = None" and b: "wf_block b" "ab_size b \<le> W"
    and cfg: "as_cache_limit config + W < 2 ^ 64"
  shows "ac_inv config W (async_write config b st)"
proof -
  have sf: "ac_inv config W (snd (schedule_flush st))" by (rule schedule_flush_inv [OF inv st])
  consider (full) "as_cache_size st > as_cache_limit config"
    | (flush) "as_cache_size st \<le> as_cache_limit config" "rat_of_nat (as_queue_size st) > as_flush_threshold config"
    | (plain) "as_cache_size st \<le> as_cache_limit config" "\<not> rat_of_nat (as_queue_size st) > as_flush_threshold config"
    by linarith
  then show ?thesis
  proof cases
    case full
    have "inv_futures W ((snd (schedule_flush st))\<lparr>as_waiting := Some (as_next_id st, b)\<rparr>)"
      using sf inv b by (auto simp: ac_inv_def inv_futures_def schedule_flush_def call_ids_def)
    then show ?thesis
      using sf full by (simp add: async_write_def ac_inv_def inv_sizes_def inv_events_def inv_calls_def
          inv_order_def backlog_def unsent_def schedule_flush_def)
  next
    case flush
    then show ?thesis
      using push_block_inv [OF sf _ b _ cfg] st by (simp add: async_write_def schedule_flush_def)
  next
    case plain
    then show ?thesis
      using push_block_inv [OF inv st b _ cfg] by (simp add: async_write_def)
  qed
qed

lemma write_resume_inv:
  assumes inv: "ac_inv config W st" and st': "write_resume st = Some st'"
    and cfg: "as_cache_limit config + W < 2 ^ 64"
  shows "ac_inv config W st'"
proof -
  obtain fut b where w: "as_waiting st = Some (fut, b)" "fut \<in> fst ` set (as_promises st)"
    "st' = push_block b (st\<lparr>as_waiting := None\<rparr>)"
    using st' by (auto simp: write_resume_def split: option.splits if_splits)
  have e: "as_blocks st = []" "as_active st = []" "as_calls st = []" "wf_block b" "ab_size b \<le> W"
    using inv w by (auto simp: ac_inv_def inv_futures_def call_ids_def)
  have "ac_inv config W (st\<lparr>as_waiting := None\<rparr>)"
    using inv by (simp add: ac_inv_def ac_inv_defs)
  then show ?thesis
    using push_block_inv [of config W "st\<lparr>as_waiting := None\<rparr>" b] e cfg inv w(3)
    by (simp add: ac_inv_def inv_sizes_def backlog_def)
qed

text \<open>The event-related fields do not occur in the other parts of the invariant.\<close>

lemma frame_views [simp]:
  "backlog (st\<lparr>as_channel := q\<rparr>) = backlog st"
  "unsent (st\<lparr>as_channel := q\<rparr>) = unsent st"
  "call_ids (st\<lparr>as_channel := q\<rparr>) = call_ids st"
  "backlog (st\<lparr>as_flushing := f\<rparr>) = backlog st"
  "unsent (st\<lparr>as_flushing := f\<rparr>) = unsent st"
  "call_ids (st\<lparr>as_flushing := f\<rparr>) = call_ids st"
  "backlog (st\<lparr>as_terminated := t\<rparr>) = backlog st"
  "unsent (st\<lparr>as_terminated := t\<rparr>) = unsent st"
  "call_ids (st\<lparr>as_terminated := t\<rparr>) = call_ids st"
  by (simp_all add: backlog_def unsent_def call_ids_def)

lemma frame_invs [simp]:
  "inv_sizes config W (st\<lparr>as_channel := q\<rparr>) = inv_sizes config W st"
  "inv_calls (st\<lparr>as_channel := q\<rparr>) = inv_calls st"
  "inv_order config (st\<lparr>as_channel := q\<rparr>) = inv_order config st"
  "inv_futures W (st\<lparr>as_channel := q\<rparr>) = inv_futures W st"
  "inv_sizes config W (st\<lparr>as_flushing := f\<rparr>) = inv_sizes config W st"
  "inv_calls (st\<lparr>as_flushing := f\<rparr>) = inv_calls st"
  "inv_order config (st\<lparr>as_flushing := f\<rparr>) = inv_order config st"
  "inv_futures W (st\<lparr>as_flushing := f\<rparr>) = inv_futures W st"
  "inv_sizes config W (st\<lparr>as_terminated := t\<rparr>) = inv_sizes config W st"
  "inv_calls (st\<lparr>as_terminated := t\<rparr>) = inv_calls st"
  "inv_order config (st\<lparr>as_terminated := t\<rparr>) = inv_order config st"
  "inv_futures W (st\<lparr>as_terminated := t\<rparr>) = inv_futures W st"
  by (simp_all add: inv_sizes_def inv_calls_def inv_order_def inv_futures_def)

lemma keep_promise_futures:
  assumes inv: "inv_futures W st" and ids: "call_ids st = k # ks" "call_ids st' = ks"
    and same: "as_promises st' = as_promises st @ [(k, status)]" "as_next_id st' = as_next_id st"
      "as_waiting st' = as_waiting st" "as_blocks st' = as_blocks st"
  shows "inv_futures W st'"
proof -
  have "(if fut \<in> fst ` set (as_promises st') then ks = [] else ks \<noteq> [] \<and> last ks = fut)"
    if "as_waiting st = Some (fut, b)" for fut b
  proof -
    have *: "if fut \<in> fst ` set (as_promises st) then k # ks = [] else last (k # ks) = fut"
      using inv that ids by (auto simp: inv_futures_def split: if_splits)
    moreover have "last ks \<in> set ks" "k \<notin> set ks" if "ks \<noteq> []"
      using inv ids(1) that by (simp_all add: inv_futures_def)
    ultimately show ?thesis using same(1) by (cases "ks = []") (auto split: if_splits)
  qed
  note waiting = this
  have d: "distinct (k # ks)" "\<forall>j \<in> set (k # ks). j < as_next_id st \<and> j \<notin> fst ` set (as_promises st)"
    "\<forall>j \<in> fst ` set (as_promises st). j < as_next_id st"
    "\<forall>j < as_next_id st. j \<in> set (k # ks) \<or> j \<in> fst ` set (as_promises st)"
    and w: "\<forall>fut b. as_waiting st = Some (fut, b) \<longrightarrow> wf_block b \<and> ab_size b \<le> W \<and> as_blocks st = []"
    using inv unfolding inv_futures_def ids(1) by blast+
  have p: "fst ` set (as_promises st') = insert k (fst ` set (as_promises st))" using same(1) by simp
  show ?thesis
    unfolding inv_futures_def ids(2) same(2-4)
  proof (intro conjI allI impI)
    show "distinct ks" using d(1) by simp
    show "\<forall>j \<in> set ks. j < as_next_id st \<and> j \<notin> fst ` set (as_promises st')" using d(1,2) p by auto
    show "\<forall>j \<in> fst ` set (as_promises st'). j < as_next_id st" using d(2,3) p by auto
    show "j \<in> set ks \<or> j \<in> fst ` set (as_promises st')" if "j < as_next_id st" for j using d(4) that p by auto
  qed (use w waiting in blast)+
qed

lemma futures_cong:
  assumes "inv_futures W st" "call_ids st' = call_ids st" "as_promises st' = as_promises st"
    "as_next_id st' = as_next_id st" "as_waiting st' = as_waiting st" "as_blocks st' = as_blocks st"
  shows "inv_futures W st'"
  using assms(1) unfolding inv_futures_def assms(2-) .

lemma start_next_inv:
  assumes inv: "inv_sizes config W st" "inv_calls st" "inv_order config st" "inv_futures W st"
    and idle: "\<not> as_flushing st" "as_active st = []" "count_list (as_channel st) CALL_ENDED = 0"
  shows "ac_inv config W (start_next st)"
proof (cases "as_calls st")
  case Nil
  then have "inv_events st" using idle by (simp add: inv_events_def)
  then show ?thesis using inv Nil by (simp add: start_next_def ac_inv_def)
next
  case (Cons c cs)
  have c: "call_queued c" "list_all call_queued cs" using inv(2) Cons by (simp_all add: inv_calls_def)
  show ?thesis
  proof (cases "cl_blocks c = []")
    case True
    have "inv_futures W (start_next st)"
      using Cons True idle(2)
      by (intro keep_promise_futures [OF inv(4), where k = "cl_id c" and ks = "map cl_id cs"])
         (simp_all add: start_next_def call_start_def call_end_def call_ids_def)
    then show ?thesis
      using inv Cons True idle c
      by (simp add: ac_inv_def inv_sizes_def inv_events_def inv_calls_def inv_order_def backlog_def unsent_def
          start_next_def call_start_def call_end_def send_def)
  next
    case False
    have "call_running c" using c(1) False by (simp add: call_queued_def call_running_def)
    moreover have "inv_futures W (start_next st)"
      using Cons False idle(2)
      by (intro futures_cong [OF inv(4)]) (simp_all add: start_next_def call_start_def call_ids_def)
    ultimately show ?thesis
      using inv Cons False idle c
      by (simp add: ac_inv_def inv_sizes_def inv_events_def inv_calls_def inv_order_def backlog_def unsent_def
          start_next_def call_start_def call_queued_def)
  qed
qed

lemma channel_update_inv:
  assumes "ac_inv config W st" "inv_events (st\<lparr>as_channel := q, as_terminated := t\<rparr>)"
  shows "ac_inv config W (st\<lparr>as_channel := q, as_terminated := t\<rparr>)"
  using assms by (simp add: ac_inv_def)

lemma scheduler_inv:
  assumes inv: "ac_inv config W st" and st': "scheduler st = Some st'"
  shows "ac_inv config W st'"
proof -
  obtain ev q where q: "as_channel st = ev # q" "\<not> as_terminated st"
    using st' by (auto simp: scheduler_def receive_def split: if_splits list.splits)
  have ev: "inv_events st" using inv by (simp add: ac_inv_def)
  have parts: "inv_sizes config W (st\<lparr>as_channel := q, as_flushing := f\<rparr>)"
    "inv_calls (st\<lparr>as_channel := q, as_flushing := f\<rparr>)" "inv_order config (st\<lparr>as_channel := q, as_flushing := f\<rparr>)"
    "inv_futures W (st\<lparr>as_channel := q, as_flushing := f\<rparr>)" for f
    using inv by (simp_all add: ac_inv_def)
  show ?thesis
  proof (cases ev)
    case CALL_ENDED
    then have "st' = start_next (st\<lparr>as_channel := q, as_flushing := False\<rparr>)"
      using st' q by (simp add: scheduler_def receive_def)
    moreover have "as_active st = []" "count_list q CALL_ENDED = 0"
      using ev q CALL_ENDED by (auto simp: inv_events_def split: if_splits)
    ultimately show ?thesis
      using start_next_inv [OF parts [of False]] by simp
  next
    case FLUSH_REQUEST
    show ?thesis
    proof (cases "as_calls st \<noteq> [] \<and> \<not> as_flushing st")
      case True
      then have "st' = start_next (st\<lparr>as_channel := q\<rparr>)"
        using st' q FLUSH_REQUEST by (simp add: scheduler_def receive_def)
      moreover have "as_active st = []" "count_list q CALL_ENDED = 0"
        using ev q FLUSH_REQUEST True by (auto simp: inv_events_def)
      ultimately show ?thesis
        using start_next_inv [of config W "st\<lparr>as_channel := q\<rparr>"] True inv by (simp add: ac_inv_def)
    next
      case False
      then have "st' = st\<lparr>as_channel := q, as_terminated := False\<rparr>"
        using st' q FLUSH_REQUEST by (auto simp: scheduler_def receive_def)
      moreover have "inv_events (st\<lparr>as_channel := q, as_terminated := False\<rparr>)"
        using ev q FLUSH_REQUEST False by (auto simp: inv_events_def)
      ultimately show ?thesis using channel_update_inv [OF inv] by simp
    qed
  next
    case TERMINATED
    then have "st' = st\<lparr>as_channel := if q = [] then [] else q @ [TERMINATED], as_terminated := (q = [])\<rparr>"
      using st' q by (auto simp: scheduler_def receive_def has_pending_messages_def send_def)
    moreover have "inv_events (st\<lparr>as_channel := if q = [] then [] else q @ [TERMINATED], as_terminated := (q = [])\<rparr>)"
      using ev q TERMINATED by (auto simp: inv_events_def)
    ultimately show ?thesis using channel_update_inv [OF inv] by simp
  qed
qed

lemma pop_blocks_spec:
  assumes "n \<le> length bs" "sizes bs \<le> m" "m < 2 ^ 64"
  shows "pop_blocks n bs m = Inr (drop n bs, m - sizes (take n bs))"
  using assms
proof (induction n bs m rule: pop_blocks.induct)
  case (3 n b bs m)
  then have "size_sub m (ab_size b) = m - ab_size b" by (simp add: size_sub_exact)
  with 3 show ?case by simp
qed simp_all

text \<open>
  Sending: from a call with nothing in flight, over its remaining blocks; the state it leaves
  differs in the active call and the message.
\<close>

lemma call_send_spec:
  assumes "cl_blocks c \<noteq> []" "list_all wf_block (cl_blocks c)" "sizes (cl_blocks c) < 2 ^ 64"
  shows "\<exists>n. 0 < n \<and> n \<le> length (cl_blocks c) \<and> block_group (as_block_size config) (take n (cl_blocks c)) \<and>
    call_send config c st = Inr (c\<lparr>cl_status := AC_WRITE, cl_n_sent := n\<rparr>,
      st\<lparr>as_sent := as_sent st @ [request_of (take n (cl_blocks c))]\<rparr>)"
  using send_block_spec [OF assms, of "as_block_size config"] by (auto simp: call_send_def)

text \<open>The states in which the one active call is \<open>c\<close>.\<close>

definition active_inv :: "async_config \<Rightarrow> nat \<Rightarrow> call_data \<Rightarrow> async_client \<Rightarrow> bool" where
  "active_inv config W c st \<longleftrightarrow> ac_inv config W (st\<lparr>as_active := [c]\<rparr>)"

lemma active_order:
  "inv_order config (st\<lparr>as_active := [c]\<rparr>) \<longleftrightarrow> (\<exists>gs. as_sent st = map request_of gs \<and>
     (\<forall>g \<in> set gs. block_group (as_block_size config) g) \<and>
     as_accepted st = concat gs @ drop (cl_n_sent c) (cl_blocks c) @ concat (map cl_blocks (as_calls st)) @ as_blocks st)"
  by (simp add: inv_order_def unsent_def)

lemma send_active:
  assumes sizes: "inv_sizes config W (st\<lparr>as_active := [c]\<rparr>)" and ev: "inv_events (st\<lparr>as_active := [c]\<rparr>)"
    and wf: "list_all wf_block (backlog (st\<lparr>as_active := [c]\<rparr>))" "list_all call_queued (as_calls st)"
    and order: "inv_order config (st\<lparr>as_active := [c]\<rparr>)" and futures: "inv_futures W (st\<lparr>as_active := [c]\<rparr>)"
    and c: "cl_blocks c \<noteq> []" "cl_n_sent c = 0" and cfg: "as_cache_limit config + W < 2 ^ 64"
  shows "\<exists>c' st'. call_send config c st = Inr (c', st') \<and> as_active st' = as_active st \<and>
    as_channel st' = as_channel st \<and> as_calls st' = as_calls st \<and> cl_status c' = AC_WRITE \<and>
    cl_blocks c' = cl_blocks c \<and> active_inv config W c' st'"
proof -
  have bs: "list_all wf_block (cl_blocks c)" "sizes (cl_blocks c) < 2 ^ 64"
    using wf(1) sizes cfg by (auto simp: backlog_def inv_sizes_def)
  obtain n where n: "0 < n" "n \<le> length (cl_blocks c)" "block_group (as_block_size config) (take n (cl_blocks c))"
    "call_send config c st = Inr (c\<lparr>cl_status := AC_WRITE, cl_n_sent := n\<rparr>,
       st\<lparr>as_sent := as_sent st @ [request_of (take n (cl_blocks c))]\<rparr>)"
    using call_send_spec [OF c(1) bs] by blast
  let ?c = "c\<lparr>cl_status := AC_WRITE, cl_n_sent := n\<rparr>"
  let ?st = "st\<lparr>as_sent := as_sent st @ [request_of (take n (cl_blocks c))]\<rparr>"
  obtain gs where gs: "as_sent st = map request_of gs" "\<forall>g \<in> set gs. block_group (as_block_size config) g"
    "as_accepted st = concat gs @ cl_blocks c @ concat (map cl_blocks (as_calls st)) @ as_blocks st"
    using order c(2) by (auto simp: active_order)
  have "inv_order config (?st\<lparr>as_active := [?c]\<rparr>)"
    unfolding active_order using gs n(3)
    by (intro exI [of _ "gs @ [take n (cl_blocks c)]"]) simp
  moreover have "inv_futures W (?st\<lparr>as_active := [?c]\<rparr>)"
    by (rule futures_cong [OF futures]) (simp_all add: call_ids_def)
  ultimately have "active_inv config W ?c ?st"
    using sizes ev wf n(1,2)
    by (simp add: active_inv_def ac_inv_def inv_sizes_def inv_events_def inv_calls_def backlog_def call_running_def)
  then show ?thesis using n(4) by (intro exI [of _ ?c] exI [of _ ?st]) simp
qed

text \<open>What remains to be done for a call, counted in completions and events.\<close>

definition call_work :: "call_data \<Rightarrow> nat" where
  "call_work c = length (cl_blocks c) +
     (case cl_status c of AC_CREATE \<Rightarrow> 4 | AC_WRITE \<Rightarrow> 3 | AC_WRITES_DONE \<Rightarrow> 3 | AC_FINISHED \<Rightarrow> 2)"

definition work :: "async_client \<Rightarrow> nat" where
  "work st = sum_list (map call_work (as_active st)) + sum_list (map (\<lambda>c. length (cl_blocks c) + 5) (as_calls st)) +
     length (as_channel st)"

lemma active_inv_call:
  assumes "active_inv config W c st"
  shows "call_running c" "list_all call_queued (as_calls st)" "list_all wf_block (backlog (st\<lparr>as_active := [c]\<rparr>))"
    "inv_sizes config W (st\<lparr>as_active := [c]\<rparr>)" "inv_events (st\<lparr>as_active := [c]\<rparr>)"
    "inv_order config (st\<lparr>as_active := [c]\<rparr>)" "inv_futures W (st\<lparr>as_active := [c]\<rparr>)"
  using assms by (simp_all add: active_inv_def ac_inv_def inv_calls_def)

lemma proceed_write:
  assumes inv: "active_inv config W c st" and c: "cl_status c = AC_WRITE" and cfg: "as_cache_limit config + W < 2 ^ 64"
  shows "\<exists>c' st'. call_proceed config status c st = Inr (Some c', st') \<and> as_active st' = as_active st \<and>
    as_channel st' = as_channel st \<and> as_calls st' = as_calls st \<and> call_work c' < call_work c \<and>
    active_inv config W c' st'"
proof -
  note parts = active_inv_call [OF inv]
  let ?n = "cl_n_sent c" and ?m = "as_cache_size st"
  have n: "0 < ?n" "?n \<le> length (cl_blocks c)" using parts(1) c by (simp_all add: call_running_def)
  have split: "sizes (cl_blocks c) = sizes (take ?n (cl_blocks c)) + sizes (drop ?n (cl_blocks c))"
    by (metis append_take_drop_id sizes_simps(3))
  have "sizes (cl_blocks c) \<le> ?m" "?m < 2 ^ 64" using parts(4) cfg by (auto simp: inv_sizes_def backlog_def)
  then have pop: "pop_blocks ?n (cl_blocks c) ?m = Inr (drop ?n (cl_blocks c), ?m - sizes (take ?n (cl_blocks c)))"
    by (rule pop_blocks_spec [OF n(2)])
  define c1 where "c1 = c\<lparr>cl_blocks := drop ?n (cl_blocks c), cl_n_sent := 0\<rparr>"
  define st1 where "st1 = st\<lparr>as_cache_size := ?m - sizes (take ?n (cl_blocks c))\<rparr>"
  have one: "inv_sizes config W (st1\<lparr>as_active := [c1]\<rparr>)"
    using parts(4) split by (simp add: inv_sizes_def backlog_def c1_def st1_def)
  have two: "inv_events (st1\<lparr>as_active := [c1]\<rparr>)" using parts(5) by (simp add: inv_events_def st1_def)
  have three: "list_all wf_block (backlog (st1\<lparr>as_active := [c1]\<rparr>))" "list_all call_queued (as_calls st1)"
    using parts(2,3) by (auto simp: backlog_def st1_def c1_def list_all_iff dest: in_set_dropD)
  have four: "inv_order config (st1\<lparr>as_active := [c1]\<rparr>)"
    using parts(6) unfolding active_order by (simp add: st1_def c1_def)
  have five: "inv_futures W (st1\<lparr>as_active := [c1]\<rparr>)"
    by (rule futures_cong [OF parts(7)]) (simp_all add: call_ids_def st1_def c1_def)
  show ?thesis
  proof (cases "drop ?n (cl_blocks c) = []")
    case True
    let ?c = "c1\<lparr>cl_status := AC_WRITES_DONE\<rparr>"
    have "call_proceed config status c st = Inr (Some ?c, st1)"
      using True by (simp add: call_proceed_def c pop c1_def st1_def)
    moreover have "active_inv config W ?c st1"
      using one two three four five True futures_cong [OF five, of "st1\<lparr>as_active := [?c]\<rparr>"]
      unfolding active_inv_def ac_inv_def inv_calls_def active_order
      by (simp add: inv_sizes_def inv_events_def backlog_def call_running_def c1_def call_ids_def)
    moreover have "call_work ?c < call_work c" using n True by (simp add: call_work_def c c1_def)
    ultimately show ?thesis by (intro exI [of _ ?c] exI [of _ st1]) (simp add: st1_def)
  next
    case False
    then have "cl_blocks c1 \<noteq> []" "cl_n_sent c1 = 0" by (simp_all add: c1_def)
    from send_active [OF one two three four five this cfg]
    obtain c' st' where s: "call_send config c1 st1 = Inr (c', st')" "as_active st' = as_active st1"
      "as_channel st' = as_channel st1" "as_calls st' = as_calls st1" "cl_status c' = AC_WRITE"
      "cl_blocks c' = cl_blocks c1" "active_inv config W c' st'"
      by blast
    have "call_proceed config status c st = Inr (Some c', st')"
      using False s(1) by (simp add: call_proceed_def c pop c1_def st1_def)
    moreover have "call_work c' < call_work c" using s(5,6) n by (simp add: call_work_def c c1_def)
    ultimately show ?thesis using s by (intro exI [of _ c'] exI [of _ st']) (simp add: st1_def)
  qed
qed

lemma proceed_create:
  assumes inv: "active_inv config W c st" and c: "cl_status c = AC_CREATE" and cfg: "as_cache_limit config + W < 2 ^ 64"
  shows "\<exists>c' st'. call_proceed config status c st = Inr (Some c', st') \<and> as_active st' = as_active st \<and>
    as_channel st' = as_channel st \<and> as_calls st' = as_calls st \<and> call_work c' < call_work c \<and>
    active_inv config W c' st'"
proof -
  note parts = active_inv_call [OF inv]
  have b: "cl_blocks c \<noteq> []" "cl_n_sent c = 0" using parts(1) c by (simp_all add: call_running_def)
  obtain c' st' where s: "call_send config c st = Inr (c', st')" "as_active st' = as_active st"
    "as_channel st' = as_channel st" "as_calls st' = as_calls st" "cl_status c' = AC_WRITE"
    "cl_blocks c' = cl_blocks c" "active_inv config W c' st'"
    using send_active [OF parts(4,5,3,2,6,7) b cfg] by blast
  have "call_proceed config status c st = Inr (Some c', st')"
    using b s(1) by (simp add: call_proceed_def c)
  moreover have "call_work c' < call_work c" using s(5,6) by (simp add: call_work_def c)
  ultimately show ?thesis using s by blast
qed

lemma proceed_writes_done:
  assumes inv: "active_inv config W c st" and c: "cl_status c = AC_WRITES_DONE"
  shows "\<exists>c' st'. call_proceed config status c st = Inr (Some c', st') \<and> as_active st' = as_active st \<and>
    as_channel st' = as_channel st \<and> as_calls st' = as_calls st \<and> call_work c' < call_work c \<and>
    active_inv config W c' st'"
proof -
  note parts = active_inv_call [OF inv]
  let ?c = "c\<lparr>cl_status := AC_FINISHED\<rparr>"
  have b: "cl_blocks c = []" "cl_n_sent c = 0" using parts(1) c by (simp_all add: call_running_def)
  have "active_inv config W ?c st"
    using parts(2-6) b futures_cong [OF parts(7), of "st\<lparr>as_active := [?c]\<rparr>"]
    unfolding active_inv_def ac_inv_def inv_calls_def active_order
    by (simp add: inv_sizes_def inv_events_def backlog_def call_running_def call_ids_def)
  then show ?thesis
    by (intro exI [of _ ?c] exI [of _ st]) (simp add: call_proceed_def c call_work_def)
qed

lemma proceed_finished:
  assumes inv: "active_inv config W c st" and c: "cl_status c = AC_FINISHED"
  shows "call_proceed config status c st = Inr (None, call_end c status st) \<and>
    ac_inv config W ((call_end c status st)\<lparr>as_active := []\<rparr>)"
proof -
  note parts = active_inv_call [OF inv]
  have b: "cl_blocks c = []" "cl_n_sent c = 0" using parts(1) c by (simp_all add: call_running_def)
  have "inv_futures W ((call_end c status st)\<lparr>as_active := []\<rparr>)"
    by (rule keep_promise_futures [OF parts(7), where k = "cl_id c" and ks = "map cl_id (as_calls st)" and status = status])
       (simp_all add: call_ids_def call_end_def)
  moreover have "inv_order config ((call_end c status st)\<lparr>as_active := []\<rparr>)"
    using parts(6) b unfolding active_order by (simp add: inv_order_def unsent_def call_end_def)
  moreover have "inv_events ((call_end c status st)\<lparr>as_active := []\<rparr>)"
    using parts(5) by (auto simp: inv_events_def call_end_def send_def)
  ultimately have "ac_inv config W ((call_end c status st)\<lparr>as_active := []\<rparr>)"
    using parts(2-4) b by (simp add: ac_inv_def inv_sizes_def inv_calls_def backlog_def call_end_def)
  then show ?thesis by (simp add: call_proceed_def c)
qed

lemma one_active:
  assumes "inv_events st" "i < length (as_active st)"
  shows "\<exists>c. as_active st = [c] \<and> i = 0"
  using assms by (cases "as_active st") (auto simp: inv_events_def split: if_splits)

text \<open>Every completion succeeds, keeps the invariant and leaves less to do.\<close>

lemma completion_spec:
  assumes inv: "ac_inv config W st" and i: "i < length (as_active st)" and cfg: "as_cache_limit config + W < 2 ^ 64"
  shows "\<exists>st'. completion config i status st = Inr st' \<and> ac_inv config W st' \<and> work st' < work st \<and>
    as_terminated st' = as_terminated st \<and> (TERMINATED \<notin> set (as_channel st) \<longrightarrow> TERMINATED \<notin> set (as_channel st'))"
proof -
  have "inv_events st" using inv by (simp add: ac_inv_def)
  then obtain c where c: "as_active st = [c]" "i = 0" using one_active i by blast
  have act: "active_inv config W c st" using inv c(1) by (simp add: active_inv_def flip: c(1))
  show ?thesis
  proof (cases "cl_status c = AC_FINISHED")
    case True
    let ?st = "(call_end c status st)\<lparr>as_active := []\<rparr>"
    have "completion config i status st = Inr ?st"
      using proceed_finished [OF act True] c by (simp add: completion_def call_end_def)
    moreover have "work ?st < work st" using c True by (simp add: work_def call_end_def send_def call_work_def)
    ultimately show ?thesis
      using proceed_finished [OF act True] by (simp add: call_end_def send_def)
  next
    case False
    then obtain c' st' where p: "call_proceed config status c st = Inr (Some c', st')" "as_active st' = as_active st"
      "as_channel st' = as_channel st" "as_calls st' = as_calls st" "call_work c' < call_work c" "active_inv config W c' st'"
      using proceed_create [OF act _ cfg] proceed_write [OF act _ cfg] proceed_writes_done [OF act]
      by (cases "cl_status c") metis+
    have "as_terminated st' = as_terminated st"
      using p(1) False by (auto simp: call_proceed_def call_send_def rbind_eq_Inr_conv Let_def split: call_status.splits if_splits)
    moreover have "completion config i status st = Inr (st'\<lparr>as_active := [c']\<rparr>)"
      using p(1,2) c by (simp add: completion_def)
    ultimately show ?thesis
      using p(3-6) c by (simp add: active_inv_def work_def)
  qed
qed

lemma ac_reachable_inv:
  assumes "ac_reachable config W st" "as_cache_limit config + W < 2 ^ 64"
  shows "ac_inv config W st"
  using assms
proof (induction rule: ac_reachable.induct)
  case (terminating st)
  then have inv: "ac_inv config W st" by simp
  moreover have "inv_events (st\<lparr>as_channel := send TERMINATED (as_channel st)\<rparr>)"
    using inv by (auto simp: ac_inv_def inv_events_def send_def)
  ultimately show ?case by (simp add: ac_inv_def)
next
  case (stepped st st')
  have inv: "ac_inv config W st" by (rule stepped.IH [OF stepped.prems])
  from stepped.hyps(2) show ?case
  proof cases
    case scheduled
    then show ?thesis by (rule scheduler_inv [OF inv])
  next
    case (completed i status)
    then show ?thesis using completion_spec [OF inv completed(1) stepped.prems, of status] by auto
  qed
qed (auto intro: new_inv async_write_inv write_resume_inv schedule_flush_inv)

section \<open>Progress\<close>

lemma start_next_work:
  "as_calls st \<noteq> [] \<Longrightarrow> as_active st = [] \<Longrightarrow> work (start_next st) < work st"
  by (cases "as_calls st")
     (auto simp: start_next_def call_start_def call_end_def work_def send_def call_work_def split: call_status.splits)

lemma start_next_frame:
  "as_terminated (start_next st) = as_terminated st" "as_next_id (start_next st) = as_next_id st"
  "as_blocks (start_next st) = as_blocks st"
  "count_list (as_channel (start_next st)) TERMINATED = count_list (as_channel st) TERMINATED"
  by (auto simp: start_next_def call_start_def call_end_def send_def split: list.splits)

text \<open>Every round of the scheduler leaves less to do, unless it only puts \<^verbatim>\<open>TERMINATED\<close> off.\<close>

lemma scheduler_event:
  assumes inv: "ac_inv config W st" and st': "scheduler st = Some st'"
    and q: "as_channel st = ev # q" and t: "ev \<noteq> TERMINATED"
  shows "work st' < work st \<and> as_terminated st' = as_terminated st \<and>
    count_list (as_channel st') TERMINATED = count_list (as_channel st) TERMINATED"
proof -
  have ev: "inv_events st" using inv by (simp add: ac_inv_def)
  have less: "work (st\<lparr>as_channel := q, as_flushing := f\<rparr>) < work st" "work (st\<lparr>as_channel := q\<rparr>) < work st" for f
    by (simp_all add: work_def q)
  have idle: "ev = CALL_ENDED \<or> \<not> as_flushing st \<Longrightarrow> as_active st = []"
    using ev q by (auto simp: inv_events_def split: if_splits)
  show ?thesis
  proof (cases "as_calls st \<noteq> [] \<and> (ev = CALL_ENDED \<or> \<not> as_flushing st)")
    case True
    define st1 where "st1 = (if ev = CALL_ENDED then st\<lparr>as_channel := q, as_flushing := False\<rparr> else st\<lparr>as_channel := q\<rparr>)"
    have "st' = start_next st1"
      using st' q True t by (cases ev) (auto simp: scheduler_def receive_def st1_def split: if_splits)
    moreover have "work (start_next st1) < work st1"
      using True idle by (intro start_next_work) (simp_all add: st1_def)
    ultimately show ?thesis
      using less t q by (auto simp: st1_def start_next_frame split: if_splits intro: less_trans [OF _ less(1)] less_trans [OF _ less(2)])
  next
    case False
    then show ?thesis
      using st' q t by (cases ev) (auto simp: scheduler_def receive_def start_next_def work_def split: if_splits list.splits)
  qed
qed

lemma scheduler_work:
  assumes "ac_inv config W st" "scheduler st = Some st'" "TERMINATED \<notin> set (as_channel st)"
  shows "work st' < work st \<and> as_terminated st' = as_terminated st \<and> TERMINATED \<notin> set (as_channel st')"
proof -
  obtain ev q where q: "as_channel st = ev # q"
    using assms(2) by (auto simp: scheduler_def receive_def split: if_splits list.splits)
  then show ?thesis using scheduler_event [OF assms(1,2) q] assms(3) by (auto simp: count_list_0_iff)
qed

lemma internal_work:
  assumes "ac_inv config W st" "ac_internal config st st'" "TERMINATED \<notin> set (as_channel st)"
    "as_cache_limit config + W < 2 ^ 64"
  shows "work st' < work st \<and> as_terminated st' = as_terminated st \<and> TERMINATED \<notin> set (as_channel st') \<and>
    ac_inv config W st'"
  using assms(2)
proof cases
  case scheduled
  then show ?thesis using scheduler_work [OF assms(1) _ assms(3)] scheduler_inv [OF assms(1)] by blast
next
  case (completed i status)
  then show ?thesis using completion_spec [OF assms(1) completed(1) assms(4), of status] assms(3) by auto
qed

lemma internal_next_id: "ac_internal config st st' \<Longrightarrow> as_next_id st' = as_next_id st"
proof (induction rule: ac_internal.induct)
  case (scheduled st st')
  then show ?case
    by (auto simp: scheduler_def start_next_frame Let_def split: if_splits option.splits event.splits)
next
  case (completed i st status st')
  then show ?case
    by (auto simp: completion_def call_proceed_def call_send_def call_end_def rbind_eq_Inr_conv Let_def
        split: call_status.splits if_splits)
qed

text \<open>With nothing left to do, every promise is kept and only queued blocks remain.\<close>

lemma quiescent:
  assumes inv: "ac_inv config W st" and t: "\<not> as_terminated st" and cfg: "as_cache_limit config + W < 2 ^ 64"
    and stuck: "\<nexists>st'. ac_internal config st st'"
  shows "as_active st = [] \<and> as_calls st = [] \<and> (\<forall>k < as_next_id st. k \<in> fst ` set (as_promises st)) \<and>
    backlog st = as_blocks st"
proof -
  have "scheduler st = None" using stuck ac_internal.scheduled [of st] by (cases "scheduler st") auto
  then have ch: "as_channel st = []"
    using t by (auto simp: scheduler_def receive_def Let_def split: list.splits)
  have act: "as_active st = []"
    using stuck completion_spec [OF inv _ cfg, of 0 True] ac_internal.completed [of 0 st config True]
    by (cases "as_active st") auto
  have "as_calls st = []"
    using inv ch act by (auto simp: ac_inv_def inv_events_def split: if_splits)
  then show ?thesis
    using inv act by (auto simp: ac_inv_def inv_futures_def call_ids_def backlog_def)
qed

lemma drains:
  assumes "ac_inv config W st" "\<not> as_terminated st" "TERMINATED \<notin> set (as_channel st)"
    "as_cache_limit config + W < 2 ^ 64"
  shows "\<exists>st'. (ac_internal config)\<^sup>*\<^sup>* st st' \<and> as_active st' = [] \<and> as_calls st' = [] \<and>
    (\<forall>k < as_next_id st. k \<in> fst ` set (as_promises st')) \<and> as_cache_size st' = sizes (as_blocks st')"
  using assms(1-3)
proof (induction "work st" arbitrary: st rule: less_induct)
  case less
  show ?case
  proof (cases "\<exists>st'. ac_internal config st st'")
    case True
    then obtain st1 where one: "ac_internal config st st1" by blast
    have w: "work st1 < work st" "as_terminated st1 = as_terminated st" "TERMINATED \<notin> set (as_channel st1)"
      "ac_inv config W st1"
      using internal_work [OF less.prems(1) one less.prems(3) assms(4)] by auto
    with less.hyps [OF w(1) w(4)] less.prems(2) internal_next_id [OF one] one show ?thesis
      by (metis converse_rtranclp_into_rtranclp)
  next
    case False
    then show ?thesis
      using quiescent [OF less.prems(1,2) assms(4)] less.prems(1)
      by (intro exI [of _ st]) (auto simp: ac_inv_def inv_sizes_def)
  qed
qed

section \<open>Properties\<close>

text \<open>
  C2. Asynchronous writes reach the server in the order they were made, each once: in every
  state the threads can reach, the blocks accepted so far are some that have been sent
  followed by those still unsent, and the messages sent, executed by the server one after the
  other, have exactly the effect of the sent writes executed one by one, although neighbouring
  writes travel merged.
\<close>

theorem async_writes_in_order:
  assumes "ac_reachable config W st" "as_cache_limit config + W < 2 ^ 64"
    and "op_write ops = Some f" "splits_writes f"
  shows "\<exists>sent. as_accepted st = sent @ unsent st \<and>
    served_effect ops (as_sent st) s = effects (block_effect f) sent s"
proof -
  obtain gs where "as_sent st = map request_of gs" "\<forall>g \<in> set gs. block_group (as_block_size config) g"
    "as_accepted st = concat gs @ unsent st"
    using ac_reachable_inv [OF assms(1,2)] by (auto simp: ac_inv_def inv_order_def)
  then show ?thesis using served_groups_effect [OF assms(3,4)] by (intro exI [of _ "concat gs"]) simp
qed

text \<open>A file per path, written as \<^verbatim>\<open>pwrite\<close> does: a gap reads as zeros, no bytes change nothing.\<close>

definition pwrite :: "bytes \<Rightarrow> nat \<Rightarrow> bytes \<Rightarrow> bytes" where
  "pwrite F off d = (if d = [] then F
     else take off F @ replicate (off - length F) (CHR 0x00) @ d @ drop (off + length d) F)"

definition file_write :: "(path \<Rightarrow> bytes) write_op" where
  "file_write path buf n off fi fs = Inr ((int n, fi), fs(path := pwrite (fs path) (nat off) (take n buf)))"

lemma pwrite_append: "pwrite (pwrite F off d1) (off + length d1) d2 = pwrite F off (d1 @ d2)"
  by (auto simp: pwrite_def min_def ac_simps)

lemma file_write_splits: "splits_writes file_write"
  by (auto simp: splits_writes_def write_effect_def file_write_def nat_add_distrib pwrite_append)

definition sample_config :: async_config where
  "sample_config = \<lparr>as_cache_limit = 100, as_block_size = 8, as_threads = 1, as_flush_threshold = 100\<rparr>"

definition sample_block :: "bytes \<Rightarrow> int \<Rightarrow> ablock" where
  "sample_block d off = \<lparr>ab_path = ''/f'', ab_buf = d, ab_size = length d, ab_offset = off, ab_fi = zero_file_info\<rparr>"

text \<open>Two neighbouring writes, a flush, the scheduler, and the start of the stream.\<close>

definition sample_queued :: async_client where
  "sample_queued = snd (schedule_flush (async_write sample_config (sample_block ''de'' 3)
     (async_write sample_config (sample_block ''abc'' 0) async_client_new)))"

definition sample_started :: async_client where
  "sample_started = start_next (sample_queued\<lparr>as_channel := []\<rparr>)"

definition sample_sent :: async_client where
  "sample_sent = sample_started\<lparr>
     as_active := [\<lparr>cl_id = 0, cl_blocks = [sample_block ''abc'' 0, sample_block ''de'' 3], cl_status = AC_WRITE, cl_n_sent = 2\<rparr>],
     as_sent := [WriteRequest ''/f'' 5 0 ''abcde'' (wire_info zero_file_info)]\<rparr>"

lemmas sample_simps = sample_queued_def sample_config_def sample_block_def
  async_write_def push_block_def schedule_flush_def async_client_new_def channel_new_def send_def size_add_exact

lemma sample_queued_eq:
  "sample_queued = \<lparr>as_blocks = [], as_queue_size = 0, as_cache_size = 5,
     as_calls = [\<lparr>cl_id = 0, cl_blocks = [sample_block ''abc'' 0, sample_block ''de'' 3], cl_status = AC_CREATE, cl_n_sent = 0\<rparr>],
     as_channel = [FLUSH_REQUEST], as_flushing = False, as_terminated = False, as_active = [], as_next_id = 1,
     as_promises = [], as_waiting = None, as_accepted = [sample_block ''abc'' 0, sample_block ''de'' 3], as_sent = []\<rparr>"
  by (simp add: sample_simps)

lemma sample_started_eq:
  "sample_started = sample_queued\<lparr>as_calls := [], as_channel := [], as_flushing := True,
     as_active := [\<lparr>cl_id = 0, cl_blocks = [sample_block ''abc'' 0, sample_block ''de'' 3], cl_status = AC_CREATE, cl_n_sent = 0\<rparr>]\<rparr>"
  by (simp add: sample_started_def sample_queued_eq start_next_def call_start_def)

lemma sample_send_block:
  "send_block 8 [sample_block ''abc'' 0, sample_block ''de'' 3] =
     Inr (WriteRequest ''/f'' 5 0 ''abcde'' (wire_info zero_file_info), 2)"
  by (simp add: send_block_def sample_block_def is_mergeable_def size_add_exact size_of_int_def mem_copy_def resize_def)

lemma sample_queued_reachable: "ac_reachable sample_config 10 sample_queued"
  unfolding sample_queued_def
  by (rule ac_reachable.flushed, rule ac_reachable.written, rule ac_reachable.written, rule ac_reachable.started)
     (simp_all add: sample_simps wf_block_def)

lemma sample_started_reachable: "ac_reachable sample_config 10 sample_started"
  by (rule ac_reachable.stepped [OF sample_queued_reachable], rule ac_internal.scheduled)
     (simp add: sample_started_def sample_queued_eq scheduler_def receive_def)

lemma sample_sent_reachable: "ac_reachable sample_config 10 sample_sent"
  by (rule ac_reachable.stepped [OF sample_started_reachable],
      rule ac_internal.completed [where i = 0 and status = True])
     (simp_all add: sample_sent_def sample_started_eq sample_queued_eq completion_def call_proceed_def call_send_def
        sample_config_def sample_send_block)

theorem async_writes_in_order_witness:
  "as_sent sample_sent = [WriteRequest ''/f'' 5 0 ''abcde'' (wire_info zero_file_info)] \<and>
   (\<exists>sent. as_accepted sample_sent = sent @ unsent sample_sent \<and>
      served_effect (null_operations\<lparr>op_write := Some file_write\<rparr>) (as_sent sample_sent) (\<lambda>_. []) =
        effects (block_effect file_write) sent (\<lambda>_. []))"
proof -
  have "\<exists>sent. as_accepted sample_sent = sent @ unsent sample_sent \<and>
      served_effect (null_operations\<lparr>op_write := Some file_write\<rparr>) (as_sent sample_sent) (\<lambda>_. []) =
        effects (block_effect file_write) sent (\<lambda>_. [])"
    by (rule async_writes_in_order [OF sample_sent_reachable]) (simp_all add: sample_config_def file_write_splits)
  then show ?thesis by (simp add: sample_sent_def)
qed

text \<open>
  C40. Messages are bounded: every message of the asynchronous client announces as many bytes as
  it carries, and either carries a single accepted write or at most the configured block size.
\<close>

theorem async_messages_bounded:
  assumes "ac_reachable config W st" "as_cache_limit config + W < 2 ^ 64"
    and "WriteRequest path sz off buf info \<in> set (as_sent st)"
  shows "length buf = sz \<and>
    (sz \<le> as_block_size config \<or> (\<exists>b \<in> set (as_accepted st). WriteRequest path sz off buf info = request_of [b]))"
proof -
  obtain gs where gs: "as_sent st = map request_of gs" "\<forall>g \<in> set gs. block_group (as_block_size config) g"
    "as_accepted st = concat gs @ unsent st"
    using ac_reachable_inv [OF assms(1,2)] by (auto simp: ac_inv_def inv_order_def)
  then obtain g where g: "g \<in> set gs" "WriteRequest path sz off buf info = request_of g"
    using assms(3) by auto
  have grp: "block_group (as_block_size config) g" using gs(2) g(1) by blast
  then have "length buf = sz" "sz = sizes g" using g(2) by (simp_all add: request_of_def block_group_def wf_concat_length)
  moreover have "\<exists>b \<in> set (as_accepted st). g = [b]" if "length g = 1"
    using that g(1) gs(3) by (cases g) force+
  ultimately show ?thesis using grp g(2) by (auto simp: block_group_def)
qed

theorem async_messages_bounded_witness:
  "length ''abcde'' = 5 \<and> WriteRequest ''/f'' 5 0 ''abcde'' (wire_info zero_file_info) \<in> set (as_sent sample_sent)"
  using async_messages_bounded [OF sample_sent_reachable, of "''/f''" 5 0 "''abcde''" "wire_info zero_file_info"]
  by (simp add: sample_sent_def sample_config_def)

text \<open>
  The client's memory is accounted for and bounded: \<^verbatim>\<open>cache_size_\<close> is the total size of the
  blocks held by the queue, the waiting calls and the running call, \<^verbatim>\<open>blocks_queue_size_\<close> that of
  the queue; the subtractions never wrap; and the total never exceeds the configured cache
  size by more than one write.
\<close>

theorem async_cache_bounded:
  assumes "ac_reachable config W st" "as_cache_limit config + W < 2 ^ 64"
  shows "as_cache_size st = sizes (backlog st) \<and> as_queue_size st = sizes (as_blocks st) \<and>
    sizes (backlog st) \<le> as_cache_limit config + W"
  using ac_reachable_inv [OF assms] by (simp add: ac_inv_def inv_sizes_def)

theorem async_cache_bounded_witness:
  "as_cache_size sample_sent = 5 \<and> sizes (backlog sample_sent) \<le> 110"
  using async_cache_bounded [OF sample_sent_reachable]
  by (simp add: sample_sent_def sample_started_eq sample_queued_eq sample_config_def)

text \<open>
  C24. At most one call talks to the server at any time, and no flush is lost: a call that waits
  is preceded by a running call, an end of call or a flush request the scheduler has still to
  see.
\<close>

theorem async_one_call_at_a_time:
  assumes "ac_reachable config W st" "as_cache_limit config + W < 2 ^ 64"
  shows "length (as_active st) \<le> 1 \<and>
    (as_calls st = [] \<or> as_active st \<noteq> [] \<or> CALL_ENDED \<in> set (as_channel st) \<or> FLUSH_REQUEST \<in> set (as_channel st))"
proof -
  have ev: "inv_events st" using ac_reachable_inv [OF assms] by (simp add: ac_inv_def)
  have "CALL_ENDED \<in> set (as_channel st)" if "as_flushing st" "as_active st = []"
    using ev that by (metis add_0 count_list_0_iff inv_events_def list.size(3) zero_neq_one)
  with ev show ?thesis by (auto simp: inv_events_def split: if_splits)
qed

theorem async_one_call_at_a_time_witness:
  "length (as_active sample_sent) \<le> 1 \<and> length (as_active sample_sent) = 1"
  using async_one_call_at_a_time [OF sample_sent_reachable] by (simp add: sample_sent_def sample_config_def)

text \<open>
  C23. Flushing completes: as long as the client is not being destroyed, every step of the
  scheduler or of a call leaves less work to do, no matter how the threads interleave, and the
  steps lead to a state in which no call is left, the promise of every flush made so far is
  kept, so that \<^verbatim>\<open>schedule_flush().get()\<close> returns, and the client holds no block but those queued
  since.
\<close>

theorem async_flush_completes:
  assumes "ac_reachable config W st" "as_cache_limit config + W < 2 ^ 64"
    and "\<not> as_terminated st" "TERMINATED \<notin> set (as_channel st)"
  shows "(\<forall>st'. ac_internal config st st' \<longrightarrow> work st' < work st) \<and>
    (\<exists>st'. (ac_internal config)\<^sup>*\<^sup>* st st' \<and> as_active st' = [] \<and> as_calls st' = [] \<and>
      (\<forall>k < as_next_id st. k \<in> fst ` set (as_promises st')) \<and> as_cache_size st' = sizes (as_blocks st'))"
  using drains [OF ac_reachable_inv [OF assms(1,2)] assms(3,4,2)]
    internal_work [OF ac_reachable_inv [OF assms(1,2)] _ assms(4,2)]
  by blast

theorem async_flush_completes_witness:
  "\<exists>st'. (ac_internal sample_config)\<^sup>*\<^sup>* sample_sent st' \<and> as_active st' = [] \<and> 0 \<in> fst ` set (as_promises st')"
  using async_flush_completes [OF sample_sent_reachable]
  by (simp add: sample_sent_def sample_started_eq sample_queued_eq sample_config_def) blast

end
