(* ===== verification/Async_Lifecycle.thy ===== *)
theory Async_Lifecycle
  imports Async_Client Remote
begin

text \<open>
  The life of an asynchronous client around its core (\<open>Async_Client\<close>): \<^verbatim>\<open>flush\<close> and \<^verbatim>\<open>fsync\<close>, which
  wait for the blocks queued so far before they call the server, the timer that flushes a
  second after the last write, the threads that serve the completion queue and the timer, and
  the destructor. The server at the other end executes the messages of the open stream one by
  one, in between the steps of the client's threads.
\<close>

section \<open>State\<close>

text \<open>The call a thread makes once its flush has completed.\<close>

datatype sync_op = Flush_op path fuse_file_info | Fsync_op path int fuse_file_info

text \<open>Where the destructor stands; \<open>Flushing\<close> carries the future it waits for.\<close>

datatype dtor_phase = Alive | Flushing nat | Joining | Draining | Stopped

text \<open>
  What the server did: a message of a write stream executed, or a synchronous call answered
  with a result. The number is how many blocks the client had accepted when the call began.
\<close>

datatype srv_event = Wrote WriteRequest | Synced sync_op nat int

text \<open>
  \<open>aw_timer\<close>: the timer is running; \<open>aw_handlers\<close>: expired timers whose handler has still to run;
  \<open>aw_wire\<close>: messages of the open stream the server has not executed yet; \<open>aw_net\<close>: the base class
  and the server; \<open>aw_flushers\<close>: threads in \<^verbatim>\<open>flush\<close> or \<^verbatim>\<open>fsync\<close> waiting for a future.
\<close>

record 's async_world =
  aw_client :: async_client
  aw_timer :: bool
  aw_handlers :: nat
  aw_wire :: "WriteRequest list"
  aw_net :: "('s loopback_net, nat) client_state"
  aw_flushers :: "(nat \<times> nat \<times> sync_op) list"
  aw_phase :: dtor_phase
  aw_log :: "srv_event list"

definition async_world_new :: "('s loopback_net, nat) client_state \<Rightarrow> 's async_world" where
  "async_world_new net = \<lparr>aw_client = async_client_new, aw_timer = False, aw_handlers = 0, aw_wire = [],
     aw_net = net, aw_flushers = [], aw_phase = Alive, aw_log = []\<rparr>"

section \<open>Operations\<close>

text \<open>
  \<^verbatim>\<open>write\<close> cancels the timer when it begins and starts it when it ends: at once, or after the
  wait for a flush. A handler that has been queued already is not cancelled.
\<close>

definition world_write :: "async_config \<Rightarrow> ablock \<Rightarrow> 's async_world \<Rightarrow> 's async_world" where
  "world_write config b w =
     (let st = async_write config b (aw_client w)
      in w\<lparr>aw_client := st, aw_timer := (as_waiting st = None)\<rparr>)"

definition world_resume :: "'s async_world \<Rightarrow> 's async_world option" where
  "world_resume w =
     (case write_resume (aw_client w) of
        None \<Rightarrow> None
      | Some st \<Rightarrow> Some (w\<lparr>aw_client := st, aw_timer := True\<rparr>))"

text \<open>The first half of \<^verbatim>\<open>flush\<close> and \<^verbatim>\<open>fsync\<close>, up to the wait in \<^verbatim>\<open>schedule_flush().get()\<close>.\<close>

definition flush_call :: "sync_op \<Rightarrow> 's async_world \<Rightarrow> 's async_world" where
  "flush_call op w =
     (case schedule_flush (aw_client w) of
        (fut, st) \<Rightarrow> w\<lparr>aw_client := st,
          aw_flushers := aw_flushers w @ [(fut, length (as_accepted (aw_client w)), op)]\<rparr>)"

text \<open>The second half, \<^verbatim>\<open>sync_client::flush\<close> or \<^verbatim>\<open>sync_client::fsync\<close>: the future's value is not used.\<close>

definition sync_call :: "(('s loopback_net, nat) stub) \<Rightarrow> sync_op
    \<Rightarrow> (('s loopback_net, nat) client_state, int \<times> fi_ptr) action" where
  "sync_call stub op =
     (case op of
        Flush_op path fi \<Rightarrow> sc_flush stub path (Some fi)
      | Fsync_op path isdatasync fi \<Rightarrow> sc_fsync stub path isdatasync (Some fi))"

definition flush_return :: "('s, dir_info) fuse_operations \<Rightarrow> nat \<Rightarrow> 's async_world \<Rightarrow> 's async_world option" where
  "flush_return ops i w =
     (case aw_flushers w ! i of
        (fut, n, op) \<Rightarrow>
          if fut \<in> fst ` set (as_promises (aw_client w))
          then (case sync_call (loopback ops) op (aw_net w) of
                  Inl _ \<Rightarrow> None
                | Inr ((res, _), net) \<Rightarrow>
                    Some (w\<lparr>aw_net := net, aw_log := aw_log w @ [Synced op n res],
                            aw_flushers := take i (aw_flushers w) @ drop (Suc i) (aw_flushers w)\<rparr>))
          else None)"

text \<open>
  The timer: when it expires its handler is queued, and the thread in \<^verbatim>\<open>io_context_.run()\<close> runs
  it; the handler was registered with no error code, so it schedules a flush.
\<close>

definition timer_expires :: "'s async_world \<Rightarrow> 's async_world option" where
  "timer_expires w = (if aw_timer w \<and> aw_phase w \<noteq> Stopped then Some (w\<lparr>aw_timer := False, aw_handlers := Suc (aw_handlers w)\<rparr>) else None)"

definition run_io_context :: "'s async_world \<Rightarrow> 's async_world option" where
  "run_io_context w =
     (if aw_phase w = Stopped then None
      else case aw_handlers w of
        0 \<Rightarrow> None
      | Suc k \<Rightarrow> Some (w\<lparr>aw_client := snd (schedule_flush (aw_client w)), aw_handlers := k\<rparr>))"

text \<open>The scheduler thread.\<close>

definition world_schedule :: "'s async_world \<Rightarrow> 's async_world option" where
  "world_schedule w =
     (case scheduler (aw_client w) of None \<Rightarrow> None | Some st \<Rightarrow> Some (w\<lparr>aw_client := st\<rparr>))"

text \<open>
  One round of \<^verbatim>\<open>async_complete\<close>: the completion of the \<open>i\<close>-th started call. What the call writes
  goes onto the stream. The last completion, that of \<^verbatim>\<open>Finish\<close>, delivers the status of the stream
  and ends it: the server answers OK only after it has read the stream to its end, and a
  stream that fails loses what has not been executed.
\<close>

definition async_complete :: "async_config \<Rightarrow> nat \<Rightarrow> bool \<Rightarrow> 's async_world \<Rightarrow> 's async_world option" where
  "async_complete config i status w =
     (let st = aw_client w; finish = (cl_status (as_active st ! i) = AC_FINISHED)
      in if finish \<and> status \<and> aw_wire w \<noteq> [] then None
         else case completion config i status st of
           Inl _ \<Rightarrow> None
         | Inr st1 \<Rightarrow> Some (w\<lparr>aw_client := st1,
             aw_wire := if finish then [] else aw_wire w @ drop (length (as_sent st)) (as_sent st1)\<rparr>))"

text \<open>The server: the stream's call object receives the next message.\<close>

definition serve_next :: "('s, dir_info) fuse_operations \<Rightarrow> 's async_world \<Rightarrow> 's async_world option" where
  "serve_next ops w =
     (case aw_wire w of
        [] \<Rightarrow> None
      | q # qs \<Rightarrow>
          (case ac_stream_write_proceed ops True q \<lparr>swd_status = S_READ\<rparr> (lb_srv (snd (aw_net w))) of
             Inl _ \<Rightarrow> None
           | Inr (_, s) \<Rightarrow> Some (w\<lparr>aw_wire := qs, aw_log := aw_log w @ [Wrote q],
               aw_net := (fst (aw_net w), (snd (aw_net w))\<lparr>lb_srv := s\<rparr>)\<rparr>)))"

text \<open>
  The destructor: schedule a flush and wait for it; send \<^verbatim>\<open>TERMINATED\<close> and join the scheduler;
  shut the completion queue down and join its threads, which leave their loop once no
  completion is outstanding; stop the timer's thread.
\<close>

definition dtor_begin :: "'s async_world \<Rightarrow> 's async_world option" where
  "dtor_begin w =
     (if aw_phase w = Alive
      then (case schedule_flush (aw_client w) of (fut, st) \<Rightarrow> Some (w\<lparr>aw_client := st, aw_phase := Flushing fut\<rparr>))
      else None)"

definition dtor_next :: "'s async_world \<Rightarrow> 's async_world option" where
  "dtor_next w =
     (case aw_phase w of
        Flushing fut \<Rightarrow>
          if fut \<in> fst ` set (as_promises (aw_client w))
          then Some (w\<lparr>aw_client := (aw_client w)\<lparr>as_channel := send TERMINATED (as_channel (aw_client w))\<rparr>,
                       aw_phase := Joining\<rparr>)
          else None
      | Joining \<Rightarrow> if as_terminated (aw_client w) then Some (w\<lparr>aw_phase := Draining\<rparr>) else None
      | Draining \<Rightarrow> if as_active (aw_client w) = [] then Some (w\<lparr>aw_phase := Stopped\<rparr>) else None
      | _ \<Rightarrow> None)"

section \<open>Interleavings\<close>

text \<open>
  Steps the client takes by itself (its own threads and the server), and everything that can
  happen. Members are not called any more once the destructor has begun. Whoever calls
  \<^verbatim>\<open>schedule_flush\<close> waits while a writer holds \<^verbatim>\<open>mtx_blocks_\<close>. \<open>other\<close> stands for the synchronous
  operations of any client: they may do anything to the server's files and to the streams of
  the base class.
\<close>

inductive aw_progress :: "('s, dir_info) fuse_operations \<Rightarrow> async_config \<Rightarrow> 's async_world \<Rightarrow> 's async_world \<Rightarrow> bool"
  for ops config where
  sched: "world_schedule w = Some w' \<Longrightarrow> aw_progress ops config w w'"
| complete: "i < length (as_active (aw_client w)) \<Longrightarrow> async_complete config i status w = Some w' \<Longrightarrow>
    aw_progress ops config w w'"
| serve: "serve_next ops w = Some w' \<Longrightarrow> aw_progress ops config w w'"
| expire: "timer_expires w = Some w' \<Longrightarrow> aw_progress ops config w w'"
| handler: "as_waiting (aw_client w) = None \<Longrightarrow> run_io_context w = Some w' \<Longrightarrow> aw_progress ops config w w'"
| destroy: "dtor_next w = Some w' \<Longrightarrow> aw_progress ops config w w'"

inductive aw_reachable :: "('s, dir_info) fuse_operations \<Rightarrow> async_config \<Rightarrow> nat \<Rightarrow> 's async_world \<Rightarrow> bool"
  for ops config W where
  start: "aw_reachable ops config W (async_world_new net)"
| written: "aw_reachable ops config W w \<Longrightarrow> aw_phase w = Alive \<Longrightarrow> as_waiting (aw_client w) = None \<Longrightarrow>
    wf_block b \<Longrightarrow> ab_size b \<le> W \<Longrightarrow> aw_reachable ops config W (world_write config b w)"
| resumed: "aw_reachable ops config W w \<Longrightarrow> world_resume w = Some w' \<Longrightarrow> aw_reachable ops config W w'"
| flushed: "aw_reachable ops config W w \<Longrightarrow> aw_phase w = Alive \<Longrightarrow> as_waiting (aw_client w) = None \<Longrightarrow>
    aw_reachable ops config W (flush_call op w)"
| returned: "aw_reachable ops config W w \<Longrightarrow> i < length (aw_flushers w) \<Longrightarrow> flush_return ops i w = Some w' \<Longrightarrow>
    aw_reachable ops config W w'"
| other: "aw_reachable ops config W w \<Longrightarrow> aw_reachable ops config W (w\<lparr>aw_net := net\<rparr>)"
| destructed: "aw_reachable ops config W w \<Longrightarrow> as_waiting (aw_client w) = None \<Longrightarrow> aw_flushers w = [] \<Longrightarrow>
    dtor_begin w = Some w' \<Longrightarrow> aw_reachable ops config W w'"
| progressed: "aw_reachable ops config W w \<Longrightarrow> aw_progress ops config w w' \<Longrightarrow> aw_reachable ops config W w'"

text \<open>The client inside the world is one of the core's.\<close>

lemma world_client_reachable: "aw_reachable ops config W w \<Longrightarrow> ac_reachable config W (aw_client w)"
proof (induction rule: aw_reachable.induct)
  case (progressed w w')
  from progressed.hyps(2) show ?case
  proof cases
    case sched
    then show ?thesis
      using ac_reachable.stepped [OF progressed.IH ac_internal.scheduled]
      by (auto simp: world_schedule_def split: option.splits)
  next
    case (complete i status)
    then show ?thesis
      using ac_reachable.stepped [OF progressed.IH ac_internal.completed]
      by (auto simp: async_complete_def Let_def split: if_splits sum.splits)
  next
    case serve
    then show ?thesis using progressed.IH by (auto simp: serve_next_def split: list.splits sum.splits)
  next
    case expire
    then show ?thesis using progressed.IH by (auto simp: timer_expires_def split: if_splits)
  next
    case handler
    then show ?thesis
      using ac_reachable.flushed [OF progressed.IH] by (auto simp: run_io_context_def split: if_splits nat.splits)
  next
    case destroy
    then show ?thesis
      using progressed.IH ac_reachable.terminating [OF progressed.IH]
      by (auto simp: dtor_next_def split: dtor_phase.splits if_splits)
  qed
next
  case (start net)
  then show ?case by (simp add: async_world_new_def ac_reachable.started)
next
  case (resumed w w')
  then show ?case by (auto simp: world_resume_def split: option.splits intro: ac_reachable.resumed)
qed (auto simp: world_write_def Let_def flush_call_def flush_return_def dtor_begin_def schedule_flush_def [symmetric] split: prod.splits if_splits sum.splits nat.splits
      intro: ac_reachable.written dest: ac_reachable.flushed)

section \<open>What a step of the client's threads sends\<close>

text \<open>The blocks that are not part of the call \<open>fut\<close> or an earlier one and have not been sent.\<close>

definition later :: "nat \<Rightarrow> async_client \<Rightarrow> ablock list" where
  "later fut st =
     concat (map (\<lambda>c. drop (cl_n_sent c) (cl_blocks c)) (filter (\<lambda>c. fut < cl_id c) (as_active st))) @
     concat (map cl_blocks (filter (\<lambda>c. fut < cl_id c) (as_calls st))) @ as_blocks st"

text \<open>From \<open>st\<close> to \<open>st'\<close> the groups \<open>ns\<close> are sent, the next ones in order; nothing is accepted.\<close>

definition sends :: "async_config \<Rightarrow> async_client \<Rightarrow> ablock list list \<Rightarrow> async_client \<Rightarrow> bool" where
  "sends config st ns st' \<longleftrightarrow> as_accepted st' = as_accepted st \<and> as_blocks st' = as_blocks st \<and>
     as_next_id st' = as_next_id st \<and> as_waiting st' = as_waiting st \<and>
     as_sent st' = as_sent st @ map request_of ns \<and> unsent st = concat ns @ unsent st' \<and>
     (\<forall>g \<in> set ns. block_group (as_block_size config) g) \<and>
     (\<forall>k. length (later k st') \<le> length (later k st))"

text \<open>Calls end in the order of their identities.\<close>

definition ids_step :: "async_client \<Rightarrow> async_client \<Rightarrow> bool" where
  "ids_step st st' \<longleftrightarrow>
     call_ids st' = call_ids st \<and> as_promises st' = as_promises st \<or>
     (\<exists>k b. call_ids st = k # call_ids st' \<and> as_promises st' = as_promises st @ [(k, b)])"

lemma scheduler_cases:
  assumes "ac_inv config W st" "scheduler st = Some st'"
  obtains (starts) q f where "as_active st = []" "st' = start_next (st\<lparr>as_channel := q, as_flushing := f\<rparr>)"
  | (waits) q t where "st' = st\<lparr>as_channel := q, as_terminated := t\<rparr>"
proof -
  obtain ev q where q: "as_channel st = ev # q" "\<not> as_terminated st"
    using assms(2) by (auto simp: scheduler_def receive_def split: if_splits list.splits)
  have ev: "inv_events st" using assms(1) by (simp add: ac_inv_def)
  have same: "st\<lparr>as_channel := q\<rparr> = st\<lparr>as_channel := q, as_flushing := as_flushing st\<rparr>"
    "st\<lparr>as_channel := q\<rparr> = st\<lparr>as_channel := q, as_terminated := False\<rparr>"
    using q(2) by simp_all
  show ?thesis
  proof (cases ev)
    case CALL_ENDED
    then show ?thesis
      using starts assms(2) q ev by (auto simp: scheduler_def receive_def inv_events_def split: if_splits)
  next
    case FLUSH_REQUEST
    show ?thesis
    proof (cases "as_calls st \<noteq> [] \<and> \<not> as_flushing st")
      case True
      then have "st' = start_next (st\<lparr>as_channel := q\<rparr>)" "as_active st = []"
        using assms(2) q ev FLUSH_REQUEST by (auto simp: scheduler_def receive_def inv_events_def)
      with same(1) show ?thesis by (intro starts [where q = q and f = "as_flushing st"]) simp_all
    next
      case False
      then have "st' = st\<lparr>as_channel := q\<rparr>"
        using assms(2) q FLUSH_REQUEST by (auto simp: scheduler_def receive_def)
      with same(2) show ?thesis by (intro waits [where q = q and t = False]) simp
    qed
  next
    case TERMINATED
    then have "st' = st\<lparr>as_channel := if q = [] then [] else q @ [TERMINATED], as_terminated := (q = [])\<rparr>"
      using assms(2) q by (auto simp: scheduler_def receive_def has_pending_messages_def send_def)
    then show ?thesis by (rule waits)
  qed
qed

lemma start_next_sends:
  assumes "as_active st = []" "list_all call_queued (as_calls st)"
  shows "sends config st [] (start_next (st\<lparr>as_channel := q, as_flushing := f\<rparr>)) \<and>
    ids_step st (start_next (st\<lparr>as_channel := q, as_flushing := f\<rparr>))"
proof (cases "as_calls st")
  case Nil
  then show ?thesis by (simp add: start_next_def sends_def ids_step_def unsent_def later_def call_ids_def)
next
  case (Cons c cs)
  then show ?thesis
    using assms by (cases "cl_blocks c = []")
      (auto simp: start_next_def call_start_def call_end_def sends_def ids_step_def unsent_def later_def call_ids_def
        call_queued_def)
qed

lemma scheduler_sends:
  assumes "ac_inv config W st" "scheduler st = Some st'"
  shows "sends config st [] st' \<and> ids_step st st' \<and> (as_active st = [] \<or> as_promises st' = as_promises st)"
  using assms
proof (cases rule: scheduler_cases)
  case (starts q f)
  then show ?thesis
    using assms(1) start_next_sends [OF starts(1), where config = config and q = q and f = f] by (simp add: ac_inv_def inv_calls_def)
next
  case (waits q t)
  then show ?thesis by (simp add: sends_def ids_step_def unsent_def later_def call_ids_def)
qed

lemma scheduler_keeps_active:
  "ac_inv config W st \<Longrightarrow> scheduler st = Some st' \<Longrightarrow> as_active st' = [] \<Longrightarrow> as_active st = []"
  by (erule (1) scheduler_cases) auto

text \<open>A call that sends, from its remaining blocks, the next group.\<close>

lemma send_sends:
  assumes act: "as_active st = [c]" and m: "m \<le> length bs" "block_group (as_block_size config) (take m bs)"
    and bs: "drop (cl_n_sent c) (cl_blocks c) = bs" "cl_id c' = cl_id c" "cl_blocks c' = bs" "cl_n_sent c' = m"
    and st': "as_active st' = [c']" "as_sent st' = as_sent st @ [request_of (take m bs)]" "as_accepted st' = as_accepted st"
      "as_calls st' = as_calls st" "as_blocks st' = as_blocks st" "as_next_id st' = as_next_id st"
      "as_waiting st' = as_waiting st" "as_promises st' = as_promises st"
  shows "sends config st [take m bs] st' \<and> ids_step st st'"
  using assms by (auto simp: sends_def ids_step_def unsent_def later_def call_ids_def)

lemma completion_sends:
  assumes inv: "ac_inv config W st" and i: "i < length (as_active st)" and cfg: "as_cache_limit config + W < 2 ^ 64"
    and st': "completion config i status st = Inr st'"
  shows "\<exists>ns. sends config st ns st' \<and> ids_step st st' \<and>
    (if cl_status (as_active st ! i) = AC_FINISHED
     then ns = [] \<and> as_promises st' = as_promises st @ [(cl_id (as_active st ! i), status)]
     else as_promises st' = as_promises st \<and> as_active st' \<noteq> [])"
proof -
  have "inv_events st" using inv by (simp add: ac_inv_def)
  then obtain c where c: "as_active st = [c]" "i = 0" using one_active i by blast
  have act: "active_inv config W c st" using inv c(1) by (simp add: active_inv_def flip: c(1))
  note run = active_inv_call(1) [OF act]
  have bs: "list_all wf_block (cl_blocks c)" "sizes (cl_blocks c) < 2 ^ 64" "sizes (cl_blocks c) \<le> as_cache_size st"
    "as_cache_size st < 2 ^ 64"
    using active_inv_call(3,4) [OF act] cfg by (auto simp: backlog_def inv_sizes_def)
  show ?thesis
  proof (cases "cl_status c")
    case AC_CREATE
    then have ne: "cl_blocks c \<noteq> []" "cl_n_sent c = 0" using run by (simp_all add: call_running_def)
    obtain n where n: "n \<le> length (cl_blocks c)" "block_group (as_block_size config) (take n (cl_blocks c))"
      "call_send config c st = Inr (c\<lparr>cl_status := AC_WRITE, cl_n_sent := n\<rparr>,
        st\<lparr>as_sent := as_sent st @ [request_of (take n (cl_blocks c))]\<rparr>)"
      using call_send_spec [OF ne(1) bs(1,2)] by blast
    have "sends config st [take n (cl_blocks c)] st' \<and> ids_step st st'"
      using st' c ne AC_CREATE n by (intro send_sends [OF c(1) n(1,2), where c' = "c\<lparr>cl_status := AC_WRITE, cl_n_sent := n\<rparr>"])
        (auto simp: completion_def call_proceed_def)
    moreover have "as_promises st' = as_promises st \<and> as_active st' \<noteq> []"
      using st' c ne AC_CREATE n by (auto simp: completion_def call_proceed_def)
    ultimately show ?thesis using AC_CREATE c by auto
  next
    case AC_WRITE
    let ?bs = "drop (cl_n_sent c) (cl_blocks c)"
    have "cl_n_sent c \<le> length (cl_blocks c)" using run AC_WRITE by (simp add: call_running_def)
    note pop = pop_blocks_spec [OF this bs(3,4)]
    show ?thesis
    proof (cases "?bs = []")
      case True
      then have "sends config st [] st' \<and> ids_step st st' \<and> as_promises st' = as_promises st \<and> as_active st' \<noteq> []"
        using st' c AC_WRITE pop by (auto simp: completion_def call_proceed_def Let_def sends_def ids_step_def
            unsent_def later_def call_ids_def)
      then show ?thesis using AC_WRITE c by auto
    next
      case False
      define c1 where "c1 = c\<lparr>cl_blocks := ?bs, cl_n_sent := 0\<rparr>"
      define st1 where "st1 = st\<lparr>as_cache_size := as_cache_size st - sizes (take (cl_n_sent c) (cl_blocks c))\<rparr>"
      have "list_all wf_block (cl_blocks c1)" using bs(1) by (auto simp: c1_def list_all_iff dest: in_set_dropD)
      moreover have "sizes (cl_blocks c) = sizes (take (cl_n_sent c) (cl_blocks c)) + sizes ?bs"
        by (metis append_take_drop_id sizes_simps(3))
      then have "sizes (cl_blocks c1) < 2 ^ 64" using bs(2) by (simp add: c1_def)
      ultimately obtain n where n: "n \<le> length (cl_blocks c1)" "block_group (as_block_size config) (take n (cl_blocks c1))"
        "call_send config c1 st1 = Inr (c1\<lparr>cl_status := AC_WRITE, cl_n_sent := n\<rparr>,
          st1\<lparr>as_sent := as_sent st1 @ [request_of (take n (cl_blocks c1))]\<rparr>)"
        using call_send_spec [of c1 config st1] False by (auto simp: c1_def)
      have eq: "st' = st1\<lparr>as_sent := as_sent st1 @ [request_of (take n ?bs)], as_active := [c1\<lparr>cl_status := AC_WRITE, cl_n_sent := n\<rparr>]\<rparr>"
        using st' c AC_WRITE pop False n(3) by (simp add: completion_def call_proceed_def c1_def st1_def)
      have "sends config st [take n ?bs] st' \<and> ids_step st st'"
        using n(1,2) unfolding eq by (intro send_sends [OF c(1), where c' = "c1\<lparr>cl_status := AC_WRITE, cl_n_sent := n\<rparr>"]) (simp_all add: c1_def st1_def)
      moreover have "as_promises st' = as_promises st \<and> as_active st' \<noteq> []" unfolding eq by (simp add: st1_def)
      ultimately show ?thesis using AC_WRITE c by auto
    qed
  next
    case AC_WRITES_DONE
    then show ?thesis
      using st' c run by (intro exI [of _ "[]"])
        (auto simp: completion_def call_proceed_def sends_def ids_step_def unsent_def later_def call_ids_def call_running_def)
  next
    case AC_FINISHED
    then show ?thesis
      using st' c run by (intro exI [of _ "[]"])
        (auto simp: completion_def call_proceed_def call_end_def sends_def ids_step_def unsent_def later_def call_ids_def
          call_running_def)
  qed
qed

section \<open>Calls end in order\<close>

definition ids_inv :: "async_client \<Rightarrow> bool" where
  "ids_inv st \<longleftrightarrow> (\<exists>m. call_ids st = [m..<as_next_id st] \<and> map fst (as_promises st) = [0..<m] \<and> m \<le> as_next_id st)"

lemma ids_bounds:
  assumes "ids_inv st" "c \<in> set (as_active st) \<union> set (as_calls st)"
  shows "cl_id c < as_next_id st" "fut \<in> fst ` set (as_promises st) \<Longrightarrow> fut < cl_id c"
proof -
  obtain m where m: "call_ids st = [m..<as_next_id st]" "map fst (as_promises st) = [0..<m]"
    using assms(1) by (auto simp: ids_inv_def)
  have c: "cl_id c \<in> set (call_ids st)" using assms(2) by (auto simp: call_ids_def)
  then show "cl_id c < as_next_id st" unfolding m(1) by simp
  assume "fut \<in> fst ` set (as_promises st)"
  then have "fut \<in> set (map fst (as_promises st))" by simp
  then show "fut < cl_id c" using c unfolding m by simp
qed

lemma ids_fresh:
  assumes "ids_inv st"
  shows "as_next_id st \<notin> fst ` set (as_promises st)"
proof -
  obtain m where m: "map fst (as_promises st) = [0..<m]" "m \<le> as_next_id st" using assms by (auto simp: ids_inv_def)
  have "as_next_id st \<notin> set (map fst (as_promises st))" unfolding m(1) using m(2) by simp
  then show ?thesis by simp
qed

lemma ids_step_inv:
  assumes "ids_inv st" "ids_step st st'" "as_next_id st' = as_next_id st"
  shows "ids_inv st'"
proof -
  obtain m where m: "call_ids st = [m..<as_next_id st]" "map fst (as_promises st) = [0..<m]" "m \<le> as_next_id st"
    using assms(1) by (auto simp: ids_inv_def)
  from assms(2) consider "call_ids st' = call_ids st" "as_promises st' = as_promises st"
    | k b where "call_ids st = k # call_ids st'" "as_promises st' = as_promises st @ [(k, b)]"
    by (auto simp: ids_step_def)
  then show ?thesis
  proof cases
    case 1
    with m assms(3) show ?thesis by (auto simp: ids_inv_def)
  next
    case (2 k b)
    then have "k = m" "call_ids st' = [Suc m..<as_next_id st]" "m < as_next_id st"
      using m by (auto simp: upt_rec [of m] split: if_splits)
    with m 2 assms(3) show ?thesis by (auto simp: ids_inv_def intro!: exI [of _ "Suc m"])
  qed
qed

lemma schedule_flush_ids: "ids_inv st \<Longrightarrow> ids_inv (snd (schedule_flush st))"
  by (auto simp: ids_inv_def schedule_flush_def call_ids_def)

lemma ids_frame [simp]:
  "ids_inv (st\<lparr>as_channel := q\<rparr>) = ids_inv st" "ids_inv (st\<lparr>as_waiting := x\<rparr>) = ids_inv st"
  "ids_inv (push_block b st) = ids_inv st"
  by (simp_all add: ids_inv_def call_ids_def push_block_def)

lemma ac_reachable_ids:
  assumes "ac_reachable config W st" "as_cache_limit config + W < 2 ^ 64"
  shows "ids_inv st"
  using assms
proof (induction rule: ac_reachable.induct)
  case started
  then show ?case by (simp add: ids_inv_def async_client_new_def call_ids_def)
next
  case (written st b)
  then show ?case
    using schedule_flush_ids [of st] by (auto simp: async_write_def split: prod.splits)
next
  case (resumed st st')
  then show ?case by (auto simp: write_resume_def split: option.splits if_splits)
next
  case (stepped st st')
  note inv = ac_reachable_inv [OF stepped.hyps(1) stepped.prems]
  from stepped.hyps(2) show ?case
  proof cases
    case scheduled
    then show ?thesis
      using scheduler_sends [OF inv scheduled] ids_step_inv stepped by (simp add: sends_def)
  next
    case (completed i status)
    then show ?thesis
      using completion_sends [OF inv completed(1) stepped.prems completed(2)] ids_step_inv stepped
      by (auto simp: sends_def)
  qed
qed (simp_all add: schedule_flush_ids)

section \<open>What has reached the server\<close>

text \<open>
  The members that queue blocks or schedule flushes: \<open>bs\<close> is accepted, nothing is sent and no
  call ends.
\<close>

definition accepts :: "async_client \<Rightarrow> ablock list \<Rightarrow> async_client \<Rightarrow> bool" where
  "accepts st bs st' \<longleftrightarrow> as_accepted st' = as_accepted st @ bs \<and> unsent st' = unsent st @ bs \<and>
     as_sent st' = as_sent st \<and> as_promises st' = as_promises st \<and> as_active st' = as_active st \<and>
     as_next_id st \<le> as_next_id st' \<and> (\<forall>k < as_next_id st. later k st' = later k st @ bs)"

lemma schedule_flush_accepts: "accepts st [] (snd (schedule_flush st))"
  by (auto simp: accepts_def schedule_flush_def unsent_def later_def)

lemma push_block_accepts: "accepts st [b] (push_block b st)"
  by (simp add: accepts_def push_block_def unsent_def later_def)

lemma accepts_waiting: "accepts st bs (st'\<lparr>as_waiting := x\<rparr>) \<longleftrightarrow> accepts st bs st'"
  "accepts (st\<lparr>as_waiting := x\<rparr>) bs st' \<longleftrightarrow> accepts st bs st'"
  by (simp_all add: accepts_def unsent_def later_def)

lemma accepts_trans: "accepts st [] st1 \<Longrightarrow> accepts st1 bs st2 \<Longrightarrow> accepts st bs st2"
  by (auto simp: accepts_def)

lemma async_write_accepts: "\<exists>bs. accepts st bs (async_write config b st)"
proof -
  have "accepts st [] (snd (schedule_flush st))" "accepts st [b] (push_block b (snd (schedule_flush st)))"
    using accepts_trans [OF schedule_flush_accepts push_block_accepts] by (simp_all add: schedule_flush_accepts)
  then show ?thesis
    using push_block_accepts [of st b] by (auto simp: async_write_def accepts_waiting split: prod.splits)
qed

lemma write_resume_accepts: "write_resume st = Some st' \<Longrightarrow> \<exists>bs. accepts st bs st'"
  using push_block_accepts [of "st\<lparr>as_waiting := None\<rparr>"]
  by (fastforce simp: write_resume_def accepts_waiting split: option.splits if_splits)

fun writes_of :: "srv_event list \<Rightarrow> WriteRequest list" where
  "writes_of [] = []"
| "writes_of (Wrote q # es) = q # writes_of es"
| "writes_of (Synced op n r # es) = writes_of es"

lemma writes_of_append [simp]: "writes_of (xs @ ys) = writes_of xs @ writes_of ys"
  by (induction xs rule: writes_of.induct) simp_all

text \<open>The groups \<open>gs\<close> have been executed by the server, the groups \<open>gw\<close> are on their way.\<close>

definition delivered :: "async_config \<Rightarrow> 's async_world \<Rightarrow> ablock list list \<Rightarrow> ablock list list \<Rightarrow> bool" where
  "delivered config w gs gw \<longleftrightarrow> writes_of (aw_log w) = map request_of gs \<and> aw_wire w = map request_of gw \<and>
     (\<forall>g \<in> set (gs @ gw). block_group (as_block_size config) g) \<and>
     as_accepted (aw_client w) = concat gs @ concat gw @ unsent (aw_client w)"

text \<open>Every synchronous call came after the blocks accepted before it began.\<close>

definition covered :: "srv_event list \<Rightarrow> ablock list list \<Rightarrow> bool" where
  "covered log gs \<longleftrightarrow> (\<forall>before op n r after. log = before @ Synced op n r # after \<longrightarrow>
     (\<exists>gs1 gs2. gs = gs1 @ gs2 \<and> writes_of before = map request_of gs1 \<and> n \<le> length (concat gs1)))"

definition flushers_bound :: "'s async_world \<Rightarrow> bool" where
  "flushers_bound w \<longleftrightarrow> (\<forall>(fut, n, op) \<in> set (aw_flushers w). fut < as_next_id (aw_client w) \<and>
     n + length (later fut (aw_client w)) \<le> length (as_accepted (aw_client w)))"

definition flushers_kept :: "'s async_world \<Rightarrow> ablock list list \<Rightarrow> bool" where
  "flushers_kept w gs \<longleftrightarrow> (\<forall>(fut, n, op) \<in> set (aw_flushers w).
     fut \<in> fst ` set (as_promises (aw_client w)) \<longrightarrow> n \<le> length (concat gs))"

definition no_failure :: "async_client \<Rightarrow> bool" where
  "no_failure st \<longleftrightarrow> (\<forall>p \<in> set (as_promises st). snd p)"

definition aw_inv :: "async_config \<Rightarrow> 's async_world \<Rightarrow> bool" where
  "aw_inv config w \<longleftrightarrow> flushers_bound w \<and> (as_active (aw_client w) = [] \<longrightarrow> aw_wire w = []) \<and>
     (no_failure (aw_client w) \<longrightarrow>
        (\<exists>gs gw. delivered config w gs gw \<and> covered (aw_log w) gs \<and> flushers_kept w gs))"

lemma covered_Wrote: "covered log gs \<Longrightarrow> covered (log @ [Wrote q]) (gs @ [g])"
  unfolding covered_def
proof (intro allI impI)
  fix before op n r after
  assume cov: "\<forall>before op n r after. log = before @ Synced op n r # after \<longrightarrow>
      (\<exists>gs1 gs2. gs = gs1 @ gs2 \<and> writes_of before = map request_of gs1 \<and> n \<le> length (concat gs1))"
    and log: "log @ [Wrote q] = before @ Synced op n r # after"
  from log obtain after' where "log = before @ Synced op n r # after'"
    by (cases after rule: rev_cases) auto
  with cov obtain gs1 gs2 where "gs = gs1 @ gs2" "writes_of before = map request_of gs1" "n \<le> length (concat gs1)"
    by blast
  then show "\<exists>gs1 gs2. gs @ [g] = gs1 @ gs2 \<and> writes_of before = map request_of gs1 \<and> n \<le> length (concat gs1)"
    by (intro exI [of _ gs1] exI [of _ "gs2 @ [g]"]) simp
qed

lemma covered_Synced:
  assumes cov: "covered log gs" and new: "writes_of log = map request_of gs" "n \<le> length (concat gs)"
  shows "covered (log @ [Synced op n r]) gs"
  unfolding covered_def
proof (intro allI impI)
  fix before op' n' r' after
  assume log: "log @ [Synced op n r] = before @ Synced op' n' r' # after"
  show "\<exists>gs1 gs2. gs = gs1 @ gs2 \<and> writes_of before = map request_of gs1 \<and> n' \<le> length (concat gs1)"
  proof (cases after rule: rev_cases)
    case Nil
    then show ?thesis using log new by (intro exI [of _ gs] exI [of _ "[]"]) simp
  next
    case (snoc after' e)
    then have "log = before @ Synced op' n' r' # after'" using log by simp
    then show ?thesis using cov unfolding covered_def by blast
  qed
qed

lemma later_unsent: "ids_inv st \<Longrightarrow> fut \<in> fst ` set (as_promises st) \<Longrightarrow> later fut st = unsent st"
  by (simp add: later_def unsent_def ids_bounds(2))

lemma accepts_aw_inv:
  assumes "aw_inv config w" "accepts (aw_client w) bs (aw_client w')"
    and "aw_wire w' = aw_wire w" "aw_log w' = aw_log w" "aw_flushers w' = aw_flushers w"
  shows "aw_inv config w'"
proof -
  have "flushers_bound w'" using assms by (auto simp: aw_inv_def flushers_bound_def accepts_def)
  moreover have "delivered config w' gs gw \<and> flushers_kept w' gs" if "delivered config w gs gw" "flushers_kept w gs" for gs gw
    using that assms by (auto simp: delivered_def flushers_kept_def accepts_def)
  ultimately show ?thesis
    using assms by (auto simp: aw_inv_def accepts_def no_failure_def)
qed

lemma flush_call_inv:
  assumes inv: "aw_inv config w" and ids: "ids_inv (aw_client w)"
  shows "aw_inv config (flush_call op w)"
proof -
  let ?st = "aw_client w" and ?st' = "snd (schedule_flush (aw_client w))"
  define w1 where "w1 = w\<lparr>aw_client := ?st'\<rparr>"
  have w1: "aw_inv config w1"
    by (rule accepts_aw_inv [OF inv, where bs = "[]"]) (simp_all add: w1_def schedule_flush_accepts)
  have eq: "flush_call op w = w1\<lparr>aw_flushers := aw_flushers w1 @ [(as_next_id ?st, length (as_accepted ?st), op)]\<rparr>"
    by (simp add: flush_call_def w1_def schedule_flush_def)
  have "\<forall>c \<in> set (as_active ?st). cl_id c < as_next_id ?st" "\<forall>c \<in> set (as_calls ?st). cl_id c < as_next_id ?st"
    using ids_bounds(1) [OF ids] by auto
  then have "later (as_next_id ?st) ?st' = []"
    by (force simp: later_def schedule_flush_def filter_empty_conv)
  then have "flushers_bound (flush_call op w)"
    using w1 by (auto simp: eq aw_inv_def flushers_bound_def) (simp_all add: w1_def schedule_flush_def)
  moreover have "as_next_id ?st \<notin> fst ` set (as_promises (aw_client w1))"
    using ids_fresh [OF ids] by (simp add: w1_def schedule_flush_def)
  ultimately show ?thesis
    using w1 unfolding aw_inv_def eq by (auto simp: delivered_def flushers_kept_def)
qed

lemma flush_return_inv:
  assumes inv: "aw_inv config w" and i: "i < length (aw_flushers w)" and w': "flush_return ops i w = Some w'"
  shows "aw_inv config w'"
proof -
  obtain fut n op where f: "aw_flushers w ! i = (fut, n, op)" by (cases "aw_flushers w ! i")
  then have mem: "(fut, n, op) \<in> set (aw_flushers w)" using i by (metis nth_mem)
  obtain r net where w': "w' = w\<lparr>aw_net := net, aw_log := aw_log w @ [Synced op n r],
      aw_flushers := take i (aw_flushers w) @ drop (Suc i) (aw_flushers w)\<rparr>"
    and kept: "fut \<in> fst ` set (as_promises (aw_client w))"
    using w' f by (auto simp: flush_return_def split: if_splits sum.splits)
  have sub: "set (aw_flushers w') \<subseteq> set (aw_flushers w)" and same: "aw_client w' = aw_client w"
    by (auto simp: w' dest: in_set_takeD in_set_dropD)
  have "delivered config w' gs gw \<and> covered (aw_log w') gs \<and> flushers_kept w' gs"
    if "delivered config w gs gw" "covered (aw_log w) gs" "flushers_kept w gs" for gs gw
  proof -
    have "n \<le> length (concat gs)" using that(3) mem kept by (auto simp: flushers_kept_def)
    moreover have "writes_of (aw_log w) = map request_of gs" using that(1) by (simp add: delivered_def)
    ultimately have "covered (aw_log w') gs" using covered_Synced [OF that(2)] by (simp add: w')
    moreover have "flushers_kept w' gs"
      using that(3) sub unfolding flushers_kept_def same by blast
    ultimately show ?thesis using that(1) by (auto simp: delivered_def w')
  qed
  then show ?thesis
    using inv sub by (auto simp: aw_inv_def flushers_bound_def w')
qed

text \<open>A step that sends: the new groups go onto the stream; if a call ends, the stream is empty.\<close>

lemma sends_aw_inv:
  assumes inv: "aw_inv config w" and ids: "ids_inv (aw_client w')"
    and step: "sends config (aw_client w) ns (aw_client w')" "ids_step (aw_client w) (aw_client w')"
    and w': "aw_wire w' = aw_wire w @ map request_of ns" "aw_log w' = aw_log w" "aw_flushers w' = aw_flushers w"
    and ends: "as_promises (aw_client w') \<noteq> as_promises (aw_client w) \<longrightarrow> aw_wire w' = []"
    and idle: "as_active (aw_client w') = [] \<longrightarrow> aw_wire w' = []"
  shows "aw_inv config w'"
proof -
  let ?st = "aw_client w" and ?st' = "aw_client w'"
  have "flushers_bound w'"
    using inv step(1) unfolding aw_inv_def flushers_bound_def w' sends_def
    by (auto simp: add_leD1 intro: order_trans [OF add_left_mono])
  moreover have "\<exists>gs gw. delivered config w' gs gw \<and> covered (aw_log w') gs \<and> flushers_kept w' gs" if "no_failure ?st'"
  proof -
    have "no_failure ?st" using that step(2) by (auto simp: no_failure_def ids_step_def)
    then obtain gs gw where g: "delivered config w gs gw" "covered (aw_log w) gs" "flushers_kept w gs"
      using inv by (auto simp: aw_inv_def)
    have d: "delivered config w' gs (gw @ ns)" using g(1) step(1) by (auto simp: delivered_def w' sends_def)
    have "n \<le> length (concat gs)"
      if f: "(fut, n, op) \<in> set (aw_flushers w)" and k: "fut \<in> fst ` set (as_promises ?st')" for fut n op
    proof (cases "as_promises ?st' = as_promises ?st")
      case True
      then show ?thesis using g(3) f k by (auto simp: flushers_kept_def)
    next
      case False
      then have "gw @ ns = []" using d ends by (simp add: delivered_def)
      then have "as_accepted ?st' = concat gs @ unsent ?st'" using d by (simp add: delivered_def)
      moreover have "n + length (later fut ?st') \<le> length (as_accepted ?st')"
        using \<open>flushers_bound w'\<close> f by (auto simp: flushers_bound_def w')
      ultimately show ?thesis using later_unsent [OF ids k] by simp
    qed
    then have "flushers_kept w' gs" by (auto simp: flushers_kept_def w')
    with d g(2) show ?thesis unfolding w'(2) by blast
  qed
  ultimately show ?thesis using idle by (simp add: aw_inv_def)
qed

lemma serve_next_inv:
  assumes inv: "aw_inv config w" and w': "serve_next ops w = Some w'"
  shows "aw_inv config w'"
proof -
  obtain q qs net where q: "aw_wire w = q # qs" and w': "w' = w\<lparr>aw_wire := qs, aw_log := aw_log w @ [Wrote q], aw_net := net\<rparr>"
    using w' by (auto simp: serve_next_def split: list.splits sum.splits)
  have "\<exists>gs' gw'. delivered config w' gs' gw' \<and> covered (aw_log w') gs' \<and> flushers_kept w' gs'"
    if g: "delivered config w gs gw" "covered (aw_log w) gs" "flushers_kept w gs" for gs gw
  proof -
    obtain g gw' where gw: "gw = g # gw'" "q = request_of g" using g(1) q by (cases gw) (auto simp: delivered_def)
    have "covered (aw_log w') (gs @ [g])" using covered_Wrote [OF g(2)] by (simp add: w')
    moreover have "delivered config w' (gs @ [g]) gw'"
      using g(1) gw q by (auto simp: delivered_def w')
    moreover have "flushers_kept w' (gs @ [g])"
      using g(3) by (auto simp: flushers_kept_def w' trans_le_add1)
    ultimately show ?thesis by blast
  qed
  then show ?thesis
    using inv q by (auto simp: aw_inv_def flushers_bound_def w')
qed

lemma progress_inv:
  assumes inv: "aw_inv config w" and core: "ac_inv config W (aw_client w)" and ids: "ids_inv (aw_client w')"
    and step: "aw_progress ops config w w'" and cfg: "as_cache_limit config + W < 2 ^ 64"
  shows "aw_inv config w'"
  using step
proof cases
  case sched
  then obtain st' where st': "scheduler (aw_client w) = Some st'" "w' = w\<lparr>aw_client := st'\<rparr>"
    by (auto simp: world_schedule_def split: option.splits)
  note s = scheduler_sends [OF core st'(1)]
  show ?thesis
    using inv st'(2) s scheduler_keeps_active [OF core st'(1)]
    by (intro sends_aw_inv [OF inv ids, where ns = "[]"]) (auto simp: aw_inv_def)
next
  case (complete i status)
  let ?fin = "cl_status (as_active (aw_client w) ! i) = AC_FINISHED"
  obtain st' where st': "completion config i status (aw_client w) = Inr st'" "\<not> (?fin \<and> status \<and> aw_wire w \<noteq> [])"
    "w' = w\<lparr>aw_client := st', aw_wire := if ?fin then []
       else aw_wire w @ drop (length (as_sent (aw_client w))) (as_sent st')\<rparr>"
    using complete(2) by (auto simp: async_complete_def Let_def split: if_splits sum.splits)
  obtain ns where s: "sends config (aw_client w) ns st'" "ids_step (aw_client w) st'"
    "if ?fin then ns = [] \<and> as_promises st' = as_promises (aw_client w) @ [(cl_id (as_active (aw_client w) ! i), status)]
     else as_promises st' = as_promises (aw_client w) \<and> as_active st' \<noteq> []"
    using completion_sends [OF core complete(1) cfg st'(1)] by blast
  show ?thesis
  proof (cases "?fin \<and> \<not> status")
    case True
    then have "\<not> no_failure st'" using s(3) by (simp add: no_failure_def)
    moreover have "flushers_bound w'"
      using inv s(1) unfolding aw_inv_def flushers_bound_def st'(3) sends_def
      by (auto simp: add_leD1 intro: order_trans [OF add_left_mono])
    ultimately show ?thesis using True by (simp add: aw_inv_def st'(3))
  next
    case False
    have "aw_wire w' = aw_wire w @ map request_of ns" using st'(2,3) s False by (auto simp: sends_def split: if_splits)
    moreover have "as_active st' = [] \<longrightarrow> aw_wire w' = []" using s(3) st'(3) by (auto split: if_splits)
    ultimately show ?thesis
      using inv st'(2,3) s by (intro sends_aw_inv [OF inv ids, where ns = ns]) (auto split: if_splits)
  qed
next
  case serve
  then show ?thesis by (rule serve_next_inv [OF inv])
next
  case expire
  then show ?thesis
    by (intro accepts_aw_inv [OF inv, where bs = "[]"]) (auto simp: timer_expires_def accepts_def split: if_splits)
next
  case handler
  then show ?thesis
    using schedule_flush_accepts [of "aw_client w"]
    by (intro accepts_aw_inv [OF inv, where bs = "[]"]) (auto simp: run_io_context_def split: if_splits nat.splits)
next
  case destroy
  then show ?thesis
    by (intro accepts_aw_inv [OF inv, where bs = "[]"])
       (auto simp: dtor_next_def accepts_def unsent_def later_def split: dtor_phase.splits if_splits)
qed

lemma aw_reachable_inv:
  assumes "aw_reachable ops config W w" "as_cache_limit config + W < 2 ^ 64"
  shows "aw_inv config w"
  using assms
proof (induction rule: aw_reachable.induct)
  case (start net)
  then show ?case
    by (simp add: aw_inv_def async_world_new_def async_client_new_def flushers_bound_def flushers_kept_def
        delivered_def covered_def unsent_def)
next
  case (written w b)
  obtain bs where "accepts (aw_client w) bs (async_write config b (aw_client w))" using async_write_accepts by blast
  then show ?case
    by (intro accepts_aw_inv [OF written.IH [OF written.prems]]) (simp_all add: world_write_def Let_def)
next
  case (resumed w w')
  then obtain st' where st': "write_resume (aw_client w) = Some st'" "w' = w\<lparr>aw_client := st', aw_timer := True\<rparr>"
    by (auto simp: world_resume_def split: option.splits)
  obtain bs where "accepts (aw_client w) bs st'" using write_resume_accepts [OF st'(1)] by blast
  then show ?case by (intro accepts_aw_inv [OF resumed.IH [OF resumed.prems]]) (simp_all add: st'(2))
next
  case (flushed w op)
  show ?case
    using flush_call_inv [OF flushed.IH [OF flushed.prems]
        ac_reachable_ids [OF world_client_reachable [OF flushed.hyps(1)] flushed.prems]] .
next
  case (returned w i w')
  then show ?case using flush_return_inv [OF returned.IH [OF returned.prems]] by blast
next
  case (other w net)
  then show ?case by (simp add: aw_inv_def delivered_def flushers_bound_def flushers_kept_def)
next
  case (destructed w w')
  then show ?case
    using schedule_flush_accepts [of "aw_client w"]
    by (intro accepts_aw_inv [OF destructed.IH [OF destructed.prems], where bs = "[]"])
       (auto simp: dtor_begin_def split: prod.splits if_splits)
next
  case (progressed w w')
  have "aw_reachable ops config W w'" by (rule aw_reachable.progressed [OF progressed.hyps])
  then have "ids_inv (aw_client w')" using ac_reachable_ids [OF world_client_reachable] progressed.prems by blast
  moreover have "ac_inv config W (aw_client w)"
    using ac_reachable_inv [OF world_client_reachable [OF progressed.hyps(1)] progressed.prems] .
  ultimately show ?case
    using progress_inv [OF progressed.IH [OF progressed.prems] _ _ progressed.hyps(2) progressed.prems] by blast
qed

section \<open>The destructor\<close>

text \<open>After a flush \<open>fut\<close> with no writers left, only the calls up to \<open>fut\<close> have blocks.\<close>

definition quiet :: "nat \<Rightarrow> async_client \<Rightarrow> bool" where
  "quiet fut st \<longleftrightarrow> as_blocks st = [] \<and> as_waiting st = None \<and> fut < as_next_id st \<and>
     (\<forall>c \<in> set (as_active st). cl_id c \<le> fut) \<and> (\<forall>c \<in> set (as_calls st). cl_id c \<le> fut \<or> cl_blocks c = [])"

definition quiet_kept :: "async_client \<Rightarrow> bool" where
  "quiet_kept st \<longleftrightarrow> (\<exists>fut. quiet fut st \<and> fut \<in> fst ` set (as_promises st))"

definition phase_inv :: "'s async_world \<Rightarrow> bool" where
  "phase_inv w \<longleftrightarrow>
     (let st = aw_client w; ends = count_list (as_channel st) TERMINATED
      in case aw_phase w of
           Alive \<Rightarrow> ends = 0 \<and> \<not> as_terminated st
         | Flushing fut \<Rightarrow> ends = 0 \<and> \<not> as_terminated st \<and> quiet fut st
         | Joining \<Rightarrow> ends = (if as_terminated st then 0 else 1) \<and> quiet_kept st
         | _ \<Rightarrow> ends = 0 \<and> as_terminated st \<and> quiet_kept st)"

lemma quiet_channel [simp]:
  "quiet fut (st\<lparr>as_channel := q\<rparr>) = quiet fut st" "quiet_kept (st\<lparr>as_channel := q\<rparr>) = quiet_kept st"
  by (simp_all add: quiet_def quiet_kept_def)

lemma schedule_flush_quiet: "quiet fut st \<Longrightarrow> quiet fut (snd (schedule_flush st))"
  by (auto simp: quiet_def schedule_flush_def)

lemma scheduler_quiet:
  assumes "ac_inv config W st" "scheduler st = Some st'" "quiet fut st"
  shows "quiet fut st'"
  using assms(1,2)
proof (cases rule: scheduler_cases)
  case (starts q f)
  then show ?thesis
    using assms(3) by (auto simp: quiet_def start_next_def call_start_def call_end_def split: list.splits)
next
  case (waits q t)
  then show ?thesis using assms(3) by (simp add: quiet_def)
qed

lemma completion_quiet:
  assumes "ac_inv config W st" "i < length (as_active st)" "completion config i status st = Inr st'" "quiet fut st"
  shows "quiet fut st'"
proof -
  have "inv_events st" using assms(1) by (simp add: ac_inv_def)
  then obtain c where "as_active st = [c]" "i = 0" using one_active assms(2) by blast
  then show ?thesis
    using assms(3,4) by (auto simp: quiet_def completion_def call_proceed_def call_send_def call_end_def
        rbind_eq_Inr_conv Let_def split: call_status.splits if_splits)
qed

lemma completion_channel:
  assumes "completion config i status st = Inr st'"
  shows "count_list (as_channel st') TERMINATED = count_list (as_channel st) TERMINATED \<and> as_terminated st' = as_terminated st"
  using assms by (auto simp: completion_def call_proceed_def call_send_def call_end_def send_def
      rbind_eq_Inr_conv Let_def split: call_status.splits if_splits)

lemma ids_step_kept: "ids_step st st' \<Longrightarrow> fst ` set (as_promises st) \<subseteq> fst ` set (as_promises st')"
  by (auto simp: ids_step_def)

text \<open>How a round of the scheduler changes the count of \<^verbatim>\<open>TERMINATED\<close> events.\<close>

lemma scheduler_ends:
  assumes "ac_inv config W st" "scheduler st = Some st'"
  shows "\<not> as_terminated st \<and> count_list (as_channel st') TERMINATED \<le> count_list (as_channel st) TERMINATED \<and>
    (if as_terminated st' then count_list (as_channel st) TERMINATED = 1 \<and> as_channel st' = []
     else count_list (as_channel st') TERMINATED = count_list (as_channel st) TERMINATED)"
proof -
  obtain ev q where q: "as_channel st = ev # q" "\<not> as_terminated st"
    using assms(2) by (auto simp: scheduler_def receive_def split: if_splits list.splits)
  show ?thesis
  proof (cases "ev = TERMINATED")
    case True
    then show ?thesis
      using assms(2) q by (auto simp: scheduler_def receive_def has_pending_messages_def send_def Let_def split: if_splits)
  next
    case False
    then show ?thesis using scheduler_event [OF assms q(1)] q(2) by simp
  qed
qed

lemma phase_inv_cong: "phase_inv w \<Longrightarrow> aw_client w' = aw_client w \<Longrightarrow> aw_phase w' = aw_phase w \<Longrightarrow> phase_inv w'"
  by (simp add: phase_inv_def)

lemma aw_reachable_phase:
  assumes "aw_reachable ops config W w" "as_cache_limit config + W < 2 ^ 64"
  shows "phase_inv w"
  using assms
proof (induction rule: aw_reachable.induct)
  case (start net)
  then show ?case by (simp add: phase_inv_def async_world_new_def async_client_new_def channel_new_def)
next
  case (written w b)
  then show ?case
    by (auto simp: phase_inv_def world_write_def async_write_def push_block_def schedule_flush_def send_def Let_def)
next
  case (resumed w w')
  then have "as_waiting (aw_client w) \<noteq> None" by (auto simp: world_resume_def write_resume_def split: option.splits)
  then have "aw_phase w = Alive"
    using resumed by (auto simp: phase_inv_def quiet_def quiet_kept_def Let_def split: dtor_phase.splits)
  then show ?case
    using resumed by (auto simp: phase_inv_def world_resume_def write_resume_def push_block_def Let_def
        split: option.splits if_splits)
next
  case (flushed w op)
  then show ?case by (simp add: phase_inv_def flush_call_def schedule_flush_def send_def Let_def)
next
  case (returned w i w')
  show ?case
    by (rule phase_inv_cong [OF returned.IH [OF returned.prems]])
       (use returned.hyps in \<open>auto simp: flush_return_def split: prod.splits if_splits sum.splits\<close>)
next
  case (destructed w w')
  have ids: "ids_inv (aw_client w)"
    by (rule ac_reachable_ids [OF world_client_reachable [OF destructed.hyps(1)] destructed.prems])
  have "quiet (as_next_id (aw_client w)) (snd (schedule_flush (aw_client w)))"
    using destructed.hyps ids_bounds(1) [OF ids] by (auto simp: quiet_def schedule_flush_def less_imp_le)
  then show ?case
    using destructed by (auto simp: phase_inv_def dtor_begin_def schedule_flush_def send_def Let_def split: if_splits)
next
  case (progressed w w')
  have inv: "phase_inv w" by (rule progressed.IH [OF progressed.prems])
  have core: "ac_inv config W (aw_client w)"
    by (rule ac_reachable_inv [OF world_client_reachable [OF progressed.hyps(1)] progressed.prems])
  from progressed.hyps(2) show ?case
  proof cases
    case sched
    then obtain st' where st': "scheduler (aw_client w) = Some st'" "w' = w\<lparr>aw_client := st'\<rparr>"
      by (auto simp: world_schedule_def split: option.splits)
    have "quiet_kept st'" if "quiet_kept (aw_client w)"
      using that scheduler_quiet [OF core st'(1)] ids_step_kept scheduler_sends [OF core st'(1)]
      unfolding quiet_kept_def by blast
    then show ?thesis
      using inv st' scheduler_ends [OF core st'(1)] scheduler_quiet [OF core st'(1)]
      by (auto simp: phase_inv_def Let_def split: dtor_phase.splits if_splits)
  next
    case (complete i status)
    then obtain st' wire where st': "completion config i status (aw_client w) = Inr st'" "w' = w\<lparr>aw_client := st', aw_wire := wire\<rparr>"
      by (auto simp: async_complete_def Let_def split: if_splits sum.splits)
    note quiet = completion_quiet [OF core complete(1) st'(1)]
    have "ids_step (aw_client w) st'"
      using completion_sends [OF core complete(1) progressed.prems st'(1)] by blast
    then have "quiet_kept st'" if "quiet_kept (aw_client w)"
      using that quiet ids_step_kept unfolding quiet_kept_def by blast
    then show ?thesis
      using inv st'(2) completion_channel [OF st'(1)] quiet
      by (auto simp: phase_inv_def Let_def split: dtor_phase.splits)
  next
    case handler
    then have "quiet_kept (snd (schedule_flush (aw_client w)))" if "quiet_kept (aw_client w)"
      using that schedule_flush_quiet by (auto simp: quiet_kept_def schedule_flush_def)
    then show ?thesis
      using inv handler schedule_flush_quiet
      by (auto simp: phase_inv_def run_io_context_def Let_def schedule_flush_def send_def
          split: dtor_phase.splits if_splits nat.splits)
  next
    case destroy
    show ?thesis
    proof (cases "aw_phase w")
      case (Flushing fut)
      then have "quiet_kept (aw_client w)"
        using inv destroy unfolding quiet_kept_def phase_inv_def dtor_next_def Let_def
        by (intro exI [of _ fut]) (simp split: if_splits)
      then show ?thesis
        using inv destroy Flushing by (simp add: phase_inv_def dtor_next_def send_def Let_def split: if_splits) force
    qed (use inv destroy in \<open>auto simp: phase_inv_def dtor_next_def Let_def split: if_splits\<close>)
  qed (auto intro!: phase_inv_cong [OF inv] simp: timer_expires_def serve_next_def split: list.splits sum.splits if_splits)
qed (simp add: phase_inv_def)

text \<open>What is left to do until the destructor returns.\<close>

fun put_off :: "event list \<Rightarrow> nat" where
  "put_off (TERMINATED # e # q) = 1"
| "put_off _ = 0"

definition phase_work :: "dtor_phase \<Rightarrow> nat" where
  "phase_work p = (case p of Alive \<Rightarrow> 30 | Flushing _ \<Rightarrow> 20 | Joining \<Rightarrow> 10 | Draining \<Rightarrow> 5 | Stopped \<Rightarrow> 0)"

definition dtor_work :: "'s async_world \<Rightarrow> nat" where
  "dtor_work w = 4 * work (aw_client w) + put_off (as_channel (aw_client w)) + length (aw_wire w) +
     30 * aw_handlers w + (if aw_timer w then 31 else 0) + phase_work (aw_phase w)"

lemma put_off_le: "put_off q \<le> 1"
  by (induction q rule: put_off.induct) simp_all

lemma put_off_first: "q \<noteq> [] \<Longrightarrow> hd q \<noteq> TERMINATED \<Longrightarrow> put_off q = 0"
  by (induction q rule: put_off.induct) simp_all

lemma scheduler_dtor_work:
  assumes inv: "ac_inv config W st" and st': "scheduler st = Some st'" and one: "count_list (as_channel st) TERMINATED \<le> 1"
  shows "4 * work st' + put_off (as_channel st') < 4 * work st + put_off (as_channel st)"
proof -
  obtain ev q where q: "as_channel st = ev # q" "\<not> as_terminated st"
    using st' by (auto simp: scheduler_def receive_def split: if_splits list.splits)
  show ?thesis
  proof (cases "ev = TERMINATED")
    case True
    then have eq: "st' = (if q = [] then st\<lparr>as_channel := [], as_terminated := True\<rparr> else st\<lparr>as_channel := q @ [TERMINATED]\<rparr>)"
      using st' q by (auto simp: scheduler_def receive_def has_pending_messages_def send_def)
    have "TERMINATED \<notin> set q" using one q True by (simp add: count_list_0_iff)
    then have "put_off (q @ [TERMINATED]) = 0" if "q \<noteq> []" using that by (intro put_off_first) (cases q; auto)+
    moreover have "put_off (TERMINATED # q) = 1" if "q \<noteq> []" using that by (cases q) auto
    ultimately show ?thesis using eq q True by (auto simp: work_def)
  next
    case False
    then have "work st' < work st" using scheduler_event [OF inv st' q(1)] by simp
    then show ?thesis using put_off_le [of "as_channel st'"] by linarith
  qed
qed

lemma completion_one_message: "completion config i status st = Inr st' \<Longrightarrow> length (as_sent st') \<le> Suc (length (as_sent st))"
  by (auto simp: completion_def call_proceed_def call_send_def call_end_def rbind_eq_Inr_conv Let_def
      split: call_status.splits if_splits)

lemma phase_inv_facts:
  assumes "phase_inv w" "aw_phase w \<noteq> Alive"
  shows "count_list (as_channel (aw_client w)) TERMINATED \<le> 1" "as_blocks (aw_client w) = []"
    "as_waiting (aw_client w) = None"
  using assms by (auto simp: phase_inv_def Let_def quiet_kept_def quiet_def split: dtor_phase.splits if_splits)

lemma dtor_progress:
  assumes core: "ac_inv config W (aw_client w)" and ph: "phase_inv w" "aw_phase w \<noteq> Alive"
    and step: "aw_progress ops config w w'" and cfg: "as_cache_limit config + W < 2 ^ 64"
  shows "dtor_work w' < dtor_work w"
  using step
proof cases
  case sched
  then show ?thesis
    using scheduler_dtor_work [OF core _ phase_inv_facts(1) [OF ph]]
    by (auto simp: world_schedule_def dtor_work_def split: option.splits)
next
  case (complete i status)
  then obtain st' where st': "completion config i status (aw_client w) = Inr st'" "aw_client w' = st'"
    "length (aw_wire w') \<le> length (aw_wire w) + (length (as_sent st') - length (as_sent (aw_client w)))"
    "aw_handlers w' = aw_handlers w" "aw_timer w' = aw_timer w" "aw_phase w' = aw_phase w"
    by (auto simp: async_complete_def Let_def split: if_splits sum.splits)
  have "work st' < work (aw_client w)" using completion_spec [OF core complete(1) cfg, of status] st'(1) by auto
  moreover have "length (as_sent st') \<le> Suc (length (as_sent (aw_client w)))" by (rule completion_one_message [OF st'(1)])
  ultimately show ?thesis
    using st'(2-) put_off_le [of "as_channel st'"] unfolding dtor_work_def by simp
next
  case serve
  then show ?thesis by (auto simp: serve_next_def dtor_work_def split: list.splits sum.splits)
next
  case expire
  then show ?thesis by (auto simp: timer_expires_def dtor_work_def split: if_splits)
next
  case handler
  have "work (snd (schedule_flush (aw_client w))) = work (aw_client w) + 6"
    using phase_inv_facts(2) [OF ph] by (simp add: work_def schedule_flush_def send_def)
  then show ?thesis
    using handler(2) put_off_le [of "as_channel (snd (schedule_flush (aw_client w)))"]
    by (auto simp: run_io_context_def dtor_work_def split: if_splits nat.splits)
next
  case destroy
  then show ?thesis
    using ph(2) put_off_le [of "as_channel (aw_client w) @ [TERMINATED]"]
    by (auto simp: dtor_next_def dtor_work_def work_def phase_work_def send_def split: dtor_phase.splits if_splits)
qed

lemma dtor_enabled:
  assumes core: "ac_inv config W (aw_client w)" and ids: "ids_inv (aw_client w)" and ph: "phase_inv w" "aw_phase w \<noteq> Alive"
    and cfg: "as_cache_limit config + W < 2 ^ 64" and total: "\<And>q s. \<exists>r. write_from ops q s = Inr r"
    and stuck: "\<nexists>w'. aw_progress ops config w w'"
  shows "aw_phase w = Stopped"
proof -
  let ?st = "aw_client w"
  have wire: "aw_wire w = []"
  proof (rule ccontr)
    assume "aw_wire w \<noteq> []"
    then obtain q qs where q: "aw_wire w = q # qs" by (cases "aw_wire w") auto
    obtain r where "write_from ops q (lb_srv (snd (aw_net w))) = Inr r" using total by blast
    then have "\<exists>w'. serve_next ops w = Some w'" by (cases r) (simp add: serve_next_def q ac_stream_write_proceed_def)
    then show False using stuck aw_progress.serve by blast
  qed
  have act: "as_active ?st = []"
  proof (rule ccontr)
    assume "as_active ?st \<noteq> []"
    then have i: "0 < length (as_active ?st)" by simp
    obtain st' where "completion config 0 True ?st = Inr st'" using completion_spec [OF core i cfg, of True] by blast
    then have "\<exists>w'. async_complete config 0 True w = Some w'" using wire by (simp add: async_complete_def Let_def)
    then show False using stuck aw_progress.complete [OF i] by blast
  qed
  have sch: "as_terminated ?st \<or> as_channel ?st = []"
  proof (rule ccontr)
    assume "\<not> (as_terminated ?st \<or> as_channel ?st = [])"
    then have "\<exists>st'. scheduler ?st = Some st'" by (auto simp: scheduler_def receive_def neq_Nil_conv Let_def)
    then have "\<exists>w'. world_schedule w = Some w'" by (auto simp: world_schedule_def)
    then show False using stuck aw_progress.sched by blast
  qed
  have d: "dtor_next w = None" using stuck aw_progress.destroy by (cases "dtor_next w") blast+
  show ?thesis
  proof (cases "aw_phase w")
    case (Flushing fut)
    then have ch: "as_channel ?st = []" and fut: "fut < as_next_id ?st" using sch ph by (auto simp: phase_inv_def quiet_def Let_def)
    then have "as_calls ?st = []" using core act by (auto simp: ac_inv_def inv_events_def split: if_splits)
    then have "fut \<in> fst ` set (as_promises ?st)"
      using core fut act by (auto simp: ac_inv_def inv_futures_def call_ids_def)
    then show ?thesis using d Flushing by (simp add: dtor_next_def)
  next
    case Joining
    then have "as_terminated ?st" using sch ph by (auto simp: phase_inv_def Let_def split: if_splits)
    then show ?thesis using d Joining by (simp add: dtor_next_def)
  next
    case Draining
    then show ?thesis using d act by (simp add: dtor_next_def)
  qed (use ph in simp_all)
qed

text \<open>Once the flush of the destructor is done the client holds no block.\<close>

lemma quiet_kept_backlog: "ids_inv st \<Longrightarrow> quiet_kept st \<Longrightarrow> as_active st = [] \<and> backlog st = [] \<and> unsent st = []"
proof -
  assume ids: "ids_inv st" and "quiet_kept st"
  then obtain fut where q: "quiet fut st" "fut \<in> fst ` set (as_promises st)" by (auto simp: quiet_kept_def)
  have gt: "fut < cl_id c" if "c \<in> set (as_active st) \<union> set (as_calls st)" for c
    by (rule ids_bounds(2) [OF ids that q(2)])
  have "\<not> cl_id c \<le> fut" if "c \<in> set (as_active st) \<union> set (as_calls st)" for c using gt [OF that] by simp
  then have "as_active st = []" "\<forall>c \<in> set (as_calls st). cl_blocks c = []"
    using q(1) unfolding quiet_def by (metis UnCI list.set_intros(1) neq_Nil_conv, blast)
  then show ?thesis using q(1) by (simp add: quiet_def backlog_def unsent_def)
qed

section \<open>A run\<close>

text \<open>
  Two neighbouring writes and an \<^verbatim>\<open>fsync\<close> of the file, on a server whose files are byte lists: the
  call is scheduled, its one message is sent, executed or not, and the stream ends.
\<close>

definition sample_ops :: "(path \<Rightarrow> bytes, dir_info) fuse_operations" where
  "sample_ops = null_operations\<lparr>op_write := Some file_write, op_fsync := Some (\<lambda>path ds fi s. Inr ((0, fi), s))\<rparr>"

definition sample_net :: "(path \<Rightarrow> bytes) \<Rightarrow> ((path \<Rightarrow> bytes) loopback_net, nat) client_state" where
  "sample_net fs = (\<lparr>sc_read_streams = fmempty, sc_write_streams = fmempty\<rparr>,
     \<lparr>lb_srv = fs, lb_rstreams = fmempty, lb_wstreams = fmempty, lb_next = 0\<rparr>)"

definition sample_request :: WriteRequest where
  "sample_request = WriteRequest ''/f'' 5 0 ''abcde'' (wire_info zero_file_info)"

definition sample_sync :: sync_op where
  "sample_sync = Fsync_op ''/f'' 0 zero_file_info"

definition sample_world :: "(path \<Rightarrow> bytes) async_world" where
  "sample_world = flush_call sample_sync (world_write sample_config (sample_block ''de'' 3)
     (world_write sample_config (sample_block ''abc'' 0) (async_world_new (sample_net (\<lambda>_. [])))))"

definition sample_call :: "call_status \<Rightarrow> async_client" where
  "sample_call status = sample_sent\<lparr>as_cache_size := 0,
     as_active := [\<lparr>cl_id = 0, cl_blocks = [], cl_status = status, cl_n_sent = 0\<rparr>]\<rparr>"

definition sample_ended :: "bool \<Rightarrow> async_client" where
  "sample_ended status = (sample_call AC_FINISHED)\<lparr>as_active := [], as_channel := [CALL_ENDED], as_promises := [(0, status)]\<rparr>"

definition sample_returned :: "bool \<Rightarrow> srv_event list \<Rightarrow> (path \<Rightarrow> bytes) \<Rightarrow> (path \<Rightarrow> bytes) async_world" where
  "sample_returned status log fs = sample_world\<lparr>aw_client := sample_ended status, aw_flushers := [],
     aw_log := log @ [Synced sample_sync 2 0], aw_net := sample_net fs\<rparr>"

lemma sample_world_eq:
  "sample_world = \<lparr>aw_client = sample_queued, aw_timer = True, aw_handlers = 0, aw_wire = [],
     aw_net = sample_net (\<lambda>_. []), aw_flushers = [(0, 2, sample_sync)], aw_phase = Alive, aw_log = []\<rparr>"
  by (simp add: sample_world_def flush_call_def world_write_def async_world_new_def sample_simps)

lemma sample_world_reachable: "aw_reachable sample_ops sample_config 10 sample_world"
  unfolding sample_world_def
  by (rule aw_reachable.flushed, rule aw_reachable.written, rule aw_reachable.written, rule aw_reachable.start)
     (simp_all add: world_write_def async_world_new_def sample_simps wf_block_def)

lemma sample_sent_world_reachable:
  "aw_reachable sample_ops sample_config 10 (sample_world\<lparr>aw_client := sample_sent, aw_wire := [sample_request]\<rparr>)"
proof -
  have "aw_reachable sample_ops sample_config 10 (sample_world\<lparr>aw_client := sample_started\<rparr>)"
    by (rule aw_reachable.progressed [OF sample_world_reachable], rule aw_progress.sched)
       (simp add: world_schedule_def sample_world_eq sample_started_def sample_queued_eq scheduler_def receive_def)
  then show ?thesis
    by (rule aw_reachable.progressed [OF _ aw_progress.complete [where i = 0 and status = True]])
       (simp_all add: async_complete_def sample_world_eq sample_sent_def sample_started_eq sample_queued_eq completion_def
          call_proceed_def call_send_def sample_config_def sample_send_block sample_request_def)
qed

text \<open>From a sent message to the end of the call, with the messages \<open>wire\<close> not executed.\<close>

lemma sample_finish:
  assumes w: "aw_reachable sample_ops sample_config 10 (sample_world\<lparr>aw_client := sample_sent, aw_wire := wire,
      aw_log := log, aw_net := sample_net fs\<rparr>)" and ok: "status \<longrightarrow> wire = []"
  shows "aw_reachable sample_ops sample_config 10 (sample_returned status log fs)"
proof -
  let ?w = "\<lambda>st wire. sample_world\<lparr>aw_client := st, aw_wire := wire, aw_log := log, aw_net := sample_net fs\<rparr>"
  note step = aw_reachable.progressed [OF _ aw_progress.complete [where i = 0 and status = status]]
  note sample = async_complete_def sample_world_eq sample_call_def sample_sent_def sample_started_eq sample_queued_eq
    completion_def call_proceed_def sample_config_def sample_block_def size_sub_exact sample_ended_def call_end_def send_def
  have "aw_reachable sample_ops sample_config 10 (?w (sample_call AC_WRITES_DONE) wire)"
    by (rule step [OF w]) (simp_all add: sample numeral_eq_Suc size_sub_def)
  then have "aw_reachable sample_ops sample_config 10 (?w (sample_call AC_FINISHED) wire)"
    by (rule step) (simp_all add: sample)
  then have "aw_reachable sample_ops sample_config 10 (?w (sample_ended status) [])"
    by (rule step) (use ok in \<open>auto simp: sample\<close>)
  then show ?thesis
    by (rule aw_reachable.returned [where i = 0])
       (simp_all add: flush_return_def sample_world_eq sample_ended_def sample_returned_def sync_call_def sample_sync_def
          sc_fsync_def sample_net_def loopback_def lb_call_def sample_ops_def with_info_def)
qed

section \<open>Properties\<close>

text \<open>
  C3. \<^verbatim>\<open>flush\<close> and \<^verbatim>\<open>fsync\<close> of the asynchronous client are barriers: as long as no write stream has
  failed, whatever the threads of the client, its timer and other clients do, the server
  executes the synchronous call only after messages that carry, in order, at least all the
  blocks the client had accepted when the call began.
\<close>

theorem async_flush_is_barrier:
  assumes "aw_reachable ops config W w" "as_cache_limit config + W < 2 ^ 64" "no_failure (aw_client w)"
    and "aw_log w = before @ Synced op n r # after"
  shows "\<exists>gs more. writes_of before = map request_of gs \<and> (\<forall>g \<in> set gs. block_group (as_block_size config) g) \<and>
    concat gs = take n (as_accepted (aw_client w)) @ more"
proof -
  obtain gs gw where g: "delivered config w gs gw" "covered (aw_log w) gs"
    using aw_reachable_inv [OF assms(1,2)] assms(3) by (auto simp: aw_inv_def)
  then obtain gs1 gs2 where gs1: "gs = gs1 @ gs2" "writes_of before = map request_of gs1" "n \<le> length (concat gs1)"
    using assms(4) unfolding covered_def by blast
  then have "concat gs1 = take n (as_accepted (aw_client w)) @ drop n (concat gs1)"
    using g(1) by (simp add: delivered_def)
  then show ?thesis using g(1) gs1(1,2) by (auto simp: delivered_def intro!: exI [of _ gs1])
qed

text \<open>The run in which the server executes the message before the stream ends.\<close>

lemma sample_served_reachable:
  "aw_reachable sample_ops sample_config 10 (sample_returned True [Wrote sample_request] ((\<lambda>_. [])(''/f'' := ''abcde'')))"
proof (rule sample_finish [where wire = "[]"])
  show "aw_reachable sample_ops sample_config 10 (sample_world\<lparr>aw_client := sample_sent, aw_wire := [],
      aw_log := [Wrote sample_request], aw_net := sample_net ((\<lambda>_. [])(''/f'' := ''abcde''))\<rparr>)"
    by (rule aw_reachable.progressed [OF sample_sent_world_reachable aw_progress.serve])
       (simp add: serve_next_def sample_world_eq sample_request_def ac_stream_write_proceed_def sample_ops_def with_info_def
          file_write_def pwrite_def sample_net_def)
qed simp

theorem async_flush_is_barrier_witness:
  "\<exists>gs more. writes_of [Wrote sample_request] = map request_of gs \<and>
     concat gs = [sample_block ''abc'' 0, sample_block ''de'' 3] @ more"
proof -
  have "aw_log (sample_returned True [Wrote sample_request] ((\<lambda>_. [])(''/f'' := ''abcde''))) =
      [Wrote sample_request] @ Synced sample_sync 2 0 # []"
    by (simp add: sample_returned_def)
  from async_flush_is_barrier [OF sample_served_reachable _ _ this]
  obtain gs more where "writes_of [Wrote sample_request] = map request_of gs"
    "concat gs = [sample_block ''abc'' 0, sample_block ''de'' 3] @ more"
    by (auto simp: sample_config_def sample_returned_def sample_ended_def sample_call_def sample_sent_def sample_started_eq
        sample_queued_eq no_failure_def simp del: writes_of.simps)
  then show ?thesis by blast
qed

text \<open>
  C16. \<^verbatim>\<open>fsync\<close> hides lost writes: when the stream of the flush it waits for fails, it does not look
  at the status the future delivers and returns the result of the server's own \<^verbatim>\<open>fsync\<close>. There is
  a run in which an \<^verbatim>\<open>fsync\<close> returns 0 although the server has executed none of the two writes
  made before it, and the client no longer holds them.
\<close>

theorem async_fsync_hides_lost_writes:
  "\<exists>w. aw_reachable sample_ops sample_config 10 w \<and> aw_log w = [Synced (Fsync_op ''/f'' 0 zero_file_info) 2 0] \<and>
     as_accepted (aw_client w) = [sample_block ''abc'' 0, sample_block ''de'' 3] \<and> backlog (aw_client w) = [] \<and>
     aw_wire w = [] \<and> lb_srv (snd (aw_net w)) ''/f'' = []"
proof (intro exI conjI)
  have "sample_world\<lparr>aw_client := sample_sent, aw_wire := [sample_request], aw_log := [], aw_net := sample_net (\<lambda>_. [])\<rparr> =
      sample_world\<lparr>aw_client := sample_sent, aw_wire := [sample_request]\<rparr>"
    by (simp add: sample_world_eq)
  with sample_sent_world_reachable show "aw_reachable sample_ops sample_config 10 (sample_returned False [] (\<lambda>_. []))"
    by (intro sample_finish [where wire = "[sample_request]"]) simp_all
qed (simp_all add: sample_returned_def sample_sync_def sample_ended_def sample_call_def sample_sent_def sample_started_eq
      sample_queued_eq backlog_def sample_world_eq sample_net_def)

text \<open>
  C11. The destructor of the asynchronous client returns and loses nothing: once it has begun,
  every step of the scheduler, of a completion, of the timer, of the server or of the
  destructor itself leaves less to do, in any order, and until it has returned one of them can
  be taken; when it has returned, no block is held any more and, if no write stream failed,
  the server has executed exactly the accepted writes, in order.
\<close>

theorem async_destructor_completes:
  assumes "aw_reachable ops config W w" "as_cache_limit config + W < 2 ^ 64" "aw_phase w \<noteq> Alive"
    and "\<And>q s. \<exists>r. write_from ops q s = Inr r"
  shows "(\<forall>w'. aw_progress ops config w w' \<longrightarrow> dtor_work w' < dtor_work w) \<and>
    (aw_phase w = Stopped \<or> (\<exists>w'. aw_progress ops config w w')) \<and>
    (aw_phase w = Stopped \<longrightarrow> backlog (aw_client w) = [] \<and>
      (no_failure (aw_client w) \<longrightarrow> (\<exists>gs. writes_of (aw_log w) = map request_of gs \<and>
         (\<forall>g \<in> set gs. block_group (as_block_size config) g) \<and> concat gs = as_accepted (aw_client w))))"
proof (intro conjI)
  note core = ac_reachable_inv [OF world_client_reachable [OF assms(1)] assms(2)]
  note ids = ac_reachable_ids [OF world_client_reachable [OF assms(1)] assms(2)]
  note ph = aw_reachable_phase [OF assms(1,2)]
  show "\<forall>w'. aw_progress ops config w w' \<longrightarrow> dtor_work w' < dtor_work w"
    using dtor_progress [OF core ph assms(3) _ assms(2)] by blast
  show "aw_phase w = Stopped \<or> (\<exists>w'. aw_progress ops config w w')"
    using dtor_enabled [OF core ids ph assms(3,2,4)] by blast
  show "aw_phase w = Stopped \<longrightarrow> backlog (aw_client w) = [] \<and>
      (no_failure (aw_client w) \<longrightarrow> (\<exists>gs. writes_of (aw_log w) = map request_of gs \<and>
         (\<forall>g \<in> set gs. block_group (as_block_size config) g) \<and> concat gs = as_accepted (aw_client w)))"
  proof
    assume "aw_phase w = Stopped"
    then have e: "as_active (aw_client w) = []" "backlog (aw_client w) = []" "unsent (aw_client w) = []"
      using quiet_kept_backlog [OF ids] ph by (auto simp: phase_inv_def Let_def)
    have inv: "aw_inv config w" by (rule aw_reachable_inv [OF assms(1,2)])
    have "\<exists>gs. writes_of (aw_log w) = map request_of gs \<and>
         (\<forall>g \<in> set gs. block_group (as_block_size config) g) \<and> concat gs = as_accepted (aw_client w)"
      if "no_failure (aw_client w)"
      using inv e that by (auto simp: aw_inv_def delivered_def)
    with e show "backlog (aw_client w) = [] \<and> (no_failure (aw_client w) \<longrightarrow>
        (\<exists>gs. writes_of (aw_log w) = map request_of gs \<and>
         (\<forall>g \<in> set gs. block_group (as_block_size config) g) \<and> concat gs = as_accepted (aw_client w)))"
      by blast
  qed
qed

lemma sample_writes_total: "\<exists>r. write_from sample_ops q s = Inr r"
  by (cases q) (simp add: sample_ops_def with_info_def file_write_def Let_def)

theorem async_destructor_completes_witness:
  "\<exists>w'. aw_progress sample_ops sample_config
     ((async_world_new (sample_net (\<lambda>_. [])))\<lparr>aw_client := snd (schedule_flush async_client_new), aw_phase := Flushing 0\<rparr>) w'"
proof -
  let ?w = "(async_world_new (sample_net (\<lambda>_. [])))\<lparr>aw_client := snd (schedule_flush async_client_new), aw_phase := Flushing 0\<rparr>"
  have "aw_reachable sample_ops sample_config 10 ?w"
    by (rule aw_reachable.destructed [OF aw_reachable.start [where net = "sample_net (\<lambda>_. [])"]])
       (simp_all add: async_world_new_def async_client_new_def dtor_begin_def schedule_flush_def)
  then have "aw_phase ?w = Stopped \<or> (\<exists>w'. aw_progress sample_ops sample_config ?w w')"
    using async_destructor_completes [of sample_ops sample_config 10 ?w, OF _ _ _ sample_writes_total]
    by (simp add: sample_config_def)
  then show ?thesis by simp
qed

end
