(* ===== verification/Call_Objects.thy ===== *)
theory Call_Objects
  imports Rpc_Server
begin

text \<open>
  The call objects of the server (\<^verbatim>\<open>include/rsafefs/fuse_rpc/grpc/server.hpp\<close>): one class per
  procedure, derived from \<^verbatim>\<open>unary_call_data\<close> or \<^verbatim>\<open>bidi_stream_call_data\<close> (the client-streaming one from
  \<^verbatim>\<open>call_data\<close> itself), each with its messages and its status. A constructor registers the new
  object with its procedure; \<^verbatim>\<open>proceed\<close>, reached through the base class, is one function by cases on
  the class of the object. The table of operations is an argument.
\<close>

section \<open>Classes\<close>

text \<open>Of the base class only the queue differs between objects; the operations are those of the server.\<close>

record srv_call_data =
  cd_cq :: nat

record ('q, 'r) unary_call_data = srv_call_data +
  uc_status :: unary_status
  uc_request :: 'q
  uc_reply :: 'r

text \<open>A stream keeps its status and, when it answers, its reply (\<open>Rpc_Server\<close>).\<close>

record ('q, 'o) stream_call_data = srv_call_data +
  sd_request :: 'q
  sd_state :: 'o

type_synonym getattr_data = "(GetattrRequest, GetattrReply) unary_call_data"
type_synonym fgetattr_data = "(FgetattrRequest, FgetattrReply) unary_call_data"
type_synonym access_data = "(AccessRequest, AccessReply) unary_call_data"
type_synonym readlink_data = "(ReadlinkRequest, ReadlinkReply) unary_call_data"
type_synonym opendir_data = "(OpendirRequest, OpendirReply) unary_call_data"
type_synonym readdir_data = "(ReaddirRequest, ReaddirReply) unary_call_data"
type_synonym releasedir_data = "(ReleasedirRequest, ReleasedirReply) unary_call_data"
type_synonym mknod_data = "(MknodRequest, MknodReply) unary_call_data"
type_synonym mkdir_data = "(MkdirRequest, MkdirReply) unary_call_data"
type_synonym symlink_data = "(SymlinkRequest, SymlinkReply) unary_call_data"
type_synonym unlink_data = "(UnlinkRequest, UnlinkReply) unary_call_data"
type_synonym rmdir_data = "(RmdirRequest, RmdirReply) unary_call_data"
type_synonym rename_data = "(RenameRequest, RenameReply) unary_call_data"
type_synonym link_data = "(LinkRequest, LinkReply) unary_call_data"
type_synonym chmod_data = "(ChmodRequest, ChmodReply) unary_call_data"
type_synonym chown_data = "(ChownRequest, ChownReply) unary_call_data"
type_synonym truncate_data = "(TruncateRequest, TruncateReply) unary_call_data"
type_synonym ftruncate_data = "(FtruncateRequest, FtruncateReply) unary_call_data"
type_synonym utimens_data = "(UtimensRequest, UtimensReply) unary_call_data"
type_synonym create_data = "(CreateRequest, CreateReply) unary_call_data"
type_synonym open_data = "(OpenRequest, OpenReply) unary_call_data"
type_synonym read_data = "(ReadRequest, ReadReply) unary_call_data"
type_synonym write_data = "(WriteRequest, WriteReply) unary_call_data"
type_synonym statfs_data = "(StatfsRequest, StatfsReply) unary_call_data"
type_synonym flush_data = "(FlushRequest, FlushReply) unary_call_data"
type_synonym release_data = "(ReleaseRequest, ReleaseReply) unary_call_data"
type_synonym fsync_data = "(FsyncRequest, FsyncReply) unary_call_data"
type_synonym fallocate_data = "(FallocateRequest, FallocateReply) unary_call_data"
type_synonym setxattr_data = "(SetxattrRequest, SetxattrReply) unary_call_data"
type_synonym getxattr_data = "(GetxattrRequest, GetxattrReply) unary_call_data"
type_synonym listxattr_data = "(ListxattrRequest, ListxattrReply) unary_call_data"
type_synonym removexattr_data = "(RemovexattrRequest, RemovexattrReply) unary_call_data"
type_synonym stream_read_call = "(ReadRequest, stream_read_data) stream_call_data"
type_synonym stream_write_call = "(WriteRequest, stream_write_data) stream_call_data"
type_synonym ac_stream_write_call = "(WriteRequest, stream_write_data) stream_call_data"

datatype call_object =
    Getattr_data getattr_data
  | Fgetattr_data fgetattr_data
  | Access_data access_data
  | Readlink_data readlink_data
  | Opendir_data opendir_data
  | Readdir_data readdir_data
  | Releasedir_data releasedir_data
  | Mknod_data mknod_data
  | Mkdir_data mkdir_data
  | Symlink_data symlink_data
  | Unlink_data unlink_data
  | Rmdir_data rmdir_data
  | Rename_data rename_data
  | Link_data link_data
  | Chmod_data chmod_data
  | Chown_data chown_data
  | Truncate_data truncate_data
  | Ftruncate_data ftruncate_data
  | Utimens_data utimens_data
  | Create_data create_data
  | Open_data open_data
  | Read_data read_data
  | Write_data write_data
  | Statfs_data statfs_data
  | Flush_data flush_data
  | Release_data release_data
  | Fsync_data fsync_data
  | Fallocate_data fallocate_data
  | Setxattr_data setxattr_data
  | Getxattr_data getxattr_data
  | Listxattr_data listxattr_data
  | Removexattr_data removexattr_data
  | Stream_read_data stream_read_call
  | Stream_write_data stream_write_call
  | AC_stream_write_data ac_stream_write_call

section \<open>Constructors\<close>

text \<open>
  The base classes set the status; the messages are fresh. The result of a constructor is the
  object and the procedure it registers with, the \<open>X\<close> of \<^verbatim>\<open>service_.RequestX(..., this)\<close>.
\<close>

definition unary_call_data_new :: "'q \<Rightarrow> 'r \<Rightarrow> nat \<Rightarrow> ('q, 'r) unary_call_data" where
  "unary_call_data_new request reply cq = \<lparr>cd_cq = cq, uc_status = PROCESS, uc_request = request, uc_reply = reply\<rparr>"

definition stream_call_data_new :: "'q \<Rightarrow> 'o \<Rightarrow> nat \<Rightarrow> ('q, 'o) stream_call_data" where
  "stream_call_data_new request state cq = \<lparr>cd_cq = cq, sd_request = request, sd_state = state\<rparr>"

definition getattr_data_new :: "nat \<Rightarrow> call_object \<times> rpc_method" where
  "getattr_data_new cq = (Getattr_data (unary_call_data_new (GetattrRequest [])
     (GetattrReply 0 default_Stat) cq), RPC_Getattr)"

definition fgetattr_data_new :: "nat \<Rightarrow> call_object \<times> rpc_method" where
  "fgetattr_data_new cq = (Fgetattr_data (unary_call_data_new (FgetattrRequest [] default_FuseFileInfo)
     (FgetattrReply 0 default_Stat default_FuseFileInfo) cq), RPC_Fgetattr)"

definition access_data_new :: "nat \<Rightarrow> call_object \<times> rpc_method" where
  "access_data_new cq = (Access_data (unary_call_data_new (AccessRequest [] 0)
     (AccessReply 0) cq), RPC_Access)"

definition readlink_data_new :: "nat \<Rightarrow> call_object \<times> rpc_method" where
  "readlink_data_new cq = (Readlink_data (unary_call_data_new (ReadlinkRequest [] 0)
     (ReadlinkReply 0 []) cq), RPC_Readlink)"

definition opendir_data_new :: "nat \<Rightarrow> call_object \<times> rpc_method" where
  "opendir_data_new cq = (Opendir_data (unary_call_data_new (OpendirRequest [] default_FuseFileInfo)
     (OpendirReply 0 default_FuseFileInfo) cq), RPC_Opendir)"

definition readdir_data_new :: "nat \<Rightarrow> call_object \<times> rpc_method" where
  "readdir_data_new cq = (Readdir_data (unary_call_data_new (ReaddirRequest [] 0 default_FuseFileInfo)
     (ReaddirReply 0 [] default_FuseFileInfo) cq), RPC_Readdir)"

definition releasedir_data_new :: "nat \<Rightarrow> call_object \<times> rpc_method" where
  "releasedir_data_new cq = (Releasedir_data (unary_call_data_new (ReleasedirRequest [] default_FuseFileInfo)
     (ReleasedirReply 0 default_FuseFileInfo) cq), RPC_Releasedir)"

definition mknod_data_new :: "nat \<Rightarrow> call_object \<times> rpc_method" where
  "mknod_data_new cq = (Mknod_data (unary_call_data_new (MknodRequest [] 0 0)
     (MknodReply 0) cq), RPC_Mknod)"

definition mkdir_data_new :: "nat \<Rightarrow> call_object \<times> rpc_method" where
  "mkdir_data_new cq = (Mkdir_data (unary_call_data_new (MkdirRequest [] 0)
     (MkdirReply 0) cq), RPC_Mkdir)"

definition symlink_data_new :: "nat \<Rightarrow> call_object \<times> rpc_method" where
  "symlink_data_new cq = (Symlink_data (unary_call_data_new (SymlinkRequest [] [])
     (SymlinkReply 0) cq), RPC_Symlink)"

definition unlink_data_new :: "nat \<Rightarrow> call_object \<times> rpc_method" where
  "unlink_data_new cq = (Unlink_data (unary_call_data_new (UnlinkRequest [])
     (UnlinkReply 0) cq), RPC_Unlink)"

definition rmdir_data_new :: "nat \<Rightarrow> call_object \<times> rpc_method" where
  "rmdir_data_new cq = (Rmdir_data (unary_call_data_new (RmdirRequest [])
     (RmdirReply 0) cq), RPC_Rmdir)"

definition rename_data_new :: "nat \<Rightarrow> call_object \<times> rpc_method" where
  "rename_data_new cq = (Rename_data (unary_call_data_new (RenameRequest [] [])
     (RenameReply 0) cq), RPC_Rename)"

definition link_data_new :: "nat \<Rightarrow> call_object \<times> rpc_method" where
  "link_data_new cq = (Link_data (unary_call_data_new (LinkRequest [] [])
     (LinkReply 0) cq), RPC_Link)"

definition chmod_data_new :: "nat \<Rightarrow> call_object \<times> rpc_method" where
  "chmod_data_new cq = (Chmod_data (unary_call_data_new (ChmodRequest [] 0)
     (ChmodReply 0) cq), RPC_Chmod)"

definition chown_data_new :: "nat \<Rightarrow> call_object \<times> rpc_method" where
  "chown_data_new cq = (Chown_data (unary_call_data_new (ChownRequest [] 0 0)
     (ChownReply 0) cq), RPC_Chown)"

definition truncate_data_new :: "nat \<Rightarrow> call_object \<times> rpc_method" where
  "truncate_data_new cq = (Truncate_data (unary_call_data_new (TruncateRequest [] 0)
     (TruncateReply 0) cq), RPC_Truncate)"

definition ftruncate_data_new :: "nat \<Rightarrow> call_object \<times> rpc_method" where
  "ftruncate_data_new cq = (Ftruncate_data (unary_call_data_new (FtruncateRequest [] 0 default_FuseFileInfo)
     (FtruncateReply 0 default_FuseFileInfo) cq), RPC_Ftruncate)"

definition utimens_data_new :: "nat \<Rightarrow> call_object \<times> rpc_method" where
  "utimens_data_new cq = (Utimens_data (unary_call_data_new (UtimensRequest [] default_Timespec default_Timespec)
     (UtimensReply 0) cq), RPC_Utimens)"

definition create_data_new :: "nat \<Rightarrow> call_object \<times> rpc_method" where
  "create_data_new cq = (Create_data (unary_call_data_new (CreateRequest [] 0 default_FuseFileInfo)
     (CreateReply 0 default_FuseFileInfo) cq), RPC_Create)"

definition open_data_new :: "nat \<Rightarrow> call_object \<times> rpc_method" where
  "open_data_new cq = (Open_data (unary_call_data_new (OpenRequest [] default_FuseFileInfo)
     (OpenReply 0 default_FuseFileInfo) cq), RPC_Open)"

definition read_data_new :: "nat \<Rightarrow> call_object \<times> rpc_method" where
  "read_data_new cq = (Read_data (unary_call_data_new (ReadRequest [] 0 0 default_FuseFileInfo)
     (ReadReply 0 [] default_FuseFileInfo) cq), RPC_Read)"

definition write_data_new :: "nat \<Rightarrow> call_object \<times> rpc_method" where
  "write_data_new cq = (Write_data (unary_call_data_new (WriteRequest [] 0 0 [] default_FuseFileInfo)
     (WriteReply 0 default_FuseFileInfo) cq), RPC_Write)"

definition statfs_data_new :: "nat \<Rightarrow> call_object \<times> rpc_method" where
  "statfs_data_new cq = (Statfs_data (unary_call_data_new (StatfsRequest [])
     (StatfsReply 0 default_Statvfs) cq), RPC_Statfs)"

definition flush_data_new :: "nat \<Rightarrow> call_object \<times> rpc_method" where
  "flush_data_new cq = (Flush_data (unary_call_data_new (FlushRequest [] default_FuseFileInfo)
     (FlushReply 0 default_FuseFileInfo) cq), RPC_Flush)"

definition release_data_new :: "nat \<Rightarrow> call_object \<times> rpc_method" where
  "release_data_new cq = (Release_data (unary_call_data_new (ReleaseRequest [] default_FuseFileInfo)
     (ReleaseReply 0 default_FuseFileInfo) cq), RPC_Release)"

definition fsync_data_new :: "nat \<Rightarrow> call_object \<times> rpc_method" where
  "fsync_data_new cq = (Fsync_data (unary_call_data_new (FsyncRequest [] 0 default_FuseFileInfo)
     (FsyncReply 0 default_FuseFileInfo) cq), RPC_Fsync)"

definition fallocate_data_new :: "nat \<Rightarrow> call_object \<times> rpc_method" where
  "fallocate_data_new cq = (Fallocate_data (unary_call_data_new (FallocateRequest [] 0 0 0 default_FuseFileInfo)
     (FallocateReply 0 default_FuseFileInfo) cq), RPC_Fallocate)"

definition setxattr_data_new :: "nat \<Rightarrow> call_object \<times> rpc_method" where
  "setxattr_data_new cq = (Setxattr_data (unary_call_data_new (SetxattrRequest [] [] 0 0 [])
     (SetxattrReply 0) cq), RPC_Setxattr)"

definition getxattr_data_new :: "nat \<Rightarrow> call_object \<times> rpc_method" where
  "getxattr_data_new cq = (Getxattr_data (unary_call_data_new (GetxattrRequest [] [] 0)
     (GetxattrReply 0 []) cq), RPC_Getxattr)"

definition listxattr_data_new :: "nat \<Rightarrow> call_object \<times> rpc_method" where
  "listxattr_data_new cq = (Listxattr_data (unary_call_data_new (ListxattrRequest [] 0)
     (ListxattrReply 0 []) cq), RPC_Listxattr)"

definition removexattr_data_new :: "nat \<Rightarrow> call_object \<times> rpc_method" where
  "removexattr_data_new cq = (Removexattr_data (unary_call_data_new (RemovexattrRequest [] [])
     (RemovexattrReply 0) cq), RPC_Removexattr)"

definition stream_read_data_new :: "nat \<Rightarrow> call_object \<times> rpc_method" where
  "stream_read_data_new cq = (Stream_read_data (stream_call_data_new (ReadRequest [] 0 0 default_FuseFileInfo)
     \<lparr>srd_status = S_CREATE, srd_reply_buf = []\<rparr> cq), RPC_StreamRead)"

definition stream_write_data_new :: "nat \<Rightarrow> call_object \<times> rpc_method" where
  "stream_write_data_new cq = (Stream_write_data (stream_call_data_new (WriteRequest [] 0 0 [] default_FuseFileInfo)
     \<lparr>swd_status = S_CREATE\<rparr> cq), RPC_StreamWrite)"

definition ac_stream_write_data_new :: "nat \<Rightarrow> call_object \<times> rpc_method" where
  "ac_stream_write_data_new cq = (AC_stream_write_data (stream_call_data_new (WriteRequest [] 0 0 [] default_FuseFileInfo)
     \<lparr>swd_status = S_CREATE\<rparr> cq), RPC_ACStreamWrite)"

lemmas data_new_defs = unary_call_data_new_def stream_call_data_new_def
  getattr_data_new_def fgetattr_data_new_def access_data_new_def readlink_data_new_def
  opendir_data_new_def readdir_data_new_def releasedir_data_new_def mknod_data_new_def
  mkdir_data_new_def symlink_data_new_def unlink_data_new_def rmdir_data_new_def
  rename_data_new_def link_data_new_def chmod_data_new_def chown_data_new_def truncate_data_new_def
  ftruncate_data_new_def utimens_data_new_def create_data_new_def open_data_new_def
  read_data_new_def write_data_new_def statfs_data_new_def flush_data_new_def release_data_new_def
  fsync_data_new_def fallocate_data_new_def setxattr_data_new_def getxattr_data_new_def
  listxattr_data_new_def removexattr_data_new_def stream_read_data_new_def
  stream_write_data_new_def ac_stream_write_data_new_def

section \<open>The virtual function\<close>

text \<open>
  What every unary class does: in \<^verbatim>\<open>PROCESS\<close> create the successor, execute the request and answer;
  then delete itself. The result is the object, if it still exists, and the objects created.
\<close>

definition unary_step :: "(('q, 'r) unary_call_data \<Rightarrow> call_object) \<Rightarrow> (nat \<Rightarrow> call_object \<times> rpc_method)
    \<Rightarrow> ('q \<Rightarrow> ('s, 'r) action) \<Rightarrow> ('q, 'r) unary_call_data
    \<Rightarrow> ('s, call_object option \<times> (call_object \<times> rpc_method) list) action" where
  "unary_step obj new body d s =
     (case uc_status d of
        PROCESS \<Rightarrow> rbind (body (uc_request d) s) (\<lambda>(reply, s1).
          Inr ((Some (obj (d\<lparr>uc_status := FINISHED, uc_reply := reply\<rparr>)), [new (cd_cq d)]), s1))
      | FINISHED \<Rightarrow> Inr ((None, []), s))"

definition stream_step :: "(('q, 'o) stream_call_data \<Rightarrow> call_object) \<Rightarrow> (nat \<Rightarrow> call_object \<times> rpc_method)
    \<Rightarrow> (bool \<Rightarrow> 'q \<Rightarrow> 'o \<Rightarrow> ('s, 'o option \<times> nat \<times> 'r stream_out) action) \<Rightarrow> bool \<Rightarrow> ('q, 'o) stream_call_data
    \<Rightarrow> ('s, call_object option \<times> (call_object \<times> rpc_method) list) action" where
  "stream_step obj new body ok d s =
     rbind (body ok (sd_request d) (sd_state d) s) (\<lambda>((state, n, _), s1).
       Inr ((map_option (\<lambda>state. obj (d\<lparr>sd_state := state\<rparr>)) state, replicate n (new (cd_cq d))), s1))"

fun proceed :: "('s, dir_info) fuse_operations \<Rightarrow> bool \<Rightarrow> call_object
    \<Rightarrow> ('s, call_object option \<times> (call_object \<times> rpc_method) list) action" where
  "proceed ops ok (Getattr_data d) = unary_step Getattr_data getattr_data_new (getattr_process ops) d"
| "proceed ops ok (Fgetattr_data d) = unary_step Fgetattr_data fgetattr_data_new (fgetattr_process ops) d"
| "proceed ops ok (Access_data d) = unary_step Access_data access_data_new (access_process ops) d"
| "proceed ops ok (Readlink_data d) = unary_step Readlink_data readlink_data_new (readlink_process ops) d"
| "proceed ops ok (Opendir_data d) = unary_step Opendir_data opendir_data_new (opendir_process ops) d"
| "proceed ops ok (Readdir_data d) = unary_step Readdir_data readdir_data_new (readdir_process ops) d"
| "proceed ops ok (Releasedir_data d) = unary_step Releasedir_data releasedir_data_new (releasedir_process ops) d"
| "proceed ops ok (Mknod_data d) = unary_step Mknod_data mknod_data_new (mknod_process ops) d"
| "proceed ops ok (Mkdir_data d) = unary_step Mkdir_data mkdir_data_new (mkdir_process ops) d"
| "proceed ops ok (Symlink_data d) = unary_step Symlink_data symlink_data_new (symlink_process ops) d"
| "proceed ops ok (Unlink_data d) = unary_step Unlink_data unlink_data_new (unlink_process ops) d"
| "proceed ops ok (Rmdir_data d) = unary_step Rmdir_data rmdir_data_new (rmdir_process ops) d"
| "proceed ops ok (Rename_data d) = unary_step Rename_data rename_data_new (rename_process ops) d"
| "proceed ops ok (Link_data d) = unary_step Link_data link_data_new (link_process ops) d"
| "proceed ops ok (Chmod_data d) = unary_step Chmod_data chmod_data_new (chmod_process ops) d"
| "proceed ops ok (Chown_data d) = unary_step Chown_data chown_data_new (chown_process ops) d"
| "proceed ops ok (Truncate_data d) = unary_step Truncate_data truncate_data_new (truncate_process ops) d"
| "proceed ops ok (Ftruncate_data d) = unary_step Ftruncate_data ftruncate_data_new (ftruncate_process ops) d"
| "proceed ops ok (Utimens_data d) = unary_step Utimens_data utimens_data_new (utimens_process ops) d"
| "proceed ops ok (Create_data d) = unary_step Create_data create_data_new (create_process ops) d"
| "proceed ops ok (Open_data d) = unary_step Open_data open_data_new (open_process ops) d"
| "proceed ops ok (Read_data d) = unary_step Read_data read_data_new (read_process ops) d"
| "proceed ops ok (Write_data d) = unary_step Write_data write_data_new (write_process ops) d"
| "proceed ops ok (Statfs_data d) = unary_step Statfs_data statfs_data_new (statfs_process ops) d"
| "proceed ops ok (Flush_data d) = unary_step Flush_data flush_data_new (flush_process ops) d"
| "proceed ops ok (Release_data d) = unary_step Release_data release_data_new (release_process ops) d"
| "proceed ops ok (Fsync_data d) = unary_step Fsync_data fsync_data_new (fsync_process ops) d"
| "proceed ops ok (Fallocate_data d) = unary_step Fallocate_data fallocate_data_new (fallocate_process ops) d"
| "proceed ops ok (Setxattr_data d) = unary_step Setxattr_data setxattr_data_new (setxattr_process ops) d"
| "proceed ops ok (Getxattr_data d) = unary_step Getxattr_data getxattr_data_new (getxattr_process ops) d"
| "proceed ops ok (Listxattr_data d) = unary_step Listxattr_data listxattr_data_new (listxattr_process ops) d"
| "proceed ops ok (Removexattr_data d) = unary_step Removexattr_data removexattr_data_new (removexattr_process ops) d"
| "proceed ops ok (Stream_read_data d) = stream_step Stream_read_data stream_read_data_new (stream_read_proceed ops) ok d"
| "proceed ops ok (Stream_write_data d) = stream_step Stream_write_data stream_write_data_new (stream_write_proceed ops) ok d"
| "proceed ops ok (AC_stream_write_data d) = stream_step AC_stream_write_data ac_stream_write_data_new (ac_stream_write_proceed ops) ok d"

section \<open>What is known of an object\<close>

text \<open>
  The procedure of its class, its queue, whether it waits for a new call, whether the next
  completion makes it execute an operation, and the object with a fresh request.
\<close>

fun class_of :: "call_object \<Rightarrow> rpc_method" where
  "class_of (Getattr_data d) = RPC_Getattr"
| "class_of (Fgetattr_data d) = RPC_Fgetattr"
| "class_of (Access_data d) = RPC_Access"
| "class_of (Readlink_data d) = RPC_Readlink"
| "class_of (Opendir_data d) = RPC_Opendir"
| "class_of (Readdir_data d) = RPC_Readdir"
| "class_of (Releasedir_data d) = RPC_Releasedir"
| "class_of (Mknod_data d) = RPC_Mknod"
| "class_of (Mkdir_data d) = RPC_Mkdir"
| "class_of (Symlink_data d) = RPC_Symlink"
| "class_of (Unlink_data d) = RPC_Unlink"
| "class_of (Rmdir_data d) = RPC_Rmdir"
| "class_of (Rename_data d) = RPC_Rename"
| "class_of (Link_data d) = RPC_Link"
| "class_of (Chmod_data d) = RPC_Chmod"
| "class_of (Chown_data d) = RPC_Chown"
| "class_of (Truncate_data d) = RPC_Truncate"
| "class_of (Ftruncate_data d) = RPC_Ftruncate"
| "class_of (Utimens_data d) = RPC_Utimens"
| "class_of (Create_data d) = RPC_Create"
| "class_of (Open_data d) = RPC_Open"
| "class_of (Read_data d) = RPC_Read"
| "class_of (Write_data d) = RPC_Write"
| "class_of (Statfs_data d) = RPC_Statfs"
| "class_of (Flush_data d) = RPC_Flush"
| "class_of (Release_data d) = RPC_Release"
| "class_of (Fsync_data d) = RPC_Fsync"
| "class_of (Fallocate_data d) = RPC_Fallocate"
| "class_of (Setxattr_data d) = RPC_Setxattr"
| "class_of (Getxattr_data d) = RPC_Getxattr"
| "class_of (Listxattr_data d) = RPC_Listxattr"
| "class_of (Removexattr_data d) = RPC_Removexattr"
| "class_of (Stream_read_data d) = RPC_StreamRead"
| "class_of (Stream_write_data d) = RPC_StreamWrite"
| "class_of (AC_stream_write_data d) = RPC_ACStreamWrite"

fun cq_of :: "call_object \<Rightarrow> nat" where
  "cq_of (Getattr_data d) = cd_cq d"
| "cq_of (Fgetattr_data d) = cd_cq d"
| "cq_of (Access_data d) = cd_cq d"
| "cq_of (Readlink_data d) = cd_cq d"
| "cq_of (Opendir_data d) = cd_cq d"
| "cq_of (Readdir_data d) = cd_cq d"
| "cq_of (Releasedir_data d) = cd_cq d"
| "cq_of (Mknod_data d) = cd_cq d"
| "cq_of (Mkdir_data d) = cd_cq d"
| "cq_of (Symlink_data d) = cd_cq d"
| "cq_of (Unlink_data d) = cd_cq d"
| "cq_of (Rmdir_data d) = cd_cq d"
| "cq_of (Rename_data d) = cd_cq d"
| "cq_of (Link_data d) = cd_cq d"
| "cq_of (Chmod_data d) = cd_cq d"
| "cq_of (Chown_data d) = cd_cq d"
| "cq_of (Truncate_data d) = cd_cq d"
| "cq_of (Ftruncate_data d) = cd_cq d"
| "cq_of (Utimens_data d) = cd_cq d"
| "cq_of (Create_data d) = cd_cq d"
| "cq_of (Open_data d) = cd_cq d"
| "cq_of (Read_data d) = cd_cq d"
| "cq_of (Write_data d) = cd_cq d"
| "cq_of (Statfs_data d) = cd_cq d"
| "cq_of (Flush_data d) = cd_cq d"
| "cq_of (Release_data d) = cd_cq d"
| "cq_of (Fsync_data d) = cd_cq d"
| "cq_of (Fallocate_data d) = cd_cq d"
| "cq_of (Setxattr_data d) = cd_cq d"
| "cq_of (Getxattr_data d) = cd_cq d"
| "cq_of (Listxattr_data d) = cd_cq d"
| "cq_of (Removexattr_data d) = cd_cq d"
| "cq_of (Stream_read_data d) = cd_cq d"
| "cq_of (Stream_write_data d) = cd_cq d"
| "cq_of (AC_stream_write_data d) = cd_cq d"

fun awaiting :: "call_object \<Rightarrow> bool" where
  "awaiting (Getattr_data d) = (uc_status d = PROCESS)"
| "awaiting (Fgetattr_data d) = (uc_status d = PROCESS)"
| "awaiting (Access_data d) = (uc_status d = PROCESS)"
| "awaiting (Readlink_data d) = (uc_status d = PROCESS)"
| "awaiting (Opendir_data d) = (uc_status d = PROCESS)"
| "awaiting (Readdir_data d) = (uc_status d = PROCESS)"
| "awaiting (Releasedir_data d) = (uc_status d = PROCESS)"
| "awaiting (Mknod_data d) = (uc_status d = PROCESS)"
| "awaiting (Mkdir_data d) = (uc_status d = PROCESS)"
| "awaiting (Symlink_data d) = (uc_status d = PROCESS)"
| "awaiting (Unlink_data d) = (uc_status d = PROCESS)"
| "awaiting (Rmdir_data d) = (uc_status d = PROCESS)"
| "awaiting (Rename_data d) = (uc_status d = PROCESS)"
| "awaiting (Link_data d) = (uc_status d = PROCESS)"
| "awaiting (Chmod_data d) = (uc_status d = PROCESS)"
| "awaiting (Chown_data d) = (uc_status d = PROCESS)"
| "awaiting (Truncate_data d) = (uc_status d = PROCESS)"
| "awaiting (Ftruncate_data d) = (uc_status d = PROCESS)"
| "awaiting (Utimens_data d) = (uc_status d = PROCESS)"
| "awaiting (Create_data d) = (uc_status d = PROCESS)"
| "awaiting (Open_data d) = (uc_status d = PROCESS)"
| "awaiting (Read_data d) = (uc_status d = PROCESS)"
| "awaiting (Write_data d) = (uc_status d = PROCESS)"
| "awaiting (Statfs_data d) = (uc_status d = PROCESS)"
| "awaiting (Flush_data d) = (uc_status d = PROCESS)"
| "awaiting (Release_data d) = (uc_status d = PROCESS)"
| "awaiting (Fsync_data d) = (uc_status d = PROCESS)"
| "awaiting (Fallocate_data d) = (uc_status d = PROCESS)"
| "awaiting (Setxattr_data d) = (uc_status d = PROCESS)"
| "awaiting (Getxattr_data d) = (uc_status d = PROCESS)"
| "awaiting (Listxattr_data d) = (uc_status d = PROCESS)"
| "awaiting (Removexattr_data d) = (uc_status d = PROCESS)"
| "awaiting (Stream_read_data d) = (srd_status (sd_state d) = S_CREATE)"
| "awaiting (Stream_write_data d) = (swd_status (sd_state d) = S_CREATE)"
| "awaiting (AC_stream_write_data d) = (swd_status (sd_state d) = S_CREATE)"

fun executes :: "bool \<Rightarrow> call_object \<Rightarrow> bool" where
  "executes ok (Getattr_data d) = (uc_status d = PROCESS)"
| "executes ok (Fgetattr_data d) = (uc_status d = PROCESS)"
| "executes ok (Access_data d) = (uc_status d = PROCESS)"
| "executes ok (Readlink_data d) = (uc_status d = PROCESS)"
| "executes ok (Opendir_data d) = (uc_status d = PROCESS)"
| "executes ok (Readdir_data d) = (uc_status d = PROCESS)"
| "executes ok (Releasedir_data d) = (uc_status d = PROCESS)"
| "executes ok (Mknod_data d) = (uc_status d = PROCESS)"
| "executes ok (Mkdir_data d) = (uc_status d = PROCESS)"
| "executes ok (Symlink_data d) = (uc_status d = PROCESS)"
| "executes ok (Unlink_data d) = (uc_status d = PROCESS)"
| "executes ok (Rmdir_data d) = (uc_status d = PROCESS)"
| "executes ok (Rename_data d) = (uc_status d = PROCESS)"
| "executes ok (Link_data d) = (uc_status d = PROCESS)"
| "executes ok (Chmod_data d) = (uc_status d = PROCESS)"
| "executes ok (Chown_data d) = (uc_status d = PROCESS)"
| "executes ok (Truncate_data d) = (uc_status d = PROCESS)"
| "executes ok (Ftruncate_data d) = (uc_status d = PROCESS)"
| "executes ok (Utimens_data d) = (uc_status d = PROCESS)"
| "executes ok (Create_data d) = (uc_status d = PROCESS)"
| "executes ok (Open_data d) = (uc_status d = PROCESS)"
| "executes ok (Read_data d) = (uc_status d = PROCESS)"
| "executes ok (Write_data d) = (uc_status d = PROCESS)"
| "executes ok (Statfs_data d) = (uc_status d = PROCESS)"
| "executes ok (Flush_data d) = (uc_status d = PROCESS)"
| "executes ok (Release_data d) = (uc_status d = PROCESS)"
| "executes ok (Fsync_data d) = (uc_status d = PROCESS)"
| "executes ok (Fallocate_data d) = (uc_status d = PROCESS)"
| "executes ok (Setxattr_data d) = (uc_status d = PROCESS)"
| "executes ok (Getxattr_data d) = (uc_status d = PROCESS)"
| "executes ok (Listxattr_data d) = (uc_status d = PROCESS)"
| "executes ok (Removexattr_data d) = (uc_status d = PROCESS)"
| "executes ok (Stream_read_data d) = (ok \<and> srd_status (sd_state d) = S_READ)"
| "executes ok (Stream_write_data d) = (ok \<and> swd_status (sd_state d) = S_READ)"
| "executes ok (AC_stream_write_data d) = (ok \<and> swd_status (sd_state d) = S_READ)"

fun blank :: "call_object \<Rightarrow> call_object" where
  "blank (Getattr_data d) = Getattr_data (d\<lparr>uc_request := (GetattrRequest [])\<rparr>)"
| "blank (Fgetattr_data d) = Fgetattr_data (d\<lparr>uc_request := (FgetattrRequest [] default_FuseFileInfo)\<rparr>)"
| "blank (Access_data d) = Access_data (d\<lparr>uc_request := (AccessRequest [] 0)\<rparr>)"
| "blank (Readlink_data d) = Readlink_data (d\<lparr>uc_request := (ReadlinkRequest [] 0)\<rparr>)"
| "blank (Opendir_data d) = Opendir_data (d\<lparr>uc_request := (OpendirRequest [] default_FuseFileInfo)\<rparr>)"
| "blank (Readdir_data d) = Readdir_data (d\<lparr>uc_request := (ReaddirRequest [] 0 default_FuseFileInfo)\<rparr>)"
| "blank (Releasedir_data d) = Releasedir_data (d\<lparr>uc_request := (ReleasedirRequest [] default_FuseFileInfo)\<rparr>)"
| "blank (Mknod_data d) = Mknod_data (d\<lparr>uc_request := (MknodRequest [] 0 0)\<rparr>)"
| "blank (Mkdir_data d) = Mkdir_data (d\<lparr>uc_request := (MkdirRequest [] 0)\<rparr>)"
| "blank (Symlink_data d) = Symlink_data (d\<lparr>uc_request := (SymlinkRequest [] [])\<rparr>)"
| "blank (Unlink_data d) = Unlink_data (d\<lparr>uc_request := (UnlinkRequest [])\<rparr>)"
| "blank (Rmdir_data d) = Rmdir_data (d\<lparr>uc_request := (RmdirRequest [])\<rparr>)"
| "blank (Rename_data d) = Rename_data (d\<lparr>uc_request := (RenameRequest [] [])\<rparr>)"
| "blank (Link_data d) = Link_data (d\<lparr>uc_request := (LinkRequest [] [])\<rparr>)"
| "blank (Chmod_data d) = Chmod_data (d\<lparr>uc_request := (ChmodRequest [] 0)\<rparr>)"
| "blank (Chown_data d) = Chown_data (d\<lparr>uc_request := (ChownRequest [] 0 0)\<rparr>)"
| "blank (Truncate_data d) = Truncate_data (d\<lparr>uc_request := (TruncateRequest [] 0)\<rparr>)"
| "blank (Ftruncate_data d) = Ftruncate_data (d\<lparr>uc_request := (FtruncateRequest [] 0 default_FuseFileInfo)\<rparr>)"
| "blank (Utimens_data d) = Utimens_data (d\<lparr>uc_request := (UtimensRequest [] default_Timespec default_Timespec)\<rparr>)"
| "blank (Create_data d) = Create_data (d\<lparr>uc_request := (CreateRequest [] 0 default_FuseFileInfo)\<rparr>)"
| "blank (Open_data d) = Open_data (d\<lparr>uc_request := (OpenRequest [] default_FuseFileInfo)\<rparr>)"
| "blank (Read_data d) = Read_data (d\<lparr>uc_request := (ReadRequest [] 0 0 default_FuseFileInfo)\<rparr>)"
| "blank (Write_data d) = Write_data (d\<lparr>uc_request := (WriteRequest [] 0 0 [] default_FuseFileInfo)\<rparr>)"
| "blank (Statfs_data d) = Statfs_data (d\<lparr>uc_request := (StatfsRequest [])\<rparr>)"
| "blank (Flush_data d) = Flush_data (d\<lparr>uc_request := (FlushRequest [] default_FuseFileInfo)\<rparr>)"
| "blank (Release_data d) = Release_data (d\<lparr>uc_request := (ReleaseRequest [] default_FuseFileInfo)\<rparr>)"
| "blank (Fsync_data d) = Fsync_data (d\<lparr>uc_request := (FsyncRequest [] 0 default_FuseFileInfo)\<rparr>)"
| "blank (Fallocate_data d) = Fallocate_data (d\<lparr>uc_request := (FallocateRequest [] 0 0 0 default_FuseFileInfo)\<rparr>)"
| "blank (Setxattr_data d) = Setxattr_data (d\<lparr>uc_request := (SetxattrRequest [] [] 0 0 [])\<rparr>)"
| "blank (Getxattr_data d) = Getxattr_data (d\<lparr>uc_request := (GetxattrRequest [] [] 0)\<rparr>)"
| "blank (Listxattr_data d) = Listxattr_data (d\<lparr>uc_request := (ListxattrRequest [] 0)\<rparr>)"
| "blank (Removexattr_data d) = Removexattr_data (d\<lparr>uc_request := (RemovexattrRequest [] [])\<rparr>)"
| "blank (Stream_read_data d) = Stream_read_data (d\<lparr>sd_request := (ReadRequest [] 0 0 default_FuseFileInfo)\<rparr>)"
| "blank (Stream_write_data d) = Stream_write_data (d\<lparr>sd_request := (WriteRequest [] 0 0 [] default_FuseFileInfo)\<rparr>)"
| "blank (AC_stream_write_data d) = AC_stream_write_data (d\<lparr>sd_request := (WriteRequest [] 0 0 [] default_FuseFileInfo)\<rparr>)"

fun last_completion :: "call_object \<Rightarrow> bool" where
  "last_completion (Getattr_data d) = (uc_status d = FINISHED)"
| "last_completion (Fgetattr_data d) = (uc_status d = FINISHED)"
| "last_completion (Access_data d) = (uc_status d = FINISHED)"
| "last_completion (Readlink_data d) = (uc_status d = FINISHED)"
| "last_completion (Opendir_data d) = (uc_status d = FINISHED)"
| "last_completion (Readdir_data d) = (uc_status d = FINISHED)"
| "last_completion (Releasedir_data d) = (uc_status d = FINISHED)"
| "last_completion (Mknod_data d) = (uc_status d = FINISHED)"
| "last_completion (Mkdir_data d) = (uc_status d = FINISHED)"
| "last_completion (Symlink_data d) = (uc_status d = FINISHED)"
| "last_completion (Unlink_data d) = (uc_status d = FINISHED)"
| "last_completion (Rmdir_data d) = (uc_status d = FINISHED)"
| "last_completion (Rename_data d) = (uc_status d = FINISHED)"
| "last_completion (Link_data d) = (uc_status d = FINISHED)"
| "last_completion (Chmod_data d) = (uc_status d = FINISHED)"
| "last_completion (Chown_data d) = (uc_status d = FINISHED)"
| "last_completion (Truncate_data d) = (uc_status d = FINISHED)"
| "last_completion (Ftruncate_data d) = (uc_status d = FINISHED)"
| "last_completion (Utimens_data d) = (uc_status d = FINISHED)"
| "last_completion (Create_data d) = (uc_status d = FINISHED)"
| "last_completion (Open_data d) = (uc_status d = FINISHED)"
| "last_completion (Read_data d) = (uc_status d = FINISHED)"
| "last_completion (Write_data d) = (uc_status d = FINISHED)"
| "last_completion (Statfs_data d) = (uc_status d = FINISHED)"
| "last_completion (Flush_data d) = (uc_status d = FINISHED)"
| "last_completion (Release_data d) = (uc_status d = FINISHED)"
| "last_completion (Fsync_data d) = (uc_status d = FINISHED)"
| "last_completion (Fallocate_data d) = (uc_status d = FINISHED)"
| "last_completion (Setxattr_data d) = (uc_status d = FINISHED)"
| "last_completion (Getxattr_data d) = (uc_status d = FINISHED)"
| "last_completion (Listxattr_data d) = (uc_status d = FINISHED)"
| "last_completion (Removexattr_data d) = (uc_status d = FINISHED)"
| "last_completion (Stream_read_data d) = (srd_status (sd_state d) = S_FINISHED)"
| "last_completion (Stream_write_data d) = (swd_status (sd_state d) = S_FINISHED)"
| "last_completion (AC_stream_write_data d) = (swd_status (sd_state d) = S_FINISHED)"

lemmas object_simps = unary_step_def stream_step_def stream_read_proceed_def stream_write_proceed_def
  ac_stream_write_proceed_def

text \<open>What \<^verbatim>\<open>proceed\<close> leaves of the object, and what it creates.\<close>

lemma proceed_object:
  "proceed ops ok obj s = Inr ((obj', news), s') \<Longrightarrow>
   (case obj' of None \<Rightarrow> last_completion obj
    | Some obj1 \<Rightarrow> class_of obj1 = class_of obj \<and> cq_of obj1 = cq_of obj \<and> \<not> awaiting obj1)"
  by (cases obj; auto simp: object_simps rbind_eq_Inr_conv split: unary_status.splits stream_status.splits if_splits)

lemma proceed_news:
  "proceed ops ok obj s = Inr ((obj', news), s') \<Longrightarrow>
   if awaiting obj
   then \<exists>new. news = [(new, class_of obj)] \<and> class_of new = class_of obj \<and> cq_of new = cq_of obj \<and> awaiting new \<and> blank new = new
   else news = []"
  by (cases obj; auto simp: object_simps data_new_defs rbind_eq_Inr_conv split: unary_status.splits stream_status.splits if_splits)

lemma proceed_idle: "proceed ops ok obj s = Inr (r, s') \<Longrightarrow> \<not> executes ok obj \<Longrightarrow> s' = s"
  by (cases obj; auto simp: object_simps rbind_eq_Inr_conv split: unary_status.splits stream_status.splits if_splits)

lemma proceed_executes_ok: "executes ok obj \<Longrightarrow> proceed ops ok obj = proceed ops True obj"
  by (cases obj; simp add: fun_eq_iff)

text \<open>Receiving a message changes nothing but the request.\<close>

lemma blank_same:
  assumes "blank obj1 = blank obj"
  shows "class_of obj1 = class_of obj" "cq_of obj1 = cq_of obj" "awaiting obj1 = awaiting obj"
    "last_completion obj1 = last_completion obj" "executes ok obj1 = executes ok obj"
proof -
  have eq: "class_of (blank obj) = class_of obj" "cq_of (blank obj) = cq_of obj" "awaiting (blank obj) = awaiting obj"
    "last_completion (blank obj) = last_completion obj" "executes ok (blank obj) = executes ok obj" for obj
    by (cases obj; simp)+
  show "class_of obj1 = class_of obj" "cq_of obj1 = cq_of obj" "awaiting obj1 = awaiting obj"
    "last_completion obj1 = last_completion obj" "executes ok obj1 = executes ok obj"
    using eq [of obj1] eq [of obj] assms by simp_all
qed

end
