(* ===== verification/Server_Lifecycle.thy ===== *)
theory Server_Lifecycle
  imports Call_Objects
begin

text \<open>
  The whole server (\<^verbatim>\<open>lib/fuse_rpc/grpc/server.cpp\<close>): all call objects on all completion queues, from
  the registration in \<^verbatim>\<open>run\<close> through any sequence of completions the pollers take off the queues, to
  the destructor. The gRPC library is represented by what it promises: which completions it
  may deliver, that a registration pending at shutdown completes with \<^verbatim>\<open>ok == false\<close>, and that no
  work may be added to a completion queue that has been shut down.
\<close>

section \<open>State\<close>

text \<open>
  \<open>ss_objects\<close>: the live call objects by address; \<open>ss_listening\<close>: the registrations no call has
  arrived for yet; \<open>ss_shut\<close>: \<^verbatim>\<open>server_->Shutdown()\<close> has been called; the queues below \<open>ss_shut_queues\<close>
  have been shut down; \<open>ss_log\<close>: the completions that executed an operation, with the object as it
  was, its request filled, and what \<^verbatim>\<open>proceed\<close> made of it.
\<close>

type_synonym call_outcome = "call_object option \<times> (call_object \<times> rpc_method) list"

record server_state =
  ss_objects :: "(nat, call_object) fmap"
  ss_listening :: "(nat, rpc_method) fmap"
  ss_next :: nat
  ss_queues :: nat
  ss_shut :: bool
  ss_shut_queues :: nat
  ss_log :: "(nat \<times> call_object \<times> call_outcome) list"

section \<open>Operations\<close>

text \<open>A constructor's registration on its queue: not allowed once the queue has been shut down.\<close>

definition new_call :: "call_object \<times> rpc_method \<Rightarrow> server_state \<Rightarrow> server_state res" where
  "new_call new ss =
     (case new of (obj, m) \<Rightarrow>
        if cq_of obj < ss_shut_queues ss then Inl Assertion
        else Inr (ss\<lparr>ss_objects := fmupd (ss_next ss) obj (ss_objects ss),
                     ss_listening := fmupd (ss_next ss) m (ss_listening ss), ss_next := Suc (ss_next ss)\<rparr>))"

fun new_calls :: "(call_object \<times> rpc_method) list \<Rightarrow> server_state \<Rightarrow> server_state res" where
  "new_calls [] ss = Inr ss"
| "new_calls (new # news) ss = rbind (new_call new ss) (new_calls news)"

text \<open>The body of the registration loop, and \<^verbatim>\<open>run\<close> up to \<^verbatim>\<open>server_->Wait()\<close>.\<close>

definition register_calls :: "nat \<Rightarrow> (call_object \<times> rpc_method) list" where
  "register_calls cq = [getattr_data_new cq, fgetattr_data_new cq, access_data_new cq, readlink_data_new cq,
     opendir_data_new cq, readdir_data_new cq, releasedir_data_new cq, mknod_data_new cq,
     mkdir_data_new cq, symlink_data_new cq, unlink_data_new cq, rmdir_data_new cq,
     rename_data_new cq, link_data_new cq, chmod_data_new cq, chown_data_new cq,
     truncate_data_new cq, ftruncate_data_new cq, utimens_data_new cq, create_data_new cq,
     open_data_new cq, read_data_new cq, write_data_new cq, statfs_data_new cq, flush_data_new cq,
     release_data_new cq, fsync_data_new cq, fallocate_data_new cq, setxattr_data_new cq,
     getxattr_data_new cq, listxattr_data_new cq, removexattr_data_new cq, stream_read_data_new cq,
     stream_write_data_new cq, ac_stream_write_data_new cq]"

definition server_start :: "server_config \<Rightarrow> server_state res" where
  "server_start config =
     new_calls (concat (map (\<lambda>cq. concat (replicate 20 (register_calls cq))) [0..<sv_n_queues config]))
       \<lparr>ss_objects = fmempty, ss_listening = fmempty, ss_next = 0, ss_queues = sv_n_queues config,
        ss_shut = False, ss_shut_queues = 0, ss_log = []\<rparr>"

text \<open>
  The pollers are started just before \<^verbatim>\<open>init\<close>; here the first completion comes after it. The \<^verbatim>\<open>init\<close> of the local layer
  does nothing in both modes.
\<close>

definition server_boot :: "server_config \<Rightarrow> ('s, dir_info) fuse_operations \<Rightarrow> 's \<Rightarrow> (server_state \<times> 's) res" where
  "server_boot config ops s =
     rbind (server_start config) (\<lambda>ss.
       case op_init ops of
         None \<Rightarrow> Inr (ss, s)
       | Some init \<Rightarrow> rbind (init s) (\<lambda>(_, s1). Inr (ss, s1)))"

text \<open>
  A round of \<^verbatim>\<open>handle_async_requests\<close>, or of the loop in the destructor, after \<^verbatim>\<open>Next\<close> has returned the
  object at \<open>tag\<close>: \<open>obj\<close> is the object as the library left it, that is, with the message it received.
  Every \<^verbatim>\<open>proceed\<close> but the last asks for more work on the object's queue.
\<close>

definition server_complete :: "('s, dir_info) fuse_operations \<Rightarrow> nat \<Rightarrow> bool \<Rightarrow> call_object
    \<Rightarrow> server_state \<times> 's \<Rightarrow> (server_state \<times> 's) res" where
  "server_complete ops tag ok obj = (\<lambda>(ss, s).
     if fmlookup (ss_objects ss) tag = None then Inl Dangling
     else if \<not> last_completion obj \<and> cq_of obj < ss_shut_queues ss then Inl Assertion
     else rbind (proceed ops ok obj s) (\<lambda>((obj1, news), s1).
       rbind (new_calls news (ss\<lparr>
           ss_objects := (case obj1 of None \<Rightarrow> fmdrop tag (ss_objects ss) | Some obj2 \<Rightarrow> fmupd tag obj2 (ss_objects ss)),
           ss_listening := fmdrop tag (ss_listening ss),
           ss_log := if executes ok obj then ss_log ss @ [(tag, obj, obj1, news)] else ss_log ss\<rparr>)) (\<lambda>ss1.
         Inr (ss1, s1))))"

text \<open>\<^verbatim>\<open>Next\<close> returns false when the queue has been shut down and no object has an operation outstanding on it.\<close>

definition cq_drained :: "nat \<Rightarrow> server_state \<Rightarrow> bool" where
  "cq_drained cq ss \<longleftrightarrow> cq < ss_shut_queues ss \<and> (\<forall>obj \<in> fmran' (ss_objects ss). cq_of obj \<noteq> cq)"

text \<open>The two shutdowns at the start of the destructor; the queues are shut down in order.\<close>

definition server_shutdown :: "server_state \<Rightarrow> server_state" where
  "server_shutdown ss = ss\<lparr>ss_shut := True\<rparr>"

definition queue_shutdown :: "server_state \<Rightarrow> server_state" where
  "queue_shutdown ss = ss\<lparr>ss_shut_queues := Suc (ss_shut_queues ss)\<rparr>"

text \<open>
  What the library may deliver for a live object: only a message received changes the object,
  none is received when \<^verbatim>\<open>ok\<close> is false, and a registration is refused only after the shutdown.
\<close>

definition delivers :: "server_state \<Rightarrow> nat \<Rightarrow> bool \<Rightarrow> call_object \<Rightarrow> bool" where
  "delivers ss tag ok obj \<longleftrightarrow>
     (case fmlookup (ss_objects ss) tag of
        None \<Rightarrow> False
      | Some obj0 \<Rightarrow> blank obj = blank obj0 \<and> (ok \<or> obj = obj0) \<and> (ok \<or> ss_shut ss \<or> \<not> awaiting obj0))"

inductive server_reachable :: "server_config \<Rightarrow> ('s, dir_info) fuse_operations \<Rightarrow> 's \<Rightarrow> server_state \<times> 's \<Rightarrow> bool"
  for config ops s0 where
  boot: "server_boot (server_new config) ops s = Inr (ss, s0) \<Longrightarrow> server_reachable config ops s0 (ss, s0)"
| completion: "server_reachable config ops s0 (ss, s) \<Longrightarrow> delivers ss tag ok obj \<Longrightarrow>
    server_complete ops tag ok obj (ss, s) = Inr c \<Longrightarrow> server_reachable config ops s0 c"
| shutdown: "server_reachable config ops s0 (ss, s) \<Longrightarrow> server_reachable config ops s0 (server_shutdown ss, s)"
| queue: "server_reachable config ops s0 (ss, s) \<Longrightarrow> ss_shut ss \<Longrightarrow> ss_shut_queues ss < ss_queues ss \<Longrightarrow>
    server_reachable config ops s0 (queue_shutdown ss, s)"

section \<open>The invariant\<close>

text \<open>The objects that wait for a call of a procedure on a queue.\<close>

definition listeners :: "server_state \<Rightarrow> nat \<Rightarrow> rpc_method \<Rightarrow> nat set" where
  "listeners ss cq m = {tag. fmlookup (ss_listening ss) tag = Some m \<and>
     (\<exists>obj. fmlookup (ss_objects ss) tag = Some obj \<and> cq_of obj = cq)}"

text \<open>The objects that listen are exactly those that wait for a call of their own procedure.\<close>

definition registered :: "server_state \<Rightarrow> bool" where
  "registered ss \<longleftrightarrow>
     (\<forall>tag m. fmlookup (ss_listening ss) tag = Some m \<longleftrightarrow>
        (\<exists>obj. fmlookup (ss_objects ss) tag = Some obj \<and> awaiting obj \<and> class_of obj = m)) \<and>
     (\<forall>tag obj. fmlookup (ss_objects ss) tag = Some obj \<longrightarrow> tag < ss_next ss \<and> (awaiting obj \<longrightarrow> blank obj = obj))"

lemma shutdown_views [simp]:
  "listeners (ss\<lparr>ss_shut := b\<rparr>) = listeners ss" "listeners (ss\<lparr>ss_shut_queues := k\<rparr>) = listeners ss"
  "registered (ss\<lparr>ss_shut := b\<rparr>) = registered ss" "registered (ss\<lparr>ss_shut_queues := k\<rparr>) = registered ss"
  by (simp_all add: listeners_def registered_def fun_eq_iff)

definition call_key :: "call_object \<times> rpc_method \<Rightarrow> nat \<times> rpc_method" where
  "call_key new = (cq_of (fst new), snd new)"

definition fresh_object :: "call_object \<times> rpc_method \<Rightarrow> bool" where
  "fresh_object new \<longleftrightarrow> awaiting (fst new) \<and> class_of (fst new) = snd new \<and> blank (fst new) = fst new"

lemma listeners_fin: "finite (listeners ss cq m)"
  by (rule finite_subset [of _ "fmdom' (ss_listening ss)"]) (auto simp: listeners_def fmap_simps)

lemma new_call_registered:
  assumes "registered ss" "fresh_object (obj, m)" "new_call (obj, m) ss = Inr ss'"
  shows "registered ss'"
    "card (listeners ss' cq k) = card (listeners ss cq k) + (if cq_of obj = cq \<and> m = k then 1 else 0)"
    "ss_queues ss' = ss_queues ss" "ss_shut_queues ss' = ss_shut_queues ss" "ss_shut ss' = ss_shut ss" "ss_log ss' = ss_log ss"
proof -
  have eq: "ss' = ss\<lparr>ss_objects := fmupd (ss_next ss) obj (ss_objects ss),
                     ss_listening := fmupd (ss_next ss) m (ss_listening ss), ss_next := Suc (ss_next ss)\<rparr>"
    using assms(3) by (simp add: new_call_def split: if_splits)
  have fresh: "fmlookup (ss_objects ss) (ss_next ss) = None"
    using assms(1) by (cases "fmlookup (ss_objects ss) (ss_next ss)") (auto simp: registered_def)
  show "registered ss'"
    using assms(1,2) fresh unfolding registered_def fresh_object_def eq
    by (auto simp: less_Suc_eq split: if_splits)
  have "ss_next ss \<notin> listeners ss cq k" using fresh by (simp add: listeners_def)
  moreover have "listeners ss' cq k = (if cq_of obj = cq \<and> m = k then insert (ss_next ss) (listeners ss cq k) else listeners ss cq k)"
    using fresh by (auto simp: listeners_def eq)
  ultimately show "card (listeners ss' cq k) = card (listeners ss cq k) + (if cq_of obj = cq \<and> m = k then 1 else 0)"
    by (simp add: listeners_fin)
qed (use assms(3) in \<open>auto simp: new_call_def split: if_splits\<close>)

lemma new_calls_registered:
  assumes "registered ss" "list_all fresh_object news" "new_calls news ss = Inr ss'"
  shows "registered ss' \<and>
    card (listeners ss' cq k) = card (listeners ss cq k) + count_list (map call_key news) (cq, k) \<and>
    ss_queues ss' = ss_queues ss \<and> ss_shut_queues ss' = ss_shut_queues ss \<and> ss_shut ss' = ss_shut ss \<and> ss_log ss' = ss_log ss"
  using assms
proof (induction news arbitrary: ss)
  case (Cons new news)
  obtain obj m where new: "new = (obj, m)" by (cases new)
  obtain ss1 where ss1: "new_call (obj, m) ss = Inr ss1" "new_calls news ss1 = Inr ss'"
    using Cons.prems(3) new by (auto simp: rbind_eq_Inr_conv)
  note one = new_call_registered [OF Cons.prems(1) _ ss1(1)]
  show ?case
    using Cons.IH [OF one(1) _ ss1(2)] one Cons.prems(2) new by (auto simp: call_key_def)
qed simp

lemma new_calls_frame:
  assumes "new_calls news ss = Inr ss'"
  shows "ss_log ss' = ss_log ss" "ss_shut_queues ss' = ss_shut_queues ss"
  using assms by (induction news arbitrary: ss) (auto simp: rbind_eq_Inr_conv new_call_def split: prod.splits if_splits)

lemma new_calls_defined: "ss_shut_queues ss = 0 \<Longrightarrow> \<exists>ss'. new_calls news ss = Inr ss'"
  by (induction news arbitrary: ss) (auto simp: new_call_def split: prod.splits)

text \<open>The registration loop.\<close>

lemma register_calls_keys: "map call_key (register_calls cq) = map (Pair cq) registered_methods"
  by (simp add: register_calls_def data_new_defs call_key_def registered_methods_def)

lemma register_calls_fresh: "list_all fresh_object (register_calls cq)"
  by (simp add: register_calls_def data_new_defs fresh_object_def)

lemma registered_methods_count: "count_list registered_methods m = (if m = RPC_GetattrCompound then 0 else 1)"
  by (cases m; simp add: registered_methods_def)

lemma count_list_Pair: "count_list (map (Pair c) xs) (cq, m) = (if c = cq then count_list xs m else 0)"
  by (induction xs) auto

lemma count_registered:
  "count_list (map call_key (concat (map (\<lambda>c. concat (replicate 20 (register_calls c))) [0..<n]))) (cq, m) =
   (if cq < n \<and> m \<noteq> RPC_GetattrCompound then 20 else 0)"
proof (induction n)
  case (Suc n)
  have "map call_key (concat (replicate 20 (register_calls n))) = concat (replicate 20 (map (Pair n) registered_methods))"
    by (simp add: map_concat register_calls_keys)
  then have "count_list (map call_key (concat (replicate 20 (register_calls n)))) (cq, m) =
      20 * (if n = cq then (if m = RPC_GetattrCompound then 0 else 1) else 0)"
    by (simp only: count_list_concat_replicate count_list_Pair registered_methods_count)
  with Suc.IH show ?case by (auto simp: less_Suc_eq)
qed simp

definition server_inv :: "nat \<Rightarrow> ('s, dir_info) fuse_operations \<Rightarrow> 's \<Rightarrow> server_state \<times> 's \<Rightarrow> bool" where
  "server_inv n ops s0 = (\<lambda>(ss, s). registered ss \<and> ss_queues ss = n \<and>
     (\<forall>cq < n. \<forall>m. m \<noteq> RPC_GetattrCompound \<longrightarrow> card (listeners ss cq m) = 20) \<and>
     run_all (proceed ops True) (map (fst \<circ> snd) (ss_log ss)) s0 = Inr (map (snd \<circ> snd) (ss_log ss), s))"

lemma server_start_inv:
  assumes "server_start config = Inr ss"
  shows "server_inv (sv_n_queues config) ops s (ss, s)"
proof -
  let ?news = "concat (map (\<lambda>c. concat (replicate 20 (register_calls c))) [0..<sv_n_queues config])"
  let ?ss = "\<lparr>ss_objects = fmempty, ss_listening = fmempty, ss_next = 0, ss_queues = sv_n_queues config,
        ss_shut = False, ss_shut_queues = 0, ss_log = []\<rparr>"
  have "registered ?ss" by (simp add: registered_def)
  moreover have "list_all fresh_object ?news" using register_calls_fresh by (auto simp: list_all_iff)
  moreover have "new_calls ?news ?ss = Inr ss" using assms by (simp add: server_start_def)
  ultimately have "registered ss \<and> card (listeners ss cq k) = card (listeners ?ss cq k) + count_list (map call_key ?news) (cq, k) \<and>
      ss_queues ss = sv_n_queues config \<and> ss_log ss = []" for cq k
    using new_calls_registered [of ?ss ?news ss cq k] by auto
  moreover have "listeners ?ss cq k = {}" for cq k by (simp add: listeners_def)
  ultimately show ?thesis
    unfolding server_inv_def count_registered by simp
qed

text \<open>A completion: the object leaves the listeners if it was one, and its successor joins them.\<close>

lemma completed_object:
  assumes reg: "registered ss" and obj0: "fmlookup (ss_objects ss) tag = Some obj0"
    and same: "class_of obj0 = class_of obj" "cq_of obj0 = cq_of obj" "awaiting obj0 = awaiting obj"
    and left: "case obj1 of None \<Rightarrow> True | Some o1 \<Rightarrow> class_of o1 = class_of obj \<and> cq_of o1 = cq_of obj \<and> \<not> awaiting o1"
    and ss': "ss' = ss\<lparr>ss_objects := (case obj1 of None \<Rightarrow> fmdrop tag (ss_objects ss) | Some o1 \<Rightarrow> fmupd tag o1 (ss_objects ss)),
      ss_listening := fmdrop tag (ss_listening ss), ss_log := log\<rparr>"
  shows "registered ss' \<and> card (listeners ss' cq m) + (if awaiting obj \<and> cq_of obj = cq \<and> class_of obj = m then 1 else 0) =
    card (listeners ss cq m)"
proof -
  have "registered ss'"
    using reg left obj0 unfolding registered_def ss' by (cases obj1) (auto split: if_splits)
  moreover have "listeners ss' cq m = listeners ss cq m - {tag}"
    using left obj0 same by (cases obj1) (auto simp: listeners_def ss' split: if_splits)
  moreover have "tag \<in> listeners ss cq m \<longleftrightarrow> awaiting obj \<and> cq_of obj = cq \<and> class_of obj = m"
    using reg obj0 same by (auto simp: listeners_def registered_def)
  moreover have "card (listeners ss cq m - {tag}) + 1 = card (listeners ss cq m)" if "tag \<in> listeners ss cq m"
    using card_Suc_Diff1 [OF listeners_fin that] by simp
  ultimately show ?thesis by auto
qed

lemma server_complete_inv:
  assumes inv: "server_inv n ops s0 (ss, s)" and del: "delivers ss tag ok obj"
    and c: "server_complete ops tag ok obj (ss, s) = Inr (ss', s')"
  shows "server_inv n ops s0 (ss', s')"
proof -
  obtain obj0 where obj0: "fmlookup (ss_objects ss) tag = Some obj0" "blank obj0 = blank obj"
    using del by (auto simp: delivers_def split: option.splits)
  note same = blank_same [OF obj0(2)]
  obtain obj1 news where p: "proceed ops ok obj s = Inr ((obj1, news), s')"
    using c by (auto simp: server_complete_def rbind_eq_Inr_conv split: if_splits)
  define ss1 where "ss1 = ss\<lparr>ss_objects := (case obj1 of None \<Rightarrow> fmdrop tag (ss_objects ss) | Some o1 \<Rightarrow> fmupd tag o1 (ss_objects ss)),
      ss_listening := fmdrop tag (ss_listening ss),
      ss_log := if executes ok obj then ss_log ss @ [(tag, obj, obj1, news)] else ss_log ss\<rparr>"
  have news: "new_calls news ss1 = Inr ss'"
    using c p by (auto simp: server_complete_def ss1_def rbind_eq_Inr_conv split: if_splits)
  have "registered ss" using inv by (simp add: server_inv_def)
  moreover have "case obj1 of None \<Rightarrow> True | Some o1 \<Rightarrow> class_of o1 = class_of obj \<and> cq_of o1 = cq_of obj \<and> \<not> awaiting o1"
    using proceed_object [OF p] by (auto split: option.splits)
  ultimately have one: "registered ss1"
    "card (listeners ss1 cq m) + (if awaiting obj \<and> cq_of obj = cq \<and> class_of obj = m then 1 else 0) = card (listeners ss cq m)" for cq m
    using completed_object [OF _ obj0(1) same(1-3) _ ss1_def] by blast+
  have nw: "list_all fresh_object news"
    "count_list (map call_key news) (cq, m) = (if awaiting obj \<and> cq_of obj = cq \<and> class_of obj = m then 1 else 0)" for cq m
    using proceed_news [OF p] by (auto simp: fresh_object_def call_key_def split: if_splits)
  note two = new_calls_registered [OF one(1) nw(1) news]
  have "card (listeners ss' cq m) = card (listeners ss cq m)" for cq m
    using two [of cq m] one(2) [of cq m] nw(2) [of cq m] by simp
  moreover have "run_all (proceed ops True) (map (fst \<circ> snd) (ss_log ss')) s0 = Inr (map (snd \<circ> snd) (ss_log ss'), s')"
  proof (cases "executes ok obj")
    case True
    then have "proceed ops True obj s = Inr ((obj1, news), s')" using p by (metis proceed_executes_ok)
    then show ?thesis
      using inv two True by (auto simp: server_inv_def ss1_def intro!: run_all_snoc)
  next
    case False
    then show ?thesis using inv two proceed_idle [OF p] by (simp add: server_inv_def ss1_def)
  qed
  ultimately show ?thesis using inv two by (simp add: server_inv_def ss1_def)
qed

lemma server_reachable_inv:
  assumes "server_reachable config ops s0 c"
  shows "server_inv (max 1 (sv_n_queues config)) ops s0 c"
  using assms
proof (induction rule: server_reachable.induct)
  case (boot s ss)
  then have "server_start (server_new config) = Inr ss"
    by (auto simp: server_boot_def rbind_eq_Inr_conv split: option.splits)
  then show ?case using server_start_inv [of "server_new config" ss ops s0] by (simp add: server_new_def)
next
  case (completion ss s tag ok obj c)
  then show ?case using server_complete_inv [of _ ops s0 ss s tag ok obj "fst c" "snd c"] by simp
qed (simp_all add: server_inv_def server_shutdown_def queue_shutdown_def)

lemma server_boot_defined:
  assumes "op_init ops = None"
  shows "\<exists>ss. server_boot config ops s = Inr (ss, s)"
proof -
  obtain ss where "server_start config = Inr ss" unfolding server_start_def using new_calls_defined by fastforce
  then show ?thesis using assms by (simp add: server_boot_def)
qed

lemma awaiting_not_last: "awaiting obj \<Longrightarrow> \<not> last_completion obj"
  by (cases obj) auto

section \<open>Properties\<close>

text \<open>
  C10. The server keeps listening and executes calls one by one: whatever completions arrive in
  whatever order, up to and during shutdown, every queue has exactly twenty objects waiting for
  a call of each of the thirty-five procedures, each of them an object of that procedure's own
  class with an empty request; and the state of the file system is that of the requests
  executed so far, unary and streamed, run one after the other, each answered as in that run.
\<close>

theorem server_keeps_listening:
  assumes "server_reachable config ops s0 (ss, s)"
  shows "(\<forall>cq < max 1 (sv_n_queues config). \<forall>m. m \<noteq> RPC_GetattrCompound \<longrightarrow> card (listeners ss cq m) = 20) \<and>
    (\<forall>tag m. fmlookup (ss_listening ss) tag = Some m \<longrightarrow>
       (\<exists>obj. fmlookup (ss_objects ss) tag = Some obj \<and> class_of obj = m \<and> awaiting obj \<and> blank obj = obj)) \<and>
    run_all (proceed ops True) (map (fst \<circ> snd) (ss_log ss)) s0 = Inr (map (snd \<circ> snd) (ss_log ss), s)"
  using server_reachable_inv [OF assms] by (auto simp: server_inv_def registered_def)

definition idle_ops :: "(nat, dir_info) fuse_operations" where
  "idle_ops = null_operations\<lparr>op_rmdir := Some (\<lambda>path n. Inr (0, Suc n))\<rparr>"

definition one_queue :: server_config where
  "one_queue = \<lparr>sv_server_address = ''h'', sv_n_queues = 0, sv_n_pollers_per_queue = 0\<rparr>"

lemma idle_server: "\<exists>ss. server_reachable one_queue idle_ops 0 (ss, 0) \<and> ss_shut_queues ss = 0"
proof -
  obtain ss where ss: "server_boot (server_new one_queue) idle_ops 0 = Inr (ss, 0)"
    using server_boot_defined [of idle_ops "server_new one_queue" 0] by (auto simp: idle_ops_def null_operations_def)
  then have "ss_shut_queues ss = 0"
    by (auto simp: server_boot_def server_start_def rbind_eq_Inr_conv dest!: new_calls_frame(2) split: option.splits)
  then show ?thesis using server_reachable.boot [OF ss] by blast
qed

theorem server_keeps_listening_witness:
  "\<exists>ss. server_reachable one_queue idle_ops 0 (ss, 0) \<and> card (listeners ss 0 RPC_Rename) = 20"
proof -
  obtain ss where ss: "server_reachable one_queue idle_ops 0 (ss, 0)" using idle_server by blast
  then show ?thesis using server_keeps_listening [OF ss] by auto
qed

text \<open>
  C15. The destructor of the server is not safe. Between the shutdown of the server and that of its
  queue, the completion of a listening object of a unary class executes its operation on an
  empty request, just as if a call had arrived. Once the queue has been shut down, the same
  completion adds work to it, which the library forbids, before the operation is reached; and
  since every queue still has its listeners, \<^verbatim>\<open>Next\<close> never returns false: the destructor does not get
  to joining the pollers or to \<^verbatim>\<open>operations_.destroy\<close>.
\<close>

theorem server_shutdown_unsafe:
  assumes "server_reachable config ops s0 (ss, s)" "cq < ss_queues ss" "tag \<in> listeners ss cq m" "delivers ss tag False obj"
  shows "(cq < ss_shut_queues ss \<longrightarrow> server_complete ops tag False obj (ss, s) = Inl Assertion) \<and> \<not> cq_drained cq ss \<and>
    (ss_shut_queues ss \<le> cq \<longrightarrow> m \<notin> {RPC_StreamRead, RPC_StreamWrite, RPC_ACStreamWrite} \<longrightarrow>
       blank obj = obj \<and> server_complete ops tag False obj (ss, s) = server_complete ops tag True obj (ss, s) \<and>
       (\<forall>ss' s'. server_complete ops tag False obj (ss, s) = Inr (ss', s') \<longrightarrow>
          (\<exists>r. proceed ops True obj s = Inr (r, s') \<and> ss_log ss' = ss_log ss @ [(tag, obj, r)])))"
proof -
  have inv: "registered ss" using server_reachable_inv [OF assms(1)] by (simp add: server_inv_def)
  have obj: "fmlookup (ss_objects ss) tag = Some obj" "cq_of obj = cq" "awaiting obj" "class_of obj = m" "blank obj = obj"
    using assms(3,4) inv by (auto simp: listeners_def delivers_def registered_def)
  have no_drain: "\<not> cq_drained cq ss"
    using obj(1,2) by (auto simp: cq_drained_def intro: fmran'I)
  have nl: "\<not> last_completion obj" by (rule awaiting_not_last [OF obj(3)])
  have queue: "server_complete ops tag False obj (ss, s) = Inl Assertion" if "cq < ss_shut_queues ss"
    using that obj nl by (simp add: server_complete_def)
  have ex: "executes False obj" "executes True obj" if "m \<notin> {RPC_StreamRead, RPC_StreamWrite, RPC_ACStreamWrite}"
    using that obj(3,4) by (cases obj; auto)+
  have same: "server_complete ops tag False obj (ss, s) = server_complete ops tag True obj (ss, s)"
    if "m \<notin> {RPC_StreamRead, RPC_StreamWrite, RPC_ACStreamWrite}"
    using ex [OF that] proceed_executes_ok [of False obj ops] by (simp add: server_complete_def)
  have run: "\<exists>r. proceed ops True obj s = Inr (r, s') \<and> ss_log ss' = ss_log ss @ [(tag, obj, r)]"
    if m: "m \<notin> {RPC_StreamRead, RPC_StreamWrite, RPC_ACStreamWrite}"
      and c: "server_complete ops tag False obj (ss, s) = Inr (ss', s')" for ss' s'
    using c ex(2) [OF m] unfolding same [OF m]
    by (auto simp: server_complete_def rbind_eq_Inr_conv dest!: new_calls_frame(1) split: if_splits)
  show ?thesis using queue no_drain same run obj(5) by blast
qed

theorem server_shutdown_unsafe_witness:
  "\<exists>ss tag obj. server_reachable one_queue idle_ops 0 (queue_shutdown (server_shutdown ss), 0) \<and>
     tag \<in> listeners ss 0 RPC_Rmdir \<and>
     server_complete idle_ops tag False obj (queue_shutdown (server_shutdown ss), 0) = Inl Assertion \<and>
     \<not> cq_drained 0 (queue_shutdown (server_shutdown ss))"
proof -
  obtain ss where ss: "server_reachable one_queue idle_ops 0 (ss, 0)" "ss_shut_queues ss = 0" using idle_server by blast
  note inv = server_reachable_inv [OF ss(1)]
  have one: "ss_queues ss = 1" "card (listeners ss 0 RPC_Rmdir) = 20" "registered ss"
    using inv by (auto simp: server_inv_def one_queue_def)
  then obtain tag where tag: "tag \<in> listeners ss 0 RPC_Rmdir"
    by (metis all_not_in_conv card.empty zero_neq_numeral)
  then obtain obj where obj: "fmlookup (ss_objects ss) tag = Some obj" by (auto simp: listeners_def)
  let ?ss = "queue_shutdown (server_shutdown ss)"
  have r: "server_reachable one_queue idle_ops 0 (?ss, 0)"
    by (rule server_reachable.queue [OF server_reachable.shutdown [OF ss(1)]]) (simp_all add: server_shutdown_def ss(2) one(1))
  have "server_complete idle_ops tag False obj (?ss, 0) = Inl Assertion \<and> \<not> cq_drained 0 ?ss"
    using server_shutdown_unsafe [OF r, of 0 tag RPC_Rmdir obj] tag obj one(1)
    by (simp add: server_shutdown_def queue_shutdown_def delivers_def listeners_def)
  then show ?thesis using r tag by blast
qed

end
