(* ===== verification/Posix.thy ===== *)
theory Posix
  imports Fuse_Types
begin

text \<open>
  The system calls under the local layer (\<^verbatim>\<open>local_operations.cpp\<close>, \<^verbatim>\<open>nfs_operations.cpp\<close>). The
  kernel is not part of the program: it is a parameter, a record of functions on an arbitrary
  state \<open>'o\<close>, and what the layer relies on is stated as hypotheses on that record. The state
  that the two translation units of the layer keep (the static root path and the directory
  handles they allocate) is \<open>local_state\<close>; each unit has an instance of its own.
\<close>

section \<open>The interface\<close>

record dirent =
  d_ino :: "64 word"
  d_type :: "8 word"
  d_name :: string

text \<open>
  Results are the C results: an \<^verbatim>\<open>int\<close> or \<^verbatim>\<open>ssize_t\<close> as \<open>int\<close>, a pointer as an option. A buffer
  parameter is passed in and handed back. \<open>px_open\<close> gets the mode argument only where the
  source passes one.
\<close>

record 'o posix =
  px_errno :: "'o \<Rightarrow> int"
  px_lstat :: "path \<Rightarrow> stat \<Rightarrow> 'o \<Rightarrow> (int \<times> stat) \<times> 'o"
  px_fstat :: "int \<Rightarrow> stat \<Rightarrow> 'o \<Rightarrow> (int \<times> stat) \<times> 'o"
  px_open :: "path \<Rightarrow> 32 word \<Rightarrow> 32 word option \<Rightarrow> 'o \<Rightarrow> int \<times> 'o"
  px_close :: "int \<Rightarrow> 'o \<Rightarrow> int \<times> 'o"
  px_dup :: "int \<Rightarrow> 'o \<Rightarrow> int \<times> 'o"
  px_access :: "path \<Rightarrow> int \<Rightarrow> 'o \<Rightarrow> int \<times> 'o"
  px_readlink :: "path \<Rightarrow> bytes \<Rightarrow> nat \<Rightarrow> 'o \<Rightarrow> (int \<times> bytes) \<times> 'o"
  px_mkfifo :: "path \<Rightarrow> 32 word \<Rightarrow> 'o \<Rightarrow> int \<times> 'o"
  px_mknod :: "path \<Rightarrow> 32 word \<Rightarrow> 64 word \<Rightarrow> 'o \<Rightarrow> int \<times> 'o"
  px_mkdir :: "path \<Rightarrow> 32 word \<Rightarrow> 'o \<Rightarrow> int \<times> 'o"
  px_unlink :: "path \<Rightarrow> 'o \<Rightarrow> int \<times> 'o"
  px_rmdir :: "path \<Rightarrow> 'o \<Rightarrow> int \<times> 'o"
  px_symlink :: "path \<Rightarrow> path \<Rightarrow> 'o \<Rightarrow> int \<times> 'o"
  px_rename :: "path \<Rightarrow> path \<Rightarrow> 'o \<Rightarrow> int \<times> 'o"
  px_link :: "path \<Rightarrow> path \<Rightarrow> 'o \<Rightarrow> int \<times> 'o"
  px_chmod :: "path \<Rightarrow> 32 word \<Rightarrow> 'o \<Rightarrow> int \<times> 'o"
  px_lchown :: "path \<Rightarrow> 32 word \<Rightarrow> 32 word \<Rightarrow> 'o \<Rightarrow> int \<times> 'o"
  px_truncate :: "path \<Rightarrow> int \<Rightarrow> 'o \<Rightarrow> int \<times> 'o"
  px_ftruncate :: "int \<Rightarrow> int \<Rightarrow> 'o \<Rightarrow> int \<times> 'o"
  px_utime :: "path \<Rightarrow> utimbuf \<Rightarrow> 'o \<Rightarrow> int \<times> 'o"
  px_utimensat :: "int \<Rightarrow> path \<Rightarrow> timespec \<Rightarrow> timespec \<Rightarrow> int \<Rightarrow> 'o \<Rightarrow> int \<times> 'o"
  px_pread :: "int \<Rightarrow> bytes \<Rightarrow> nat \<Rightarrow> int \<Rightarrow> 'o \<Rightarrow> (int \<times> bytes) \<times> 'o"
  px_pwrite :: "int \<Rightarrow> bytes \<Rightarrow> nat \<Rightarrow> int \<Rightarrow> 'o \<Rightarrow> int \<times> 'o"
  px_fsync :: "int \<Rightarrow> 'o \<Rightarrow> int \<times> 'o"
  px_fdatasync :: "int \<Rightarrow> 'o \<Rightarrow> int \<times> 'o"
  px_statvfs :: "path \<Rightarrow> statvfs \<Rightarrow> 'o \<Rightarrow> (int \<times> statvfs) \<times> 'o"
  px_opendir :: "path \<Rightarrow> 'o \<Rightarrow> 64 word option \<times> 'o"
  px_readdir :: "64 word \<Rightarrow> 'o \<Rightarrow> dirent option \<times> 'o"
  px_telldir :: "64 word \<Rightarrow> 'o \<Rightarrow> int \<times> 'o"
  px_seekdir :: "64 word \<Rightarrow> int \<Rightarrow> 'o \<Rightarrow> 'o"
  px_closedir :: "64 word \<Rightarrow> 'o \<Rightarrow> int \<times> 'o"
  px_malloc :: "'o \<Rightarrow> 64 word option \<times> 'o"
  px_free :: "64 word \<Rightarrow> 'o \<Rightarrow> 'o"

section \<open>Constants and conversions\<close>

text \<open>Values of the x86-64 Linux headers.\<close>

definition O_CREAT :: "32 word" where "O_CREAT = 0x40"
definition O_EXCL :: "32 word" where "O_EXCL = 0x80"
definition O_DIRECT :: "32 word" where "O_DIRECT = 0x4000"

definition AT_FDCWD :: int where "AT_FDCWD = -100"
definition AT_SYMLINK_NOFOLLOW :: int where "AT_SYMLINK_NOFOLLOW = 0x100"

definition ENOMEM :: int where "ENOMEM = 12"

definition S_ISREG :: "32 word \<Rightarrow> bool" where
  "S_ISREG mode \<longleftrightarrow> and mode 0xF000 = 0x8000"

definition S_ISFIFO :: "32 word \<Rightarrow> bool" where
  "S_ISFIFO mode \<longleftrightarrow> and mode 0xF000 = 0x1000"

text \<open>
  \<^verbatim>\<open>fi->fh = fd\<close> widens an \<^verbatim>\<open>int\<close> to \<^verbatim>\<open>uint64_t\<close>; passing \<^verbatim>\<open>fi->fh\<close> as a descriptor narrows it
  again; an \<^verbatim>\<open>ssize_t\<close> assigned to an \<^verbatim>\<open>int\<close> keeps its low 32 bits.
\<close>

definition fh_of_int :: "int \<Rightarrow> 64 word" where
  "fh_of_int fd = word_of_int fd"

definition int_of_fh :: "64 word \<Rightarrow> int" where
  "int_of_fh fh = sint (ucast fh :: 32 word)"

definition int_of_ssize :: "int \<Rightarrow> int" where
  "int_of_ssize n = (n + 2 ^ 31) mod 2 ^ 32 - 2 ^ 31"

lemma int_of_ssize_exact [arith64]:
  assumes "- (2 ^ 31) \<le> n" "n < 2 ^ 31"
  shows "int_of_ssize n = n"
proof -
  have "(n + 2 ^ 31) mod 2 ^ 32 = n + 2 ^ 31"
    using assms by (intro mod_pos_pos_trivial) auto
  then show ?thesis
    by (simp add: int_of_ssize_def)
qed

lemma fh_round_trip [arith64]:
  assumes "- (2 ^ 31) \<le> fd" "fd < 2 ^ 31"
  shows "int_of_fh (fh_of_int fd) = fd"
proof -
  have "(ucast (word_of_int fd :: 64 word) :: 32 word) = word_of_int fd"
    by (rule bit_word_eqI) (simp add: bit_ucast_iff bit_word_of_int_iff)
  moreover have "sint (word_of_int fd :: 32 word) = fd"
    using assms by (simp only: sint_sbintrunc', subst signed_take_bit_int_eq_self) simp_all
  ultimately show ?thesis
    by (simp only: int_of_fh_def fh_of_int_def)
qed

section \<open>The state of the layer\<close>

text \<open>
  \<^verbatim>\<open>struct local_dirp\<close> and \<^verbatim>\<open>struct dir_handle\<close> have the same three members. \<^verbatim>\<open>entry\<close> points to the
  entry the last \<^verbatim>\<open>readdir\<close> on \<^verbatim>\<open>dp\<close> returned, which POSIX keeps valid until the next
  \<^verbatim>\<open>readdir\<close> or \<^verbatim>\<open>closedir\<close> on the same stream; both follow only once the pointer is reset.
\<close>

record local_dirp =
  dp :: "64 word"
  dp_entry :: "dirent option"
  dp_offset :: int

record 'o local_state =
  lo_root_path :: path
  lo_os :: 'o
  lo_dirps :: "(64 word, local_dirp) fmap"

definition sys :: "('o \<Rightarrow> 'a \<times> 'o) \<Rightarrow> 'o local_state \<Rightarrow> 'a \<times> 'o local_state" where
  "sys call st = (case call (lo_os st) of (r, os1) \<Rightarrow> (r, st\<lparr>lo_os := os1\<rparr>))"

definition minus_errno :: "'o posix \<Rightarrow> 'o local_state \<Rightarrow> int" where
  "minus_errno px st = - px_errno px (lo_os st)"

text \<open>\<^verbatim>\<open>if (res == -1) return -errno; return 0;\<close>\<close>

definition checked :: "'o posix \<Rightarrow> ('o \<Rightarrow> int \<times> 'o) \<Rightarrow> 'o local_state \<Rightarrow> int \<times> 'o local_state" where
  "checked px call st =
     (case sys call st of (res, st1) \<Rightarrow> if res = -1 then (minus_errno px st1, st1) else (0, st1))"

text \<open>\<^verbatim>\<open>(call == 0) ? 0 : -errno\<close>\<close>

definition zero_checked :: "'o posix \<Rightarrow> ('o \<Rightarrow> int \<times> 'o) \<Rightarrow> 'o local_state \<Rightarrow> int \<times> 'o local_state" where
  "zero_checked px call st =
     (case sys call st of (res, st1) \<Rightarrow> if res = 0 then (0, st1) else (minus_errno px st1, st1))"

text \<open>\<^verbatim>\<open>root_path + path\<close>\<close>

definition new_path :: "'o local_state \<Rightarrow> path \<Rightarrow> path" where
  "new_path st path = lo_root_path st @ path"

text \<open>\<^verbatim>\<open>(struct local_dirp * )fi->fh\<close>, dereferenced: the object must still be allocated.\<close>

definition get_dirp :: "fuse_file_info \<Rightarrow> 'o local_state \<Rightarrow> local_dirp res" where
  "get_dirp fi st =
     (case fmlookup (lo_dirps st) (fi_fh fi) of None \<Rightarrow> Inl Dangling | Some d \<Rightarrow> Inr d)"

text \<open>Documented behaviour of system calls: a call that fails with -1 sets \<^verbatim>\<open>errno\<close> to a positive value.\<close>

definition reports :: "'o posix \<Rightarrow> ('o \<Rightarrow> int \<times> 'o) \<Rightarrow> bool" where
  "reports px call \<longleftrightarrow> (\<forall>os. fst (call os) = -1 \<longrightarrow> 0 < px_errno px (snd (call os)))"

text \<open>Documented behaviour of calls that return nothing but success or failure.\<close>

definition zero_or_minus_one :: "('o \<Rightarrow> int \<times> 'o) \<Rightarrow> bool" where
  "zero_or_minus_one call \<longleftrightarrow> (\<forall>os. fst (call os) \<in> {0, -1})"

lemma checked_zero_checked:
  "zero_or_minus_one call \<Longrightarrow> checked px call st = zero_checked px call st"
  by (auto simp: checked_def zero_checked_def sys_def zero_or_minus_one_def split_beta)

lemma checked_zero:
  assumes "reports px call"
  shows "checked px call st = (0, st') \<longleftrightarrow>
     (\<exists>r os'. call (lo_os st) = (r, os') \<and> r \<noteq> -1 \<and> st' = st\<lparr>lo_os := os'\<rparr>)"
  using assms by (force simp: checked_def sys_def reports_def minus_errno_def split_beta)

lemma lo_os_update_inject: "st\<lparr>lo_os := a\<rparr> = st\<lparr>lo_os := b\<rparr> \<longleftrightarrow> a = b"
  by (cases st) simp

lemma sys_keeps [simp]:
  "lo_root_path (snd (sys call st)) = lo_root_path st" "lo_dirps (snd (sys call st)) = lo_dirps st"
  by (simp_all add: sys_def split_beta)

section \<open>A kernel to run the layer on\<close>

text \<open>
  A small kernel for concrete runs: the state is the position in the one directory it has,
  \<open>ents\<close>; every path exists, every call succeeds, reads and writes are as complete as Linux allows.
\<close>

definition steady_kernel :: "dirent list \<Rightarrow> nat posix" where
  "steady_kernel ents = \<lparr>
     px_errno = (\<lambda>os. 2),
     px_lstat = (\<lambda>p b os. ((0, b), os)), px_fstat = (\<lambda>fd b os. ((0, b), os)),
     px_open = (\<lambda>p fl m os. (3, os)), px_close = (\<lambda>fd os. (0, os)), px_dup = (\<lambda>fd os. (4, os)),
     px_access = (\<lambda>p m os. (0, os)), px_readlink = (\<lambda>p b n os. ((0, b), os)),
     px_mkfifo = (\<lambda>p m os. (0, os)), px_mknod = (\<lambda>p m d os. (0, os)), px_mkdir = (\<lambda>p m os. (0, os)),
     px_unlink = (\<lambda>p os. (0, os)), px_rmdir = (\<lambda>p os. (0, os)), px_symlink = (\<lambda>p q os. (0, os)),
     px_rename = (\<lambda>p q os. (0, os)), px_link = (\<lambda>p q os. (0, os)), px_chmod = (\<lambda>p m os. (0, os)),
     px_lchown = (\<lambda>p u g os. (0, os)), px_truncate = (\<lambda>p n os. (0, os)),
     px_ftruncate = (\<lambda>fd n os. (0, os)), px_utime = (\<lambda>p t os. (0, os)),
     px_utimensat = (\<lambda>fd p t u fl os. (0, os)), px_pread = (\<lambda>fd b n off os. ((int (min n 0x7ffff000), b), os)),
     px_pwrite = (\<lambda>fd b n off os. (int (min n 0x7ffff000), os)), px_fsync = (\<lambda>fd os. (0, os)),
     px_fdatasync = (\<lambda>fd os. (0, os)), px_statvfs = (\<lambda>p b os. ((0, b), os)),
     px_opendir = (\<lambda>p os. (Some 7, 0)),
     px_readdir = (\<lambda>d os. if os < length ents then (Some (ents ! os), Suc os) else (None, os)),
     px_telldir = (\<lambda>d os. (int os, os)), px_seekdir = (\<lambda>d k os. nat k),
     px_closedir = (\<lambda>d os. (0, os)), px_malloc = (\<lambda>os. (Some 9, os)), px_free = (\<lambda>p os. os)\<rparr>"

definition idle_state :: "path \<Rightarrow> nat local_state" where
  "idle_state root = \<lparr>lo_root_path = root, lo_os = 0, lo_dirps = fmempty\<rparr>"

end
