(* ===== verification/Local_Ops.thy ===== *)
theory Local_Ops
  imports Posix
begin

text \<open>
  \<^verbatim>\<open>src/lib/layers/local/local_operations.cpp\<close>: the operations of the local layer in its
  \<^verbatim>\<open>local\<close> mode, one definition per static function, and the table \<^verbatim>\<open>assign_local_operations\<close>
  fills. \<^verbatim>\<open>local_utimens\<close> and the extended-attribute entries are compiled only under
  \<^verbatim>\<open>HAVE_UTIMENSAT\<close> and \<^verbatim>\<open>HAVE_SETXATTR\<close>, which nothing in the build defines. The lemmas are about
  the directory loop: what it delivers, what it keeps, and that it returns.
\<close>

section \<open>Operations\<close>

definition local_init :: "('o local_state, unit) action" where
  "local_init st = Inr ((), st)"

definition local_destroy :: "('o local_state, unit) action" where
  "local_destroy st = Inr ((), st)"

definition local_getattr :: "'o posix \<Rightarrow> 'o local_state getattr_op" where
  "local_getattr px path stbuf st =
     (case sys (px_lstat px (new_path st path) stbuf) st of ((res, stbuf1), st1) \<Rightarrow>
        Inr ((if res = -1 then minus_errno px st1 else 0, stbuf1), st1))"

text \<open>\<^verbatim>\<open>st_blksize\<close> is reset before the result is looked at.\<close>

definition local_fgetattr :: "'o posix \<Rightarrow> 'o local_state fgetattr_op" where
  "local_fgetattr px path stbuf fi st =
     rbind (deref fi) (\<lambda>fi.
       case sys (px_fstat px (int_of_fh (fi_fh fi)) stbuf) st of ((res, stbuf1), st1) \<Rightarrow>
         Inr ((if res = -1 then minus_errno px st1 else 0, stbuf1\<lparr>st_blksize := 0\<rparr>, Some fi), st1))"

definition local_flush :: "'o posix \<Rightarrow> 'o local_state fi_op" where
  "local_flush px path fi st =
     rbind (deref fi) (\<lambda>fi.
       case sys (px_dup px (int_of_fh (fi_fh fi))) st of (fd, st1) \<Rightarrow>
       case checked px (px_close px fd) st1 of (res, st2) \<Rightarrow> Inr ((res, Some fi), st2))"

definition local_access :: "'o posix \<Rightarrow> path \<Rightarrow> int \<Rightarrow> ('o local_state, int) action" where
  "local_access px path amode st = Inr (checked px (px_access px (new_path st path) amode) st)"

text \<open>\<^verbatim>\<open>size - 1\<close> is formed in \<^verbatim>\<open>size_t\<close>; \<^verbatim>\<open>buf[res] = 0\<close> needs \<^verbatim>\<open>res\<close> inside the buffer.\<close>

definition terminate_at :: "bytes \<Rightarrow> int \<Rightarrow> bytes res" where
  "terminate_at buf i =
     (if 0 \<le> i \<and> nat i < length buf then Inr (buf[nat i := CHR 0x00]) else Inl Out_of_bounds)"

definition local_readlink :: "'o posix \<Rightarrow> 'o local_state readlink_op" where
  "local_readlink px path buf n st =
     (case sys (px_readlink px (new_path st path) buf (size_sub n 1)) st of ((r, buf1), st1) \<Rightarrow>
        let res = int_of_ssize r
        in if res = -1 then Inr ((minus_errno px st1, buf1), st1)
           else rbind (terminate_at buf1 res) (\<lambda>buf2. Inr ((0, buf2), st1)))"

definition local_mknod :: "'o posix \<Rightarrow> path \<Rightarrow> 32 word \<Rightarrow> 64 word \<Rightarrow> ('o local_state, int) action" where
  "local_mknod px path mode rdev st =
     (let p = new_path st path;
          (res, st1) =
            (if S_ISREG mode then
               (case sys (px_open px p (or (or O_CREAT O_EXCL) O_WRONLY) (Some mode)) st of (fd, st1) \<Rightarrow>
                  if 0 \<le> fd then sys (px_close px fd) st1 else (fd, st1))
             else if S_ISFIFO mode then sys (px_mkfifo px p mode) st
             else sys (px_mknod px p mode rdev) st)
      in Inr (if res = -1 then minus_errno px st1 else 0, st1))"

definition local_mkdir :: "'o posix \<Rightarrow> path \<Rightarrow> 32 word \<Rightarrow> ('o local_state, int) action" where
  "local_mkdir px path mode st = Inr (checked px (px_mkdir px (new_path st path) mode) st)"

definition local_unlink :: "'o posix \<Rightarrow> 'o local_state path_op" where
  "local_unlink px path st = Inr (checked px (px_unlink px (new_path st path)) st)"

definition local_rmdir :: "'o posix \<Rightarrow> 'o local_state path_op" where
  "local_rmdir px path st = Inr (checked px (px_rmdir px (new_path st path)) st)"

definition local_symlink :: "'o posix \<Rightarrow> 'o local_state path2_op" where
  "local_symlink px from to st =
     Inr (checked px (px_symlink px (new_path st from) (new_path st to)) st)"

definition local_rename :: "'o posix \<Rightarrow> 'o local_state path2_op" where
  "local_rename px from to st =
     Inr (checked px (px_rename px (new_path st from) (new_path st to)) st)"

definition local_link :: "'o posix \<Rightarrow> 'o local_state path2_op" where
  "local_link px from to st =
     Inr (checked px (px_link px (new_path st from) (new_path st to)) st)"

definition local_chmod :: "'o posix \<Rightarrow> path \<Rightarrow> 32 word \<Rightarrow> ('o local_state, int) action" where
  "local_chmod px path mode st = Inr (checked px (px_chmod px (new_path st path) mode) st)"

definition local_chown :: "'o posix \<Rightarrow> path \<Rightarrow> 32 word \<Rightarrow> 32 word \<Rightarrow> ('o local_state, int) action" where
  "local_chown px path uid gid st = Inr (checked px (px_lchown px (new_path st path) uid gid) st)"

definition local_ftruncate :: "'o posix \<Rightarrow> path \<Rightarrow> int \<Rightarrow> fi_ptr \<Rightarrow> ('o local_state, int \<times> fi_ptr) action" where
  "local_ftruncate px path len fi st =
     (case checked px (case fi of Some fi \<Rightarrow> px_ftruncate px (int_of_fh (fi_fh fi)) len
                                | None \<Rightarrow> px_truncate px (new_path st path) len) st of
        (res, st1) \<Rightarrow> Inr ((res, fi), st1))"

definition local_truncate :: "'o posix \<Rightarrow> path \<Rightarrow> int \<Rightarrow> ('o local_state, int) action" where
  "local_truncate px path len st = Inr (checked px (px_truncate px (new_path st path) len) st)"

definition local_utime :: "'o posix \<Rightarrow> path \<Rightarrow> utimbuf \<Rightarrow> ('o local_state, int) action" where
  "local_utime px path buf st = Inr (checked px (px_utime px (new_path st path) buf) st)"

definition local_create :: "'o posix \<Rightarrow> path \<Rightarrow> 32 word \<Rightarrow> fi_ptr \<Rightarrow> ('o local_state, int \<times> fi_ptr) action" where
  "local_create px path mode fi st =
     rbind (deref fi) (\<lambda>fi.
       case sys (px_open px (new_path st path) (fi_flags fi) (Some mode)) st of (res, st1) \<Rightarrow>
         if res = -1 then Inr ((minus_errno px st1, Some fi), st1)
         else Inr ((0, Some (fi\<lparr>fi_fh := fh_of_int res\<rparr>)), st1))"

definition local_open :: "'o posix \<Rightarrow> 'o local_state fi_op" where
  "local_open px path fi st =
     rbind (deref fi) (\<lambda>fi.
       case sys (px_open px (new_path st path) (fi_flags fi) None) st of (res, st1) \<Rightarrow>
         if res = -1 then Inr ((minus_errno px st1, Some fi), st1)
         else Inr ((0, Some (fi\<lparr>fi_fh := fh_of_int res\<rparr>)), st1))"

text \<open>The descriptor of a read or write: opened for it when there is no file information.\<close>

definition open_fd :: "'o posix \<Rightarrow> path \<Rightarrow> 32 word \<Rightarrow> fi_ptr \<Rightarrow> 'o local_state \<Rightarrow> int \<times> 'o local_state" where
  "open_fd px path flags fi st =
     (case fi of None \<Rightarrow> sys (px_open px (new_path st path) flags None) st
      | Some fi \<Rightarrow> (int_of_fh (fi_fh fi), st))"

definition close_fd :: "'o posix \<Rightarrow> int \<Rightarrow> fi_ptr \<Rightarrow> 'o local_state \<Rightarrow> 'o local_state" where
  "close_fd px fd fi st = (case fi of None \<Rightarrow> snd (sys (px_close px fd) st) | Some _ \<Rightarrow> st)"

definition local_read :: "'o posix \<Rightarrow> 'o local_state read_op" where
  "local_read px path buf n offset fi st =
     (case open_fd px path O_RDONLY fi st of (fd, st1) \<Rightarrow>
        if fd = -1 then Inr ((minus_errno px st1, buf, fi), st1)
        else (case sys (px_pread px fd buf n offset) st1 of ((r, buf1), st2) \<Rightarrow>
          let res = int_of_ssize r; res1 = (if res = -1 then minus_errno px st2 else res)
          in Inr ((res1, buf1, fi), close_fd px fd fi st2)))"

definition local_write :: "'o posix \<Rightarrow> 'o local_state write_op" where
  "local_write px path buf n offset fi st =
     (case open_fd px path O_WRONLY fi st of (fd, st1) \<Rightarrow>
        if fd = -1 then Inr ((minus_errno px st1, fi), st1)
        else (case sys (px_pwrite px fd buf n offset) st1 of (r, st2) \<Rightarrow>
          let res = int_of_ssize r; res1 = (if res = -1 then minus_errno px st2 else res)
          in case sys (px_fsync px fd) st2 of (f, st3) \<Rightarrow>
               let res2 = (if f = -1 then minus_errno px st3 else res1)
               in Inr ((res2, fi), close_fd px fd fi st3)))"

definition local_statfs :: "'o posix \<Rightarrow> path \<Rightarrow> statvfs \<Rightarrow> ('o local_state, int \<times> statvfs) action" where
  "local_statfs px path stbuf st =
     (case sys (px_statvfs px (new_path st path) stbuf) st of ((res, stbuf1), st1) \<Rightarrow>
        Inr ((if res = -1 then minus_errno px st1 else 0, stbuf1), st1))"

definition local_release :: "'o posix \<Rightarrow> 'o local_state fi_op" where
  "local_release px path fi st =
     rbind (deref fi) (\<lambda>fi.
       case sys (px_close px (int_of_fh (fi_fh fi))) st of (_, st1) \<Rightarrow> Inr ((0, Some fi), st1))"

definition local_fsync :: "'o posix \<Rightarrow> path \<Rightarrow> int \<Rightarrow> fi_ptr \<Rightarrow> ('o local_state, int \<times> fi_ptr) action" where
  "local_fsync px path isdatasync fi st =
     rbind (deref fi) (\<lambda>fi.
       case sys (px_fsync px (int_of_fh (fi_fh fi))) st of (_, st1) \<Rightarrow> Inr ((0, Some fi), st1))"

section \<open>Directories\<close>

definition local_opendir :: "'o posix \<Rightarrow> 'o local_state fi_op" where
  "local_opendir px path fi st =
     (case sys (px_malloc px) st of
        (None, st1) \<Rightarrow> Inr ((- ENOMEM, fi), st1)
      | (Some d, st1) \<Rightarrow>
          (case sys (px_opendir px (new_path st path)) st1 of
             (None, st2) \<Rightarrow> Inr ((minus_errno px st2, fi), st2\<lparr>lo_os := px_free px d (lo_os st2)\<rparr>)
           | (Some dir, st2) \<Rightarrow>
               rbind (deref fi) (\<lambda>fi.
                 Inr ((0, Some (fi\<lparr>fi_fh := d\<rparr>)),
                      st2\<lparr>lo_dirps := fmupd d \<lparr>dp = dir, dp_entry = None, dp_offset = 0\<rparr> (lo_dirps st2)\<rparr>))))"

text \<open>The attributes handed to the callback: only inode number and file type are known.\<close>

definition entry_stat :: "dirent \<Rightarrow> stat" where
  "entry_stat e = zero_stat\<lparr>st_ino := d_ino e, st_mode := push_bit 12 (ucast (d_type e))\<rparr>"

text \<open>\<^verbatim>\<open>while (1)\<close>: \<open>None\<close> when the loop never leaves.\<close>

partial_function (option) local_readdir_loop ::
  "'o posix \<Rightarrow> 'd fill_dir \<Rightarrow> 'd \<Rightarrow> local_dirp \<Rightarrow> 'o local_state \<Rightarrow> ('d \<times> local_dirp \<times> 'o local_state) option"
where
  "local_readdir_loop px filler buf d st =
     (case (case dp_entry d of Some e \<Rightarrow> (Some e, st) | None \<Rightarrow> sys (px_readdir px (dp d)) st) of
        (None, st1) \<Rightarrow> Some (buf, d\<lparr>dp_entry := None\<rparr>, st1)
      | (Some e, st1) \<Rightarrow>
          (case sys (px_telldir px (dp d)) st1 of (nextoff, st2) \<Rightarrow>
           case filler buf (d_name e) (entry_stat e) nextoff of (r, buf1) \<Rightarrow>
             if r \<noteq> 0 then Some (buf1, d\<lparr>dp_entry := Some e\<rparr>, st2)
             else local_readdir_loop px filler buf1 (d\<lparr>dp_entry := None, dp_offset := nextoff\<rparr>) st2))"

definition local_readdir :: "'o posix \<Rightarrow> ('o local_state, 'd) readdir_op" where
  "local_readdir px path buf filler offset fi st =
     rbind (deref fi) (\<lambda>fi.
     rbind (get_dirp fi st) (\<lambda>d.
       let (d1, st1) =
             (if offset \<noteq> dp_offset d
              then (d\<lparr>dp_entry := None, dp_offset := offset\<rparr>, st\<lparr>lo_os := px_seekdir px (dp d) offset (lo_os st)\<rparr>)
              else (d, st))
       in case local_readdir_loop px filler buf d1 st1 of
            None \<Rightarrow> Inl Diverges
          | Some (buf1, d2, st2) \<Rightarrow>
              Inr ((0, buf1, Some fi), st2\<lparr>lo_dirps := fmupd (fi_fh fi) d2 (lo_dirps st2)\<rparr>)))"

definition local_releasedir :: "'o posix \<Rightarrow> 'o local_state fi_op" where
  "local_releasedir px path fi st =
     rbind (deref fi) (\<lambda>fi.
     rbind (get_dirp fi st) (\<lambda>d.
       case sys (px_closedir px (dp d)) st of (_, st1) \<Rightarrow>
         Inr ((0, Some fi), st1\<lparr>lo_os := px_free px (fi_fh fi) (lo_os st1),
                                lo_dirps := fmdrop (fi_fh fi) (lo_dirps st1)\<rparr>)))"

section \<open>The table\<close>

definition set_local_operations ::
  "'o posix \<Rightarrow> ('o local_state, 'd) fuse_operations \<Rightarrow> ('o local_state, 'd) fuse_operations"
where
  "set_local_operations px operations =
     operations\<lparr>op_init := Some local_init, op_destroy := Some local_destroy,
        op_getattr := Some (local_getattr px), op_fgetattr := Some (local_fgetattr px),
        op_opendir := Some (local_opendir px), op_flush := Some (local_flush px),
        op_ftruncate := Some (local_ftruncate px), op_access := Some (local_access px),
        op_readlink := Some (local_readlink px), op_releasedir := Some (local_releasedir px),
        op_readdir := Some (local_readdir px), op_mknod := Some (local_mknod px),
        op_mkdir := Some (local_mkdir px), op_symlink := Some (local_symlink px),
        op_unlink := Some (local_unlink px), op_rmdir := Some (local_rmdir px),
        op_rename := Some (local_rename px), op_link := Some (local_link px),
        op_chmod := Some (local_chmod px), op_chown := Some (local_chown px),
        op_truncate := Some (local_truncate px), op_utime := Some (local_utime px),
        op_open := Some (local_open px), op_create := Some (local_create px),
        op_read := Some (local_read px), op_write := Some (local_write px),
        op_statfs := Some (local_statfs px), op_release := Some (local_release px),
        op_fsync := Some (local_fsync px)\<rparr>"

definition assign_local_operations ::
  "'o posix \<Rightarrow> ('o local_state, 'd) fuse_operations \<Rightarrow> path \<Rightarrow> 'o local_state \<Rightarrow>
   ('o local_state, 'd) fuse_operations \<times> 'o local_state"
where
  "assign_local_operations px operations path st =
     (set_local_operations px operations, st\<lparr>lo_root_path := path\<rparr>)"

section \<open>Reading a directory\<close>

text \<open>
  Documented behaviour of a directory stream \<open>dirp\<close>: \<open>rest\<close> lists the entries still to be read, each
  with the position after it, \<open>pos\<close> is the current position, \<open>after k\<close> what follows position \<open>k\<close>.
  \<^verbatim>\<open>readdir\<close> takes the next entry, \<^verbatim>\<open>telldir\<close> only looks, \<^verbatim>\<open>seekdir\<close> moves.
\<close>

type_synonym entries = "(dirent \<times> int) list"

definition dir_stream ::
  "'o posix \<Rightarrow> 64 word \<Rightarrow> ('o \<Rightarrow> entries) \<Rightarrow> ('o \<Rightarrow> int) \<Rightarrow> (int \<Rightarrow> entries) \<Rightarrow> bool"
where
  "dir_stream px dirp rest pos after \<longleftrightarrow>
     (\<forall>os. rest os = [] \<longrightarrow> (\<exists>os'. px_readdir px dirp os = (None, os') \<and> rest os' = [])) \<and>
     (\<forall>os e k es. rest os = (e, k) # es \<longrightarrow>
        (\<exists>os'. px_readdir px dirp os = (Some e, os') \<and> rest os' = es \<and> pos os' = k)) \<and>
     (\<forall>os. \<exists>os'. px_telldir px dirp os = (pos os, os') \<and> rest os' = rest os \<and> pos os' = pos os) \<and>
     (\<forall>os k. rest (px_seekdir px dirp k os) = after k)"

text \<open>
  What an open handle still has to deliver: the entry it read but could not hand over comes
  first. \<open>deliver\<close> is the contract of the loop: entries go to the callback in order until it asks
  to stop, and the entry it refused is the first of what is left.
\<close>

definition unread :: "('o \<Rightarrow> entries) \<Rightarrow> ('o \<Rightarrow> int) \<Rightarrow> local_dirp \<Rightarrow> 'o \<Rightarrow> entries" where
  "unread rest pos d os = (case dp_entry d of None \<Rightarrow> rest os | Some e \<Rightarrow> (e, pos os) # rest os)"

fun deliver :: "'d fill_dir \<Rightarrow> int \<Rightarrow> entries \<Rightarrow> 'd \<Rightarrow> 'd \<times> int \<times> entries" where
  "deliver filler at [] buf = (buf, at, [])"
| "deliver filler at ((e, k) # es) buf =
     (case filler buf (d_name e) (entry_stat e) k of (r, buf1) \<Rightarrow>
        if r \<noteq> 0 then (buf1, at, (e, k) # es) else deliver filler k es buf1)"

text \<open>One turn of the loop, on a handle with something left and on one with nothing left.\<close>

lemma local_readdir_loop_end:
  assumes "dir_stream px (dp d) rest pos after" "unread rest pos d (lo_os st) = []"
  obtains os' where "local_readdir_loop px filler buf d st = Some (buf, d, st\<lparr>lo_os := os'\<rparr>)"
    "unread rest pos d os' = []"
proof -
  have e: "dp_entry d = None" "rest (lo_os st) = []"
    using assms(2) by (auto simp: unread_def split: option.splits)
  obtain os' where os': "px_readdir px (dp d) (lo_os st) = (None, os')" "rest os' = []"
    using assms(1) e(2) unfolding dir_stream_def by blast
  have "d\<lparr>dp_entry := None\<rparr> = d"
    using e(1) by simp
  then show thesis
    using e os' that [of os'] by (simp add: local_readdir_loop.simps [of px filler buf d st] sys_def unread_def)
qed

lemma local_readdir_loop_turn:
  assumes "dir_stream px (dp d) rest pos after" "unread rest pos d (lo_os st) = (e, k) # es"
  obtains os' where "rest os' = es" "pos os' = k"
    "local_readdir_loop px filler buf d st =
       (case filler buf (d_name e) (entry_stat e) k of (r, buf1) \<Rightarrow>
          if r \<noteq> 0 then Some (buf1, d\<lparr>dp_entry := Some e\<rparr>, st\<lparr>lo_os := os'\<rparr>)
          else local_readdir_loop px filler buf1 (d\<lparr>dp_entry := None, dp_offset := k\<rparr>) (st\<lparr>lo_os := os'\<rparr>))"
proof -
  obtain os1 where os1: "(case dp_entry d of Some e \<Rightarrow> (Some e, st) | None \<Rightarrow> sys (px_readdir px (dp d)) st) =
      (Some e, st\<lparr>lo_os := os1\<rparr>)" "rest os1 = es" "pos os1 = k"
  proof (cases "dp_entry d")
    case None
    then obtain os1 where "px_readdir px (dp d) (lo_os st) = (Some e, os1)" "rest os1 = es" "pos os1 = k"
      using assms unfolding dir_stream_def unread_def by fastforce
    with None that [of os1] show thesis by (simp add: sys_def)
  next
    case (Some e')
    then show thesis
      using assms(2) that [of "lo_os st"] by (simp add: unread_def)
  qed
  obtain os2 where os2: "px_telldir px (dp d) os1 = (k, os2)" "rest os2 = es" "pos os2 = k"
    using assms(1) os1 unfolding dir_stream_def by metis
  show thesis
    by (rule that [of os2])
       (simp_all add: os1 os2 sys_def local_readdir_loop.simps [of px filler buf d st])
qed

lemma local_readdir_loop_delivers:
  assumes "dir_stream px (dp d) rest pos after"
  shows "\<exists>buf' d' os'. local_readdir_loop px filler buf d st = Some (buf', d', st\<lparr>lo_os := os'\<rparr>) \<and>
      dp d' = dp d \<and> (buf', dp_offset d', unread rest pos d' os') =
        deliver filler (dp_offset d) (unread rest pos d (lo_os st)) buf"
  using assms
proof (induction "unread rest pos d (lo_os st)" arbitrary: buf d st)
  case Nil
  then show ?case
    using local_readdir_loop_end [of px d rest pos after st filler buf] by (metis deliver.simps(1))
next
  case (Cons x es)
  obtain e k where x: "x = (e, k)" by fastforce
  note u = Cons.hyps(2) [symmetric, unfolded x]
  obtain os' where os': "rest os' = es" "pos os' = k" and turn: "local_readdir_loop px filler buf d st =
       (case filler buf (d_name e) (entry_stat e) k of (r, buf1) \<Rightarrow>
          if r \<noteq> 0 then Some (buf1, d\<lparr>dp_entry := Some e\<rparr>, st\<lparr>lo_os := os'\<rparr>)
          else local_readdir_loop px filler buf1 (d\<lparr>dp_entry := None, dp_offset := k\<rparr>) (st\<lparr>lo_os := os'\<rparr>))"
    by (rule local_readdir_loop_turn [OF Cons.prems u])
  obtain r buf1 where f: "filler buf (d_name e) (entry_stat e) k = (r, buf1)" by fastforce
  show ?case
  proof (cases "r = 0")
    case False
    then show ?thesis
      using f os' u turn by (auto simp: unread_def)
  next
    case True
    have "unread rest pos (d\<lparr>dp_entry := None, dp_offset := k\<rparr>) (lo_os (st\<lparr>lo_os := os'\<rparr>)) = es"
      using os' by (simp add: unread_def)
    then show ?thesis
      using Cons.hyps(1) [of "d\<lparr>dp_entry := None, dp_offset := k\<rparr>" "st\<lparr>lo_os := os'\<rparr>" buf1] Cons.prems True f u turn
      by simp
  qed
qed

text \<open>
  C19. Reading a directory returns: on an open handle the loop of \<^verbatim>\<open>local_readdir\<close> ends, the call
  answers 0, the callback got the entries from the requested offset on, in order, until it
  asked to stop, and nothing is lost: what the handle has left to deliver starts with the entry
  the callback refused, and the handle's offset is the one a client passes to continue there.
\<close>

theorem local_readdir_delivers:
  assumes "fmlookup (lo_dirps st) (fi_fh fi) = Some d" "dir_stream px (dp d) rest pos after"
  shows "\<exists>buf' d' os'.
     local_readdir px path buf filler offset (Some fi) st =
       Inr ((0, buf', Some fi), st\<lparr>lo_os := os', lo_dirps := fmupd (fi_fh fi) d' (lo_dirps st)\<rparr>) \<and>
     dp d' = dp d \<and>
     (buf', dp_offset d', unread rest pos d' os') =
       deliver filler offset
         (if offset = dp_offset d then unread rest pos d (lo_os st) else after offset) buf"
proof (cases "offset = dp_offset d")
  case True
  then show ?thesis
    using local_readdir_loop_delivers [OF assms(2), of filler buf st] assms(1)
    by (force simp: local_readdir_def get_dirp_def)
next
  case False
  let ?d = "d\<lparr>dp_entry := None, dp_offset := offset\<rparr>"
  let ?st = "st\<lparr>lo_os := px_seekdir px (dp d) offset (lo_os st)\<rparr>"
  have "unread rest pos ?d (lo_os ?st) = after offset"
    using assms(2) by (simp add: unread_def dir_stream_def)
  then show ?thesis
    using local_readdir_loop_delivers [of px ?d rest pos after filler buf ?st] assms False
    by (force simp: local_readdir_def get_dirp_def)
qed

definition demo_entries :: "dirent list" where
  "demo_entries = map (\<lambda>n. \<lparr>d_ino = 1, d_type = 4, d_name = n\<rparr>) [''.'', ''..'', ''a'']"

definition positions :: "dirent list \<Rightarrow> nat \<Rightarrow> entries" where
  "positions ents n = drop n (zip ents (map int [1..<Suc (length ents)]))"

lemma steady_dir_stream:
  "dir_stream (steady_kernel ents) 7 (positions ents) int (\<lambda>k. positions ents (nat k))"
proof -
  have "positions ents n = (ents ! n, int (Suc n)) # positions ents (Suc n)" if "n < length ents" for n
    using that by (simp add: positions_def Cons_nth_drop_Suc [symmetric] del: upt_Suc)
  moreover have "positions ents n = []" if "\<not> n < length ents" for n
    using that by (simp add: positions_def)
  ultimately show ?thesis
    by (auto simp: dir_stream_def steady_kernel_def)
qed

text \<open>A callback with room for one name, on a directory of three.\<close>

theorem local_readdir_delivers_witness:
  "\<exists>st'. local_readdir (steady_kernel demo_entries) ''/'' [] (\<lambda>xs name s off. (of_bool (xs \<noteq> []), if xs = [] then [name] else xs)) 0
       (Some (zero_file_info\<lparr>fi_fh := 9\<rparr>)) ((idle_state ''/srv'')\<lparr>lo_dirps := fmupd 9 \<lparr>dp = 7, dp_entry = None, dp_offset = 0\<rparr> fmempty\<rparr>) =
     Inr ((0, [''.''], Some (zero_file_info\<lparr>fi_fh := 9\<rparr>)), st')"
proof -
  let ?filler = "\<lambda>xs (name :: string) (s :: stat) (off :: int). (of_bool (xs \<noteq> []) :: int, if xs = [] then [name] else xs)"
  let ?fi = "zero_file_info\<lparr>fi_fh := 9\<rparr>"
  let ?st = "(idle_state ''/srv'')\<lparr>lo_dirps := fmupd 9 \<lparr>dp = 7, dp_entry = None, dp_offset = 0\<rparr> fmempty\<rparr>"
  have "deliver ?filler 0 (positions demo_entries 0) [] = ([''.''], 1, positions demo_entries 1)"
    by (simp add: positions_def demo_entries_def upt_rec)
  then show ?thesis
    using local_readdir_delivers [of ?st ?fi "\<lparr>dp = 7, dp_entry = None, dp_offset = 0\<rparr>" "steady_kernel demo_entries"
        "positions demo_entries" int "\<lambda>k. positions demo_entries (nat k)" "''/''" "[]" ?filler 0] steady_dir_stream
    by (auto simp: unread_def idle_state_def)
qed

end
