(* ===== verification/Nfs_Ops.thy ===== *)
theory Nfs_Ops
  imports Local_Ops
begin

text \<open>
  \<^verbatim>\<open>src/lib/layers/local/nfs_operations.cpp\<close>: the operations of the local layer in its \<^verbatim>\<open>nfs\<close> mode,
  in which an operation that changes the name space returns only once the change is on stable
  storage (RFC 1813), and the table \<^verbatim>\<open>assign_nfs_operations\<close> fills. The lemmas give the exact
  sequence of system calls behind a successful answer, and compare the two modes on the
  operations that need no such care.
\<close>

section \<open>Operations\<close>

definition sync_path :: "'o posix \<Rightarrow> path \<Rightarrow> 'o local_state \<Rightarrow> int \<times> 'o local_state" where
  "sync_path px path st =
     (case sys (px_open px path O_RDONLY None) st of (fd, st1) \<Rightarrow>
        if fd = -1 then (minus_errno px st1, st1)
        else (case sys (px_fsync px fd) st1 of (f, st2) \<Rightarrow>
          if f = -1 then (minus_errno px st2, snd (sys (px_close px fd) st2))
          else (case sys (px_close px fd) st2 of (c, st3) \<Rightarrow>
            if c = -1 then (minus_errno px st3, st3) else (0, st3))))"

text \<open>The name-space operations: the change, then \<^verbatim>\<open>sync_path\<close> of each path, stopping at the first error.\<close>

fun sync_paths :: "'o posix \<Rightarrow> path list \<Rightarrow> 'o local_state \<Rightarrow> int \<times> 'o local_state" where
  "sync_paths px [] st = (0, st)"
| "sync_paths px (p # ps) st =
     (case sync_path px p st of (res, st1) \<Rightarrow> if res < 0 then (res, st1) else sync_paths px ps st1)"

definition change_and_sync ::
  "'o posix \<Rightarrow> ('o \<Rightarrow> int \<times> 'o) \<Rightarrow> path list \<Rightarrow> ('o local_state, int) action"
where
  "change_and_sync px call ps st =
     (case sys call st of (res, st1) \<Rightarrow>
        Inr (if res = -1 then (minus_errno px st1, st1) else sync_paths px ps st1))"

definition nfs_init :: "('o local_state, unit) action" where
  "nfs_init st = Inr ((), st)"

definition nfs_destroy :: "('o local_state, unit) action" where
  "nfs_destroy st = Inr ((), st)"

definition nfs_getattr :: "'o posix \<Rightarrow> 'o local_state getattr_op" where
  "nfs_getattr px path stbuf st =
     (case sys (px_lstat px (new_path st path) stbuf) st of ((res, stbuf1), st1) \<Rightarrow>
        Inr ((if res = 0 then 0 else minus_errno px st1, stbuf1), st1))"

definition nfs_fgetattr :: "'o posix \<Rightarrow> 'o local_state fgetattr_op" where
  "nfs_fgetattr px path stbuf fi st =
     rbind (deref fi) (\<lambda>fi.
       case sys (px_fstat px (int_of_fh (fi_fh fi)) stbuf) st of ((res, stbuf1), st1) \<Rightarrow>
         Inr ((if res = 0 then 0 else minus_errno px st1, stbuf1, Some fi), st1))"

definition nfs_access :: "'o posix \<Rightarrow> path \<Rightarrow> int \<Rightarrow> ('o local_state, int) action" where
  "nfs_access px path amode st = Inr (zero_checked px (px_access px (new_path st path) amode) st)"

definition nfs_readlink :: "'o posix \<Rightarrow> 'o local_state readlink_op" where
  "nfs_readlink px path buf n st =
     (case sys (px_readlink px (new_path st path) buf (size_sub n 1)) st of ((r, buf1), st1) \<Rightarrow>
        let res = int_of_ssize r
        in if res = -1 then Inr ((minus_errno px st1, buf1), st1)
           else rbind (terminate_at buf1 res) (\<lambda>buf2. Inr ((0, buf2), st1)))"

definition nfs_opendir :: "'o posix \<Rightarrow> 'o local_state fi_op" where
  "nfs_opendir px path fi st =
     (case sys (px_malloc px) st of
        (None, st1) \<Rightarrow> Inr ((- ENOMEM, fi), st1)
      | (Some d, st1) \<Rightarrow>
          (case sys (px_opendir px (new_path st path)) st1 of
             (None, st2) \<Rightarrow> Inr ((minus_errno px st2, fi), st2\<lparr>lo_os := px_free px d (lo_os st2)\<rparr>)
           | (Some dir, st2) \<Rightarrow>
               rbind (deref fi) (\<lambda>fi.
                 Inr ((0, Some (fi\<lparr>fi_fh := d\<rparr>)),
                      st2\<lparr>lo_dirps := fmupd d \<lparr>dp = dir, dp_entry = None, dp_offset = 0\<rparr> (lo_dirps st2)\<rparr>))))"

partial_function (option) nfs_readdir_loop ::
  "'o posix \<Rightarrow> 'd fill_dir \<Rightarrow> 'd \<Rightarrow> local_dirp \<Rightarrow> 'o local_state \<Rightarrow> ('d \<times> local_dirp \<times> 'o local_state) option"
where
  "nfs_readdir_loop px filler buf d st =
     (case (case dp_entry d of Some e \<Rightarrow> (Some e, st) | None \<Rightarrow> sys (px_readdir px (dp d)) st) of
        (None, st1) \<Rightarrow> Some (buf, d\<lparr>dp_entry := None\<rparr>, st1)
      | (Some e, st1) \<Rightarrow>
          (case sys (px_telldir px (dp d)) st1 of (nextoff, st2) \<Rightarrow>
           case filler buf (d_name e) (entry_stat e) nextoff of (r, buf1) \<Rightarrow>
             if r \<noteq> 0 then Some (buf1, d\<lparr>dp_entry := Some e\<rparr>, st2)
             else nfs_readdir_loop px filler buf1 (d\<lparr>dp_entry := None, dp_offset := nextoff\<rparr>) st2))"

definition nfs_readdir :: "'o posix \<Rightarrow> ('o local_state, 'd) readdir_op" where
  "nfs_readdir px path buf filler offset fi st =
     rbind (deref fi) (\<lambda>fi.
     rbind (get_dirp fi st) (\<lambda>d.
       let (d1, st1) =
             (if offset \<noteq> dp_offset d
              then (d\<lparr>dp_entry := None, dp_offset := offset\<rparr>, st\<lparr>lo_os := px_seekdir px (dp d) offset (lo_os st)\<rparr>)
              else (d, st))
       in case nfs_readdir_loop px filler buf d1 st1 of
            None \<Rightarrow> Inl Diverges
          | Some (buf1, d2, st2) \<Rightarrow>
              Inr ((0, buf1, Some fi), st2\<lparr>lo_dirps := fmupd (fi_fh fi) d2 (lo_dirps st2)\<rparr>)))"

text \<open>A failing \<^verbatim>\<open>closedir\<close> leaves the handle allocated.\<close>

definition nfs_releasedir :: "'o posix \<Rightarrow> 'o local_state fi_op" where
  "nfs_releasedir px path fi st =
     rbind (deref fi) (\<lambda>fi.
     rbind (get_dirp fi st) (\<lambda>d.
       case sys (px_closedir px (dp d)) st of (c, st1) \<Rightarrow>
         if c \<noteq> 0 then Inr ((minus_errno px st1, Some fi), st1)
         else Inr ((0, Some fi), st1\<lparr>lo_os := px_free px (fi_fh fi) (lo_os st1),
                                     lo_dirps := fmdrop (fi_fh fi) (lo_dirps st1)\<rparr>)))"

definition nfs_mknod :: "'o posix \<Rightarrow> path \<Rightarrow> 32 word \<Rightarrow> 64 word \<Rightarrow> ('o local_state, int) action" where
  "nfs_mknod px path mode rdev st =
     (let p = new_path st path
      in change_and_sync px (if S_ISFIFO mode then px_mkfifo px p mode else px_mknod px p mode rdev)
           [fs_parent_path p] st)"

definition nfs_mkdir :: "'o posix \<Rightarrow> path \<Rightarrow> 32 word \<Rightarrow> ('o local_state, int) action" where
  "nfs_mkdir px path mode st =
     (let p = new_path st path in change_and_sync px (px_mkdir px p mode) [p, fs_parent_path p] st)"

definition nfs_unlink :: "'o posix \<Rightarrow> 'o local_state path_op" where
  "nfs_unlink px path st =
     (let p = new_path st path in change_and_sync px (px_unlink px p) [fs_parent_path p] st)"

definition nfs_rmdir :: "'o posix \<Rightarrow> 'o local_state path_op" where
  "nfs_rmdir px path st =
     (let p = new_path st path in change_and_sync px (px_rmdir px p) [fs_parent_path p] st)"

definition nfs_symlink :: "'o posix \<Rightarrow> 'o local_state path2_op" where
  "nfs_symlink px from to st =
     (let p = new_path st from; q = new_path st to
      in change_and_sync px (px_symlink px p q) [fs_parent_path q] st)"

definition nfs_rename :: "'o posix \<Rightarrow> 'o local_state path2_op" where
  "nfs_rename px from to st =
     (let p = new_path st from; q = new_path st to
      in change_and_sync px (px_rename px p q) [q, fs_parent_path p, fs_parent_path q] st)"

definition nfs_link :: "'o posix \<Rightarrow> 'o local_state path2_op" where
  "nfs_link px from to st =
     (let p = new_path st from; q = new_path st to
      in change_and_sync px (px_link px p q) [p, q, fs_parent_path p, fs_parent_path q] st)"

definition nfs_chmod :: "'o posix \<Rightarrow> path \<Rightarrow> 32 word \<Rightarrow> ('o local_state, int) action" where
  "nfs_chmod px path mode st = Inr (zero_checked px (px_chmod px (new_path st path) mode) st)"

definition nfs_chown :: "'o posix \<Rightarrow> path \<Rightarrow> 32 word \<Rightarrow> 32 word \<Rightarrow> ('o local_state, int) action" where
  "nfs_chown px path uid gid st = Inr (zero_checked px (px_lchown px (new_path st path) uid gid) st)"

definition nfs_truncate :: "'o posix \<Rightarrow> path \<Rightarrow> int \<Rightarrow> ('o local_state, int) action" where
  "nfs_truncate px path len st = Inr (zero_checked px (px_truncate px (new_path st path) len) st)"

definition nfs_ftruncate :: "'o posix \<Rightarrow> path \<Rightarrow> int \<Rightarrow> fi_ptr \<Rightarrow> ('o local_state, int \<times> fi_ptr) action" where
  "nfs_ftruncate px path len fi st =
     rbind (deref fi) (\<lambda>fi.
       case zero_checked px (px_ftruncate px (int_of_fh (fi_fh fi)) len) st of (res, st1) \<Rightarrow>
         Inr ((res, Some fi), st1))"

definition nfs_utimens :: "'o posix \<Rightarrow> path \<Rightarrow> timespec \<Rightarrow> timespec \<Rightarrow> ('o local_state, int) action" where
  "nfs_utimens px path ts0 ts1 st =
     Inr (zero_checked px (px_utimensat px AT_FDCWD (new_path st path) ts0 ts1 AT_SYMLINK_NOFOLLOW) st)"

text \<open>\<^verbatim>\<open>O_DIRECT\<close> is taken off the flags and becomes direct I/O of the FUSE file.\<close>

definition strip_direct :: "fuse_file_info \<Rightarrow> fuse_file_info" where
  "strip_direct fi =
     (if and (fi_flags fi) O_DIRECT \<noteq> 0
      then fi\<lparr>fi_flags := and (fi_flags fi) (not O_DIRECT), fi_direct_io := 1\<rparr> else fi)"

definition nfs_create :: "'o posix \<Rightarrow> path \<Rightarrow> 32 word \<Rightarrow> fi_ptr \<Rightarrow> ('o local_state, int \<times> fi_ptr) action" where
  "nfs_create px path mode fi st =
     rbind (deref fi) (\<lambda>fi0.
       let p = new_path st path; fi = strip_direct fi0
       in case sys (px_open px p (fi_flags fi) (Some mode)) st of (fd, st1) \<Rightarrow>
            if fd = -1 then Inr ((minus_errno px st1, Some fi), st1)
            else (case sys (px_fsync px fd) st1 of (f, st2) \<Rightarrow>
              if f = -1 then Inr ((minus_errno px st2, Some fi), st2)
              else (case sync_path px (fs_parent_path p) st2 of (res, st3) \<Rightarrow>
                if res < 0 then Inr ((res, Some fi), st3)
                else Inr ((0, Some (fi\<lparr>fi_fh := fh_of_int fd\<rparr>)), st3))))"

definition nfs_open :: "'o posix \<Rightarrow> 'o local_state fi_op" where
  "nfs_open px path fi st =
     rbind (deref fi) (\<lambda>fi0.
       let fi = strip_direct fi0
       in case sys (px_open px (new_path st path) (fi_flags fi) None) st of (fd, st1) \<Rightarrow>
            if fd = -1 then Inr ((minus_errno px st1, Some fi), st1)
            else Inr ((0, Some (fi\<lparr>fi_fh := fh_of_int fd\<rparr>)), st1))"

definition nfs_read :: "'o posix \<Rightarrow> 'o local_state read_op" where
  "nfs_read px path buf n offset fi st =
     rbind (deref fi) (\<lambda>fi.
       case sys (px_pread px (int_of_fh (fi_fh fi)) buf n offset) st of ((r, buf1), st1) \<Rightarrow>
         let res = int_of_ssize r
         in Inr ((if res = -1 then minus_errno px st1 else res, buf1, Some fi), st1))"

text \<open>\<^verbatim>\<open>fi->flush\<close> plays the stable flag of an NFS write.\<close>

definition nfs_write :: "'o posix \<Rightarrow> 'o local_state write_op" where
  "nfs_write px path buf n offset fi st =
     rbind (deref fi) (\<lambda>fi.
       case sys (px_pwrite px (int_of_fh (fi_fh fi)) buf n offset) st of (r, st1) \<Rightarrow>
         let res = int_of_ssize r
         in if res = -1 then Inr ((minus_errno px st1, Some fi), st1)
            else if fi_flush fi \<noteq> 0
            then (case sys (px_fsync px (int_of_fh (fi_fh fi))) st1 of (f, st2) \<Rightarrow>
              Inr ((if f = -1 then minus_errno px st2 else res, Some fi), st2))
            else Inr ((res, Some fi), st1))"

definition nfs_statfs :: "'o posix \<Rightarrow> path \<Rightarrow> statvfs \<Rightarrow> ('o local_state, int \<times> statvfs) action" where
  "nfs_statfs px path stbuf st =
     (case sys (px_statvfs px (new_path st path) stbuf) st of ((res, stbuf1), st1) \<Rightarrow>
        Inr ((if res = 0 then 0 else minus_errno px st1, stbuf1), st1))"

definition nfs_flush :: "'o posix \<Rightarrow> 'o local_state fi_op" where
  "nfs_flush px path fi st =
     rbind (deref fi) (\<lambda>fi.
       case zero_checked px (px_fsync px (int_of_fh (fi_fh fi))) st of (res, st1) \<Rightarrow> Inr ((res, Some fi), st1))"

definition nfs_release :: "'o posix \<Rightarrow> 'o local_state fi_op" where
  "nfs_release px path fi st =
     rbind (deref fi) (\<lambda>fi.
       case zero_checked px (px_close px (int_of_fh (fi_fh fi))) st of (res, st1) \<Rightarrow> Inr ((res, Some fi), st1))"

definition nfs_fsync :: "'o posix \<Rightarrow> path \<Rightarrow> int \<Rightarrow> fi_ptr \<Rightarrow> ('o local_state, int \<times> fi_ptr) action" where
  "nfs_fsync px path isdatasync fi st =
     rbind (deref fi) (\<lambda>fi.
       let fd = int_of_fh (fi_fh fi)
       in case zero_checked px (if isdatasync \<noteq> 0 then px_fdatasync px fd else px_fsync px fd) st of
            (res, st1) \<Rightarrow> Inr ((res, Some fi), st1))"

section \<open>The table\<close>

definition set_nfs_operations ::
  "'o posix \<Rightarrow> ('o local_state, 'd) fuse_operations \<Rightarrow> ('o local_state, 'd) fuse_operations"
where
  "set_nfs_operations px operations =
     operations\<lparr>op_init := Some nfs_init, op_destroy := Some nfs_destroy,
        op_getattr := Some (nfs_getattr px), op_fgetattr := Some (nfs_fgetattr px),
        op_access := Some (nfs_access px), op_readlink := Some (nfs_readlink px),
        op_opendir := Some (nfs_opendir px), op_readdir := Some (nfs_readdir px),
        op_releasedir := Some (nfs_releasedir px), op_mknod := Some (nfs_mknod px),
        op_mkdir := Some (nfs_mkdir px), op_symlink := Some (nfs_symlink px),
        op_unlink := Some (nfs_unlink px), op_rmdir := Some (nfs_rmdir px),
        op_rename := Some (nfs_rename px), op_link := Some (nfs_link px),
        op_chmod := Some (nfs_chmod px), op_chown := Some (nfs_chown px),
        op_truncate := Some (nfs_truncate px), op_ftruncate := Some (nfs_ftruncate px),
        op_utimens := Some (nfs_utimens px), op_create := Some (nfs_create px),
        op_open := Some (nfs_open px), op_read := Some (nfs_read px),
        op_write := Some (nfs_write px), op_statfs := Some (nfs_statfs px),
        op_flush := Some (nfs_flush px), op_release := Some (nfs_release px),
        op_fsync := Some (nfs_fsync px)\<rparr>"

definition assign_nfs_operations ::
  "'o posix \<Rightarrow> ('o local_state, 'd) fuse_operations \<Rightarrow> path \<Rightarrow> 'o local_state \<Rightarrow>
   ('o local_state, 'd) fuse_operations \<times> 'o local_state"
where
  "assign_nfs_operations px operations path st =
     (set_nfs_operations px operations, st\<lparr>lo_root_path := path\<rparr>)"

section \<open>Stable storage\<close>

text \<open>
  What it means for a path to be synced between two kernel states, for a change to be
  persisted, and the documented behaviour of the calls involved: -1 comes with a positive \<^verbatim>\<open>errno\<close>.
\<close>

definition synced :: "'o posix \<Rightarrow> path \<Rightarrow> 'o \<Rightarrow> 'o \<Rightarrow> bool" where
  "synced px p os os' \<longleftrightarrow>
     (\<exists>fd os1 f os2 c. px_open px p O_RDONLY None os = (fd, os1) \<and> fd \<noteq> -1 \<and>
        px_fsync px fd os1 = (f, os2) \<and> f \<noteq> -1 \<and> px_close px fd os2 = (c, os') \<and> c \<noteq> -1)"

fun synced_all :: "'o posix \<Rightarrow> path list \<Rightarrow> 'o \<Rightarrow> 'o \<Rightarrow> bool" where
  "synced_all px [] os os' \<longleftrightarrow> os' = os"
| "synced_all px (p # ps) os os' \<longleftrightarrow> (\<exists>os1. synced px p os os1 \<and> synced_all px ps os1 os')"

definition persisted :: "'o posix \<Rightarrow> ('o \<Rightarrow> int \<times> 'o) \<Rightarrow> path list \<Rightarrow> 'o \<Rightarrow> 'o \<Rightarrow> bool" where
  "persisted px call ps os os' \<longleftrightarrow> (\<exists>r os1. call os = (r, os1) \<and> r \<noteq> -1 \<and> synced_all px ps os1 os')"

definition kernel_reports :: "'o posix \<Rightarrow> bool" where
  "kernel_reports px \<longleftrightarrow>
     (\<forall>p fl m. reports px (px_open px p fl m)) \<and> (\<forall>fd. reports px (px_fsync px fd)) \<and>
     (\<forall>fd. reports px (px_close px fd)) \<and> (\<forall>p m. reports px (px_mkfifo px p m)) \<and>
     (\<forall>p m d. reports px (px_mknod px p m d)) \<and> (\<forall>p m. reports px (px_mkdir px p m)) \<and>
     (\<forall>p. reports px (px_unlink px p)) \<and> (\<forall>p. reports px (px_rmdir px p)) \<and>
     (\<forall>p q. reports px (px_symlink px p q)) \<and> (\<forall>p q. reports px (px_rename px p q)) \<and>
     (\<forall>p q. reports px (px_link px p q))"

lemma kernel_reportsD:
  assumes "kernel_reports px"
  shows "reports px (px_open px p fl m)" "reports px (px_fsync px fd)" "reports px (px_close px fd)"
    "reports px (px_mkfifo px p m')" "reports px (px_mknod px p m' dev)" "reports px (px_mkdir px p m')"
    "reports px (px_unlink px p)" "reports px (px_rmdir px p)" "reports px (px_symlink px p q)"
    "reports px (px_rename px p q)" "reports px (px_link px p q)"
  using assms by (simp_all add: kernel_reports_def)

lemma reportsD: "reports px call \<Longrightarrow> call os = (-1, os') \<Longrightarrow> 0 < px_errno px os'"
  unfolding reports_def by (metis fst_conv snd_conv)

text \<open>The result of \<^verbatim>\<open>sync_path\<close>: 0 when everything succeeded, negative otherwise.\<close>

lemma sync_path_cases:
  assumes "kernel_reports px" "sync_path px p st = (res, st')"
  shows "\<exists>os'. st' = st\<lparr>lo_os := os'\<rparr> \<and> (if res = 0 then synced px p (lo_os st) os' else res < 0)"
proof -
  obtain fd os1 where o: "px_open px p O_RDONLY None (lo_os st) = (fd, os1)" by fastforce
  obtain f os2 where f: "px_fsync px fd os1 = (f, os2)" by fastforce
  obtain c os3 where c: "px_close px fd os2 = (c, os3)" by fastforce
  have "fd = -1 \<Longrightarrow> 0 < px_errno px os1" "f = -1 \<Longrightarrow> 0 < px_errno px os2" "c = -1 \<Longrightarrow> 0 < px_errno px os3"
    using o f c assms(1) by (auto dest!: reportsD [rotated] simp: kernel_reportsD)
  then show ?thesis
    using assms(2) o f c by (auto simp: sync_path_def sys_def minus_errno_def synced_def split: if_splits)
qed

lemma sync_path_synced:
  assumes "kernel_reports px" "synced px p (lo_os st) os'"
  shows "sync_path px p st = (0, st\<lparr>lo_os := os'\<rparr>)"
  using assms(2) by (auto simp: synced_def sync_path_def sys_def)

lemma sync_paths_zero:
  assumes "kernel_reports px"
  shows "sync_paths px ps st = (0, st') \<longleftrightarrow> (\<exists>os'. synced_all px ps (lo_os st) os' \<and> st' = st\<lparr>lo_os := os'\<rparr>)"
proof (induction ps arbitrary: st)
  case Nil
  show ?case by auto
next
  case (Cons p ps)
  obtain res st1 where s: "sync_path px p st = (res, st1)" by fastforce
  obtain os1 where os1: "st1 = st\<lparr>lo_os := os1\<rparr>" "if res = 0 then synced px p (lo_os st) os1 else res < 0"
    using sync_path_cases [OF assms s] by blast
  show ?case
  proof (cases "res = 0")
    case True
    have eq: "os2 = os1" if "synced px p (lo_os st) os2" for os2
      using trans [OF sync_path_synced [OF assms that, symmetric] s]
      by (simp only: os1(1) prod.inject lo_os_update_inject)
    have "synced px p (lo_os st) os1"
      using os1(2) True by simp
    then have "(\<exists>os2. synced px p (lo_os st) os2 \<and> synced_all px ps os2 os') = synced_all px ps os1 os'" for os'
      using eq by blast
    then show ?thesis
      using True s Cons.IH [of st1] by (simp add: os1(1))
  next
    case False
    then have "\<not> synced px p (lo_os st) os2" for os2
      using sync_path_synced [OF assms] s by fastforce
    with False s os1(2) show ?thesis by auto
  qed
qed

lemma sync_paths_nonpos:
  assumes "kernel_reports px"
  shows "fst (sync_paths px ps st) \<le> 0"
proof (induction ps arbitrary: st)
  case (Cons p ps)
  then show ?case by (auto split: prod.splits)
qed simp

text \<open>The answer of a name-space operation is 0 exactly when the change is persisted.\<close>

lemma change_and_sync_zero:
  assumes "kernel_reports px" "reports px call"
  shows "change_and_sync px call ps st = Inr (0, st') \<longleftrightarrow>
     (\<exists>os'. persisted px call ps (lo_os st) os' \<and> st' = st\<lparr>lo_os := os'\<rparr>)"
proof -
  obtain r os1 where c: "call (lo_os st) = (r, os1)" by fastforce
  have "r = -1 \<Longrightarrow> 0 < px_errno px os1"
    using reportsD [OF assms(2)] c by auto
  then show ?thesis
    using c by (auto simp: change_and_sync_def sys_def persisted_def minus_errno_def sync_paths_zero [OF assms(1)])
qed

text \<open>File creation and writes: the file itself is synced through its own descriptor.\<close>

definition created :: "'o posix \<Rightarrow> path \<Rightarrow> 32 word \<Rightarrow> 32 word \<Rightarrow> int \<Rightarrow> 'o \<Rightarrow> 'o \<Rightarrow> bool" where
  "created px p flags mode fd os os' \<longleftrightarrow>
     (\<exists>os1 f os2. px_open px p flags (Some mode) os = (fd, os1) \<and> fd \<noteq> -1 \<and>
        px_fsync px fd os1 = (f, os2) \<and> f \<noteq> -1 \<and> synced px (fs_parent_path p) os2 os')"

lemma nfs_create_zero:
  assumes "kernel_reports px"
  shows "nfs_create px path mode (Some fi) st = Inr ((0, fi'), st') \<longleftrightarrow>
    (\<exists>fd os'. created px (new_path st path) (fi_flags (strip_direct fi)) mode fd (lo_os st) os' \<and>
       fi' = Some ((strip_direct fi)\<lparr>fi_fh := fh_of_int fd\<rparr>) \<and> st' = st\<lparr>lo_os := os'\<rparr>)"
proof -
  let ?p = "new_path st path"
  obtain fd os1 where o: "px_open px ?p (fi_flags (strip_direct fi)) (Some mode) (lo_os st) = (fd, os1)" by fastforce
  obtain f os2 where f: "px_fsync px fd os1 = (f, os2)" by fastforce
  have e: "fd = -1 \<Longrightarrow> 0 < px_errno px os1" "f = -1 \<Longrightarrow> 0 < px_errno px os2"
    using o f assms by (auto dest!: reportsD [rotated] simp: kernel_reportsD)
  have s: "sync_path px (fs_parent_path ?p) (st\<lparr>lo_os := os2\<rparr>) = (0, st') \<longleftrightarrow>
      (\<exists>os'. synced px (fs_parent_path ?p) os2 os' \<and> st' = st\<lparr>lo_os := os'\<rparr>)" for st'
    using sync_path_cases [OF assms, of "fs_parent_path ?p" "st\<lparr>lo_os := os2\<rparr>" 0 st']
      sync_path_synced [OF assms, of "fs_parent_path ?p" "st\<lparr>lo_os := os2\<rparr>"] by auto
  obtain res st3 where r: "sync_path px (fs_parent_path ?p) (st\<lparr>lo_os := os2\<rparr>) = (res, st3)" by fastforce
  have "res \<le> 0"
    using sync_path_cases [OF assms r] by (auto split: if_splits)
  then show ?thesis
    using o f e s [of st'] r
    by (auto simp: nfs_create_def Let_def sys_def minus_errno_def created_def split: if_splits)
qed

text \<open>
  C4. Synchronous name space (RFC 1813, quoted in the source). In \<^verbatim>\<open>nfs\<close> mode an operation that changes
  the name space answers 0 exactly when the change itself succeeded and afterwards every path
  that has to be stable - the object where it is a directory entry of its own, and the directories
  that hold its entries - was opened, flushed and closed without error, in that order and with
  nothing else done; creating a file also flushes the new file. The kernel is arbitrary up to
  setting \<^verbatim>\<open>errno\<close> on failure.
\<close>

theorem nfs_operations_durable:
  assumes "kernel_reports px"
  shows "(nfs_mkdir px path mode st = Inr (0, st') \<longleftrightarrow>
            (\<exists>os'. persisted px (px_mkdir px (new_path st path) mode)
               [new_path st path, fs_parent_path (new_path st path)] (lo_os st) os' \<and> st' = st\<lparr>lo_os := os'\<rparr>)) \<and>
         (nfs_mknod px path mode dev st = Inr (0, st') \<longleftrightarrow>
            (\<exists>os'. persisted px (if S_ISFIFO mode then px_mkfifo px (new_path st path) mode
                                else px_mknod px (new_path st path) mode dev)
               [fs_parent_path (new_path st path)] (lo_os st) os' \<and> st' = st\<lparr>lo_os := os'\<rparr>)) \<and>
         (nfs_unlink px path st = Inr (0, st') \<longleftrightarrow>
            (\<exists>os'. persisted px (px_unlink px (new_path st path))
               [fs_parent_path (new_path st path)] (lo_os st) os' \<and> st' = st\<lparr>lo_os := os'\<rparr>)) \<and>
         (nfs_rmdir px path st = Inr (0, st') \<longleftrightarrow>
            (\<exists>os'. persisted px (px_rmdir px (new_path st path))
               [fs_parent_path (new_path st path)] (lo_os st) os' \<and> st' = st\<lparr>lo_os := os'\<rparr>)) \<and>
         (nfs_symlink px path to st = Inr (0, st') \<longleftrightarrow>
            (\<exists>os'. persisted px (px_symlink px (new_path st path) (new_path st to))
               [fs_parent_path (new_path st to)] (lo_os st) os' \<and> st' = st\<lparr>lo_os := os'\<rparr>)) \<and>
         (nfs_rename px path to st = Inr (0, st') \<longleftrightarrow>
            (\<exists>os'. persisted px (px_rename px (new_path st path) (new_path st to))
               [new_path st to, fs_parent_path (new_path st path), fs_parent_path (new_path st to)]
               (lo_os st) os' \<and> st' = st\<lparr>lo_os := os'\<rparr>)) \<and>
         (nfs_link px path to st = Inr (0, st') \<longleftrightarrow>
            (\<exists>os'. persisted px (px_link px (new_path st path) (new_path st to))
               [new_path st path, new_path st to, fs_parent_path (new_path st path),
                fs_parent_path (new_path st to)] (lo_os st) os' \<and> st' = st\<lparr>lo_os := os'\<rparr>)) \<and>
         (nfs_create px path mode (Some fi) st = Inr ((0, fi'), st') \<longleftrightarrow>
            (\<exists>fd os'. created px (new_path st path) (fi_flags (strip_direct fi)) mode fd (lo_os st) os' \<and>
               fi' = Some ((strip_direct fi)\<lparr>fi_fh := fh_of_int fd\<rparr>) \<and> st' = st\<lparr>lo_os := os'\<rparr>))"
proof -
  note r = kernel_reportsD [OF assms]
  note c = change_and_sync_zero [OF assms]
  have "reports px (if S_ISFIFO mode then px_mkfifo px p mode else px_mknod px p mode dev)" for p
    by (simp add: r)
  note k = c [OF this]
  show ?thesis
    unfolding nfs_mkdir_def nfs_mknod_def nfs_unlink_def nfs_rmdir_def nfs_symlink_def nfs_rename_def nfs_link_def Let_def
    by (intro conjI k c r nfs_create_zero [OF assms])
qed

lemma steady_kernel_reports: "kernel_reports (steady_kernel ents)"
  by (simp add: kernel_reports_def reports_def steady_kernel_def)

theorem nfs_operations_durable_witness:
  "persisted (steady_kernel []) (px_mkdir (steady_kernel []) ''/srv/d'' 0x1ED) [''/srv/d'', ''/srv''] 0 0"
proof -
  have "fs_parent_path ''/srv/d'' = ''/srv''"
    by (simp add: fs_parent_path_def)
  moreover have "nfs_mkdir (steady_kernel []) ''/d'' 0x1ED (idle_state ''/srv'') = Inr (0, idle_state ''/srv'')"
    by (simp add: nfs_mkdir_def change_and_sync_def sync_path_def sys_def idle_state_def new_path_def steady_kernel_def)
  ultimately show ?thesis
    using nfs_operations_durable [OF steady_kernel_reports [of "[]"], of "''/d''" "0x1ED" "idle_state ''/srv''" "idle_state ''/srv''"]
    by (auto simp: idle_state_def new_path_def)
qed

section \<open>The two modes compared\<close>

lemma nfs_loop_of_local_loop:
  "local_readdir_loop px filler buf d st = Some r \<Longrightarrow> nfs_readdir_loop px filler buf d st = Some r"
  by (rule local_readdir_loop.raw_induct [where P = "\<lambda>px filler buf d st r. nfs_readdir_loop px filler buf d st = Some r"])
     (subst nfs_readdir_loop.simps, auto split: option.splits prod.splits if_splits)

lemma local_loop_of_nfs_loop:
  "nfs_readdir_loop px filler buf d st = Some r \<Longrightarrow> local_readdir_loop px filler buf d st = Some r"
  by (rule nfs_readdir_loop.raw_induct [where P = "\<lambda>px filler buf d st r. local_readdir_loop px filler buf d st = Some r"])
     (subst local_readdir_loop.simps, auto split: option.splits prod.splits if_splits)

lemma nfs_readdir_loop_eq: "nfs_readdir_loop px filler buf d st = local_readdir_loop px filler buf d st"
  by (metis local_loop_of_nfs_loop nfs_loop_of_local_loop not_None_eq)

text \<open>Documented behaviour: these calls return 0 or -1.\<close>

definition kernel_binary :: "'o posix \<Rightarrow> bool" where
  "kernel_binary px \<longleftrightarrow>
     (\<forall>p b os. fst (fst (px_lstat px p b os)) \<in> {0, -1}) \<and>
     (\<forall>p b os. fst (fst (px_statvfs px p b os)) \<in> {0, -1}) \<and>
     (\<forall>p m. zero_or_minus_one (px_access px p m)) \<and> (\<forall>p m. zero_or_minus_one (px_chmod px p m)) \<and>
     (\<forall>p u g. zero_or_minus_one (px_lchown px p u g)) \<and> (\<forall>p n. zero_or_minus_one (px_truncate px p n)) \<and>
     (\<forall>fd n. zero_or_minus_one (px_ftruncate px fd n))"

text \<open>
  The two modes of the local layer are the same file system: over a kernel whose status calls
  return 0 or -1, the operations that have no durability to add - attributes, access, links,
  directory reading, permissions, ownership, truncation, and opening and reading through an open
  file without \<^verbatim>\<open>O_DIRECT\<close> - have the same result, buffers and effect in \<^verbatim>\<open>local\<close> and in \<^verbatim>\<open>nfs\<close> mode.
\<close>

theorem local_nfs_agree:
  assumes "kernel_binary px" "int_of_fh (fi_fh fi) \<noteq> -1"
    "and (fi_flags fi) O_DIRECT = 0"
  shows "nfs_getattr px path b st = local_getattr px path b st \<and>
    nfs_access px path m st = local_access px path m st \<and>
    nfs_readlink px path lbuf n st = local_readlink px path lbuf n st \<and>
    nfs_opendir px path (Some fi) st = local_opendir px path (Some fi) st \<and>
    nfs_readdir px path dbuf filler off (Some fi) st = local_readdir px path dbuf filler off (Some fi) st \<and>
    nfs_chmod px path mode st = local_chmod px path mode st \<and>
    nfs_chown px path uid gid st = local_chown px path uid gid st \<and>
    nfs_truncate px path len st = local_truncate px path len st \<and>
    nfs_ftruncate px path len (Some fi) st = local_ftruncate px path len (Some fi) st \<and>
    nfs_statfs px path vb st = local_statfs px path vb st \<and>
    nfs_open px path (Some fi) st = local_open px path (Some fi) st \<and>
    nfs_read px path rbuf k off (Some fi) st = local_read px path rbuf k off (Some fi) st"
proof (intro conjI)
  note k = assms(1) [unfolded kernel_binary_def]
  have bin: "(if r = (0 :: int) then 0 else e) = (if r = -1 then e else 0)" if "r \<in> {0, -1}" for r and e :: int
    using that by auto
  show "nfs_getattr px path b st = local_getattr px path b st"
    using k by (simp add: nfs_getattr_def local_getattr_def sys_def split_beta bin)
  show "nfs_statfs px path vb st = local_statfs px path vb st"
    using k by (simp add: nfs_statfs_def local_statfs_def sys_def split_beta bin)
  show "nfs_access px path m st = local_access px path m st"
    using k by (simp add: nfs_access_def local_access_def checked_zero_checked)
  show "nfs_chmod px path mode st = local_chmod px path mode st"
    using k by (simp add: nfs_chmod_def local_chmod_def checked_zero_checked)
  show "nfs_chown px path uid gid st = local_chown px path uid gid st"
    using k by (simp add: nfs_chown_def local_chown_def checked_zero_checked)
  show "nfs_truncate px path len st = local_truncate px path len st"
    using k by (simp add: nfs_truncate_def local_truncate_def checked_zero_checked)
  show "nfs_ftruncate px path len (Some fi) st = local_ftruncate px path len (Some fi) st"
    using k by (simp add: nfs_ftruncate_def local_ftruncate_def checked_zero_checked)
  show "nfs_readlink px path lbuf n st = local_readlink px path lbuf n st"
    by (simp add: nfs_readlink_def local_readlink_def)
  show "nfs_opendir px path (Some fi) st = local_opendir px path (Some fi) st"
    by (simp add: nfs_opendir_def local_opendir_def)
  show "nfs_readdir px path dbuf filler off (Some fi) st = local_readdir px path dbuf filler off (Some fi) st"
    by (simp add: nfs_readdir_def local_readdir_def nfs_readdir_loop_eq)
  show "nfs_open px path (Some fi) st = local_open px path (Some fi) st"
    using assms(3) by (simp add: nfs_open_def local_open_def strip_direct_def)
  show "nfs_read px path rbuf k off (Some fi) st = local_read px path rbuf k off (Some fi) st"
    using assms(2) by (simp add: nfs_read_def local_read_def open_fd_def close_fd_def Let_def split_beta)
qed

theorem local_nfs_agree_witness:
  "nfs_truncate (steady_kernel []) ''/f'' 10 (idle_state ''/srv'') = Inr (0, idle_state ''/srv'')"
proof -
  have k: "kernel_binary (steady_kernel [])"
    by (simp add: kernel_binary_def zero_or_minus_one_def steady_kernel_def)
  have fh: "int_of_fh (fi_fh zero_file_info) \<noteq> -1" "and (fi_flags zero_file_info) O_DIRECT = 0"
    by (simp_all add: int_of_fh_def zero_file_info_def)
  note agree = local_nfs_agree [OF k fh, THEN conjunct2, THEN conjunct2, THEN conjunct2, THEN conjunct2,
      THEN conjunct2, THEN conjunct2, THEN conjunct2, THEN conjunct1]
  show ?thesis
    by (simp add: agree local_truncate_def checked_def sys_def) (simp add: steady_kernel_def idle_state_def)
qed

end
