(* ===== verification/Rpc_Client_Layer.thy ===== *)
theory Rpc_Client_Layer
  imports Async_Client
begin

text \<open>
  \<^verbatim>\<open>src/lib/layers/rpc_client/rpc_client.cpp\<close>: the bottom layer of a client stack. It owns a client
  object, synchronous or asynchronous after its configuration, and forwards every operation to
  the object's method of the same name. The methods come as a table; \<open>sync_client_methods\<close> is the
  table of \<^verbatim>\<open>fuse_rpc::grpc::sync_client\<close>.
\<close>

section \<open>State\<close>

text \<open>\<^verbatim>\<open>fuse_rpc::client::config\<close> and its two subclasses.\<close>

datatype client_config = Sync_config string | Async_config string async_config

record 'c rpc_layer =
  rc_config :: "client_config option"
  rc_client :: "'c option"

text \<open>\<^verbatim>\<open>fuse_rpc::client\<close> has one pure virtual method per operation; \<open>'c\<close> is the object.\<close>

type_synonym ('c, 'd) client_methods = "('c, 'd) fuse_operations"

section \<open>Operations\<close>

text \<open>\<^verbatim>\<open>new async_client(*config)\<close> or \<^verbatim>\<open>new sync_client(*config)\<close>, by \<^verbatim>\<open>dynamic_cast\<close>; a null configuration is neither.\<close>

definition rpc_client_init :: "(client_config \<Rightarrow> 'c) \<Rightarrow> ('c rpc_layer, unit) action" where
  "rpc_client_init new_client st =
     (case rc_config st of
        None \<Rightarrow> Inr ((), st)
      | Some cfg \<Rightarrow> Inr ((), st\<lparr>rc_client := Some (new_client cfg)\<rparr>))"

definition rpc_client_destroy :: "('c rpc_layer, unit) action" where
  "rpc_client_destroy st = Inr ((), st\<lparr>rc_client := None, rc_config := None\<rparr>)"

text \<open>\<^verbatim>\<open>client->method(...)\<close>\<close>

definition via_client :: "'f option \<Rightarrow> ('f \<Rightarrow> ('c, 'a) action) \<Rightarrow> ('c rpc_layer, 'a) action" where
  "via_client method call st =
     rbind (deref (rc_client st)) (\<lambda>c. rbind (fn method) (\<lambda>f. rbind (call f c) (\<lambda>(a, c1).
       Inr (a, st\<lparr>rc_client := Some c1\<rparr>))))"

definition rpc_client_getattr :: "('c, 'd) client_methods \<Rightarrow> 'c rpc_layer getattr_op" where
  "rpc_client_getattr client path stbuf = via_client (op_getattr client) (\<lambda>f. f path stbuf)"

definition rpc_client_fgetattr :: "('c, 'd) client_methods \<Rightarrow> 'c rpc_layer fgetattr_op" where
  "rpc_client_fgetattr client path stbuf fi = via_client (op_fgetattr client) (\<lambda>f. f path stbuf fi)"

definition rpc_client_access :: "('c, 'd) client_methods \<Rightarrow> path \<Rightarrow> int \<Rightarrow> ('c rpc_layer, int) action" where
  "rpc_client_access client path amode = via_client (op_access client) (\<lambda>f. f path amode)"

definition rpc_client_readlink :: "('c, 'd) client_methods \<Rightarrow> 'c rpc_layer readlink_op" where
  "rpc_client_readlink client path buf n = via_client (op_readlink client) (\<lambda>f. f path buf n)"

definition rpc_client_opendir :: "('c, 'd) client_methods \<Rightarrow> 'c rpc_layer fi_op" where
  "rpc_client_opendir client path fi = via_client (op_opendir client) (\<lambda>f. f path fi)"

definition rpc_client_readdir :: "('c, 'd) client_methods \<Rightarrow> ('c rpc_layer, 'd) readdir_op" where
  "rpc_client_readdir client path buf filler offset fi = via_client (op_readdir client) (\<lambda>f. f path buf filler offset fi)"

definition rpc_client_releasedir :: "('c, 'd) client_methods \<Rightarrow> 'c rpc_layer fi_op" where
  "rpc_client_releasedir client path fi = via_client (op_releasedir client) (\<lambda>f. f path fi)"

definition rpc_client_mknod :: "('c, 'd) client_methods \<Rightarrow> path \<Rightarrow> 32 word \<Rightarrow> 64 word \<Rightarrow> ('c rpc_layer, int) action" where
  "rpc_client_mknod client path mode rdev = via_client (op_mknod client) (\<lambda>f. f path mode rdev)"

definition rpc_client_mkdir :: "('c, 'd) client_methods \<Rightarrow> path \<Rightarrow> 32 word \<Rightarrow> ('c rpc_layer, int) action" where
  "rpc_client_mkdir client path mode = via_client (op_mkdir client) (\<lambda>f. f path mode)"

definition rpc_client_symlink :: "('c, 'd) client_methods \<Rightarrow> 'c rpc_layer path2_op" where
  "rpc_client_symlink client from to = via_client (op_symlink client) (\<lambda>f. f from to)"

definition rpc_client_unlink :: "('c, 'd) client_methods \<Rightarrow> 'c rpc_layer path_op" where
  "rpc_client_unlink client path = via_client (op_unlink client) (\<lambda>f. f path)"

definition rpc_client_rmdir :: "('c, 'd) client_methods \<Rightarrow> 'c rpc_layer path_op" where
  "rpc_client_rmdir client path = via_client (op_rmdir client) (\<lambda>f. f path)"

definition rpc_client_rename :: "('c, 'd) client_methods \<Rightarrow> 'c rpc_layer path2_op" where
  "rpc_client_rename client from to = via_client (op_rename client) (\<lambda>f. f from to)"

definition rpc_client_link :: "('c, 'd) client_methods \<Rightarrow> 'c rpc_layer path2_op" where
  "rpc_client_link client from to = via_client (op_link client) (\<lambda>f. f from to)"

definition rpc_client_chmod :: "('c, 'd) client_methods \<Rightarrow> path \<Rightarrow> 32 word \<Rightarrow> ('c rpc_layer, int) action" where
  "rpc_client_chmod client path mode = via_client (op_chmod client) (\<lambda>f. f path mode)"

definition rpc_client_chown :: "('c, 'd) client_methods \<Rightarrow> path \<Rightarrow> 32 word \<Rightarrow> 32 word \<Rightarrow> ('c rpc_layer, int) action" where
  "rpc_client_chown client path uid gid = via_client (op_chown client) (\<lambda>f. f path uid gid)"

definition rpc_client_truncate :: "('c, 'd) client_methods \<Rightarrow> path \<Rightarrow> int \<Rightarrow> ('c rpc_layer, int) action" where
  "rpc_client_truncate client path len = via_client (op_truncate client) (\<lambda>f. f path len)"

definition rpc_client_ftruncate :: "('c, 'd) client_methods \<Rightarrow> path \<Rightarrow> int \<Rightarrow> fi_ptr \<Rightarrow> ('c rpc_layer, int \<times> fi_ptr) action" where
  "rpc_client_ftruncate client path len fi = via_client (op_ftruncate client) (\<lambda>f. f path len fi)"

definition rpc_client_utimens :: "('c, 'd) client_methods \<Rightarrow> path \<Rightarrow> timespec \<Rightarrow> timespec \<Rightarrow> ('c rpc_layer, int) action" where
  "rpc_client_utimens client path ts0 ts1 = via_client (op_utimens client) (\<lambda>f. f path ts0 ts1)"

definition rpc_client_create :: "('c, 'd) client_methods \<Rightarrow> path \<Rightarrow> 32 word \<Rightarrow> fi_ptr \<Rightarrow> ('c rpc_layer, int \<times> fi_ptr) action" where
  "rpc_client_create client path mode fi = via_client (op_create client) (\<lambda>f. f path mode fi)"

definition rpc_client_open :: "('c, 'd) client_methods \<Rightarrow> 'c rpc_layer fi_op" where
  "rpc_client_open client path fi = via_client (op_open client) (\<lambda>f. f path fi)"

definition rpc_client_read :: "('c, 'd) client_methods \<Rightarrow> 'c rpc_layer read_op" where
  "rpc_client_read client path buf n offset fi = via_client (op_read client) (\<lambda>f. f path buf n offset fi)"

definition rpc_client_write :: "('c, 'd) client_methods \<Rightarrow> 'c rpc_layer write_op" where
  "rpc_client_write client path buf n offset fi = via_client (op_write client) (\<lambda>f. f path buf n offset fi)"

definition rpc_client_statfs :: "('c, 'd) client_methods \<Rightarrow> path \<Rightarrow> statvfs \<Rightarrow> ('c rpc_layer, int \<times> statvfs) action" where
  "rpc_client_statfs client path stbuf = via_client (op_statfs client) (\<lambda>f. f path stbuf)"

definition rpc_client_flush :: "('c, 'd) client_methods \<Rightarrow> 'c rpc_layer fi_op" where
  "rpc_client_flush client path fi = via_client (op_flush client) (\<lambda>f. f path fi)"

definition rpc_client_release :: "('c, 'd) client_methods \<Rightarrow> 'c rpc_layer fi_op" where
  "rpc_client_release client path fi = via_client (op_release client) (\<lambda>f. f path fi)"

definition rpc_client_fsync :: "('c, 'd) client_methods \<Rightarrow> path \<Rightarrow> int \<Rightarrow> fi_ptr \<Rightarrow> ('c rpc_layer, int \<times> fi_ptr) action" where
  "rpc_client_fsync client path isdatasync fi = via_client (op_fsync client) (\<lambda>f. f path isdatasync fi)"

definition rpc_client_fallocate :: "('c, 'd) client_methods \<Rightarrow> path \<Rightarrow> int \<Rightarrow> int \<Rightarrow> int \<Rightarrow> fi_ptr \<Rightarrow> ('c rpc_layer, int \<times> fi_ptr) action" where
  "rpc_client_fallocate client path mode offset len fi = via_client (op_fallocate client) (\<lambda>f. f path mode offset len fi)"

definition rpc_client_setxattr :: "('c, 'd) client_methods \<Rightarrow> path \<Rightarrow> string \<Rightarrow> bytes \<Rightarrow> nat \<Rightarrow> int \<Rightarrow> ('c rpc_layer, int) action" where
  "rpc_client_setxattr client path name val n flags = via_client (op_setxattr client) (\<lambda>f. f path name val n flags)"

definition rpc_client_getxattr :: "('c, 'd) client_methods \<Rightarrow> path \<Rightarrow> string \<Rightarrow> bytes \<Rightarrow> nat \<Rightarrow> ('c rpc_layer, int \<times> bytes) action" where
  "rpc_client_getxattr client path name val n = via_client (op_getxattr client) (\<lambda>f. f path name val n)"

definition rpc_client_listxattr :: "('c, 'd) client_methods \<Rightarrow> path \<Rightarrow> bytes \<Rightarrow> nat \<Rightarrow> ('c rpc_layer, int \<times> bytes) action" where
  "rpc_client_listxattr client path buf n = via_client (op_listxattr client) (\<lambda>f. f path buf n)"

definition rpc_client_removexattr :: "('c, 'd) client_methods \<Rightarrow> path \<Rightarrow> string \<Rightarrow> ('c rpc_layer, int) action" where
  "rpc_client_removexattr client path name = via_client (op_removexattr client) (\<lambda>f. f path name)"

section \<open>The table\<close>

text \<open>The entries for \<^verbatim>\<open>fallocate\<close> and the extended attributes are commented out in the source.\<close>

definition rpc_client_init_layer :: "(client_config \<Rightarrow> 'c) \<Rightarrow> ('c, 'd) client_methods
    \<Rightarrow> ('c rpc_layer, 'd) fuse_operations \<Rightarrow> ('c rpc_layer, 'd) fuse_operations" where
  "rpc_client_init_layer new_client client operations =
     operations\<lparr>op_init := Some (rpc_client_init new_client), op_destroy := Some rpc_client_destroy,
       op_getattr := Some (rpc_client_getattr client), op_fgetattr := Some (rpc_client_fgetattr client),
       op_access := Some (rpc_client_access client), op_readlink := Some (rpc_client_readlink client),
       op_opendir := Some (rpc_client_opendir client), op_readdir := Some (rpc_client_readdir client),
       op_releasedir := Some (rpc_client_releasedir client), op_mknod := Some (rpc_client_mknod client),
       op_mkdir := Some (rpc_client_mkdir client), op_symlink := Some (rpc_client_symlink client),
       op_unlink := Some (rpc_client_unlink client), op_rmdir := Some (rpc_client_rmdir client),
       op_rename := Some (rpc_client_rename client), op_link := Some (rpc_client_link client),
       op_chmod := Some (rpc_client_chmod client), op_chown := Some (rpc_client_chown client),
       op_truncate := Some (rpc_client_truncate client), op_ftruncate := Some (rpc_client_ftruncate client),
       op_utimens := Some (rpc_client_utimens client), op_create := Some (rpc_client_create client),
       op_open := Some (rpc_client_open client), op_read := Some (rpc_client_read client),
       op_write := Some (rpc_client_write client), op_statfs := Some (rpc_client_statfs client),
       op_flush := Some (rpc_client_flush client), op_release := Some (rpc_client_release client),
       op_fsync := Some (rpc_client_fsync client)\<rparr>"

section \<open>The synchronous client\<close>

definition sync_client_methods :: "('n, 'h) stub \<Rightarrow> (('n, 'h) client_state, 'd) client_methods" where
  "sync_client_methods stub = null_operations\<lparr>
     op_getattr := Some (sc_getattr stub), op_fgetattr := Some (sc_fgetattr stub), op_access := Some (sc_access stub),
     op_readlink := Some (sc_readlink stub), op_opendir := Some (sc_opendir stub), op_readdir := Some (sc_readdir stub),
     op_releasedir := Some (sc_releasedir stub), op_mknod := Some (sc_mknod stub), op_mkdir := Some (sc_mkdir stub),
     op_symlink := Some (sc_symlink stub), op_unlink := Some (sc_unlink stub), op_rmdir := Some (sc_rmdir stub),
     op_rename := Some (sc_rename stub), op_link := Some (sc_link stub), op_chmod := Some (sc_chmod stub),
     op_chown := Some (sc_chown stub), op_truncate := Some (sc_truncate stub), op_ftruncate := Some (sc_ftruncate stub),
     op_utimens := Some (sc_utimens stub), op_create := Some (sc_create stub), op_open := Some (sc_open stub),
     op_read := Some (sc_read stub), op_write := Some (sc_write stub), op_statfs := Some (sc_statfs stub),
     op_flush := Some (sc_flush stub), op_release := Some (sc_release stub), op_fsync := Some (sc_fsync stub),
     op_fallocate := Some (sc_fallocate stub), op_setxattr := Some (sc_setxattr stub), op_getxattr := Some (sc_getxattr stub),
     op_listxattr := Some (sc_listxattr stub), op_removexattr := Some (sc_removexattr stub)\<rparr>"

end
