(* ===== verification/Table_Types.thy ===== *)
theory Table_Types
  imports Nfs_Ops Rpc_Client_Layer Call_Objects
begin

text \<open>
  Tables of operations as types: which pointers of a \<open>fuse_operations\<close> a table fills, and which ones
  the procedures of the server and the layer of the client call.
\<close>

section \<open>The pointer behind a procedure\<close>

fun implemented :: "('s, 'd) fuse_operations \<Rightarrow> rpc_method \<Rightarrow> bool" where
  "implemented ops RPC_Getattr \<longleftrightarrow> op_getattr ops \<noteq> None"
| "implemented ops RPC_Fgetattr \<longleftrightarrow> op_fgetattr ops \<noteq> None"
| "implemented ops RPC_Access \<longleftrightarrow> op_access ops \<noteq> None"
| "implemented ops RPC_Readlink \<longleftrightarrow> op_readlink ops \<noteq> None"
| "implemented ops RPC_Opendir \<longleftrightarrow> op_opendir ops \<noteq> None"
| "implemented ops RPC_Readdir \<longleftrightarrow> op_readdir ops \<noteq> None"
| "implemented ops RPC_Releasedir \<longleftrightarrow> op_releasedir ops \<noteq> None"
| "implemented ops RPC_Mknod \<longleftrightarrow> op_mknod ops \<noteq> None"
| "implemented ops RPC_Mkdir \<longleftrightarrow> op_mkdir ops \<noteq> None"
| "implemented ops RPC_Symlink \<longleftrightarrow> op_symlink ops \<noteq> None"
| "implemented ops RPC_Unlink \<longleftrightarrow> op_unlink ops \<noteq> None"
| "implemented ops RPC_Rmdir \<longleftrightarrow> op_rmdir ops \<noteq> None"
| "implemented ops RPC_Rename \<longleftrightarrow> op_rename ops \<noteq> None"
| "implemented ops RPC_Link \<longleftrightarrow> op_link ops \<noteq> None"
| "implemented ops RPC_Chmod \<longleftrightarrow> op_chmod ops \<noteq> None"
| "implemented ops RPC_Chown \<longleftrightarrow> op_chown ops \<noteq> None"
| "implemented ops RPC_Truncate \<longleftrightarrow> op_truncate ops \<noteq> None"
| "implemented ops RPC_Ftruncate \<longleftrightarrow> op_ftruncate ops \<noteq> None"
| "implemented ops RPC_Utimens \<longleftrightarrow> op_utimens ops \<noteq> None"
| "implemented ops RPC_Create \<longleftrightarrow> op_create ops \<noteq> None"
| "implemented ops RPC_Open \<longleftrightarrow> op_open ops \<noteq> None"
| "implemented ops RPC_Read \<longleftrightarrow> op_read ops \<noteq> None"
| "implemented ops RPC_Write \<longleftrightarrow> op_write ops \<noteq> None"
| "implemented ops RPC_Statfs \<longleftrightarrow> op_statfs ops \<noteq> None"
| "implemented ops RPC_Flush \<longleftrightarrow> op_flush ops \<noteq> None"
| "implemented ops RPC_Release \<longleftrightarrow> op_release ops \<noteq> None"
| "implemented ops RPC_Fsync \<longleftrightarrow> op_fsync ops \<noteq> None"
| "implemented ops RPC_Fallocate \<longleftrightarrow> op_fallocate ops \<noteq> None"
| "implemented ops RPC_Setxattr \<longleftrightarrow> op_setxattr ops \<noteq> None"
| "implemented ops RPC_Getxattr \<longleftrightarrow> op_getxattr ops \<noteq> None"
| "implemented ops RPC_Listxattr \<longleftrightarrow> op_listxattr ops \<noteq> None"
| "implemented ops RPC_Removexattr \<longleftrightarrow> op_removexattr ops \<noteq> None"
| "implemented ops RPC_StreamRead \<longleftrightarrow> op_read ops \<noteq> None"
| "implemented ops RPC_StreamWrite \<longleftrightarrow> op_write ops \<noteq> None"
| "implemented ops RPC_ACStreamWrite \<longleftrightarrow> op_write ops \<noteq> None"
| "implemented ops RPC_GetattrCompound \<longleftrightarrow> False"

text \<open>The procedures a client can cause to be called: its layer leaves the other entries out of its table.\<close>

definition client_procedures :: "rpc_method set" where
  "client_procedures = set registered_methods -
     {RPC_Fallocate, RPC_Setxattr, RPC_Getxattr, RPC_Listxattr, RPC_Removexattr}"

lemma client_procedures_simp: "m \<in> client_procedures \<longleftrightarrow>
    m \<notin> {RPC_Fallocate, RPC_Setxattr, RPC_Getxattr, RPC_Listxattr, RPC_Removexattr, RPC_GetattrCompound}"
  by (cases m) (simp_all add: client_procedures_def registered_methods_def)

text \<open>A call through a null pointer is what executing a request of a missing procedure amounts to.\<close>

lemma null_process:
  "op_getattr ops = None \<Longrightarrow> getattr_process ops q1 s = Inl Null_call"
  "op_fgetattr ops = None \<Longrightarrow> fgetattr_process ops q2 s = Inl Null_call"
  "op_access ops = None \<Longrightarrow> access_process ops q3 s = Inl Null_call"
  "op_readlink ops = None \<Longrightarrow> readlink_process ops q4 s = Inl Null_call"
  "op_opendir ops = None \<Longrightarrow> opendir_process ops q5 s = Inl Null_call"
  "op_readdir ops = None \<Longrightarrow> readdir_process ops q6 s = Inl Null_call"
  "op_releasedir ops = None \<Longrightarrow> releasedir_process ops q7 s = Inl Null_call"
  "op_mknod ops = None \<Longrightarrow> mknod_process ops q8 s = Inl Null_call"
  "op_mkdir ops = None \<Longrightarrow> mkdir_process ops q9 s = Inl Null_call"
  "op_symlink ops = None \<Longrightarrow> symlink_process ops q10 s = Inl Null_call"
  "op_unlink ops = None \<Longrightarrow> unlink_process ops q11 s = Inl Null_call"
  "op_rmdir ops = None \<Longrightarrow> rmdir_process ops q12 s = Inl Null_call"
  "op_rename ops = None \<Longrightarrow> rename_process ops q13 s = Inl Null_call"
  "op_link ops = None \<Longrightarrow> link_process ops q14 s = Inl Null_call"
  "op_chmod ops = None \<Longrightarrow> chmod_process ops q15 s = Inl Null_call"
  "op_chown ops = None \<Longrightarrow> chown_process ops q16 s = Inl Null_call"
  "op_truncate ops = None \<Longrightarrow> truncate_process ops q17 s = Inl Null_call"
  "op_ftruncate ops = None \<Longrightarrow> ftruncate_process ops q18 s = Inl Null_call"
  "op_utimens ops = None \<Longrightarrow> utimens_process ops q19 s = Inl Null_call"
  "op_create ops = None \<Longrightarrow> create_process ops q20 s = Inl Null_call"
  "op_open ops = None \<Longrightarrow> open_process ops q21 s = Inl Null_call"
  "op_read ops = None \<Longrightarrow> read_process ops q22 s = Inl Null_call"
  "op_write ops = None \<Longrightarrow> write_process ops q23 s = Inl Null_call"
  "op_statfs ops = None \<Longrightarrow> statfs_process ops q24 s = Inl Null_call"
  "op_flush ops = None \<Longrightarrow> flush_process ops q25 s = Inl Null_call"
  "op_release ops = None \<Longrightarrow> release_process ops q26 s = Inl Null_call"
  "op_fsync ops = None \<Longrightarrow> fsync_process ops q27 s = Inl Null_call"
  "op_fallocate ops = None \<Longrightarrow> fallocate_process ops q28 s = Inl Null_call"
  "op_setxattr ops = None \<Longrightarrow> setxattr_process ops q29 s = Inl Null_call"
  "op_getxattr ops = None \<Longrightarrow> getxattr_process ops q30 s = Inl Null_call"
  "op_listxattr ops = None \<Longrightarrow> listxattr_process ops q31 s = Inl Null_call"
  "op_removexattr ops = None \<Longrightarrow> removexattr_process ops q32 s = Inl Null_call"
  by (cases q1, simp, cases q2, simp, cases q3, simp, cases q4, simp, cases q5, simp,
      cases q6, simp, cases q7, simp, cases q8, simp, cases q9, simp, cases q10, simp,
      cases q11, simp, cases q12, simp, cases q13, simp, cases q14, simp, cases q15, simp,
      cases q16, simp, cases q17, simp, cases q18, simp, cases q19, simp, cases q20, simp,
      cases q21, simp, cases q22, simp add: read_process_def write_process_def,
      cases q23, simp add: read_process_def write_process_def, cases q24, simp, cases q25, simp,
      cases q26, simp, cases q27, simp, cases q28, simp, cases q29, simp, cases q30, simp,
      cases q31, simp, cases q32, simp)

lemma null_stream:
  "op_read ops = None \<Longrightarrow> read_into ops q1 b s = Inl Null_call" "op_write ops = None \<Longrightarrow> write_from ops q2 s = Inl Null_call"
  by (cases q1, simp, cases q2, simp)

lemma proceed_unimplemented:
  "executes ok obj \<Longrightarrow> \<not> implemented ops (class_of obj) \<Longrightarrow> proceed ops ok obj s = Inl Null_call"
  by (cases obj; simp add: object_simps null_process null_stream)

section \<open>Properties\<close>

text \<open>
  C14. The tables have the types their callers need, with one exception. A client's layer fills
  exactly the pointers of the procedures it can call; the table of the local layer in \<^verbatim>\<open>nfs\<close> mode
  fills the same ones, so that such a server never calls a null pointer for a client; in local
  mode \<^verbatim>\<open>utimens\<close> is missing. A call object that executes a request of a missing procedure
  calls a null pointer, whatever the request.
\<close>

theorem tables_fit_procedures:
  "(\<forall>m. implemented (rpc_client_init_layer new_client client null_operations) m \<longleftrightarrow> m \<in> client_procedures) \<and>
   (\<forall>m. implemented (set_nfs_operations px null_operations) m \<longleftrightarrow> m \<in> client_procedures) \<and>
   (\<forall>m. implemented (set_local_operations px null_operations) m \<longleftrightarrow> m \<in> client_procedures \<and> m \<noteq> RPC_Utimens) \<and>
   (\<forall>ok obj s. executes ok obj \<longrightarrow> \<not> implemented ops (class_of obj) \<longrightarrow> proceed ops ok obj s = Inl Null_call)"
proof (intro conjI allI impI)
  fix m
  show "implemented (rpc_client_init_layer new_client client null_operations) m \<longleftrightarrow> m \<in> client_procedures"
    by (cases m; simp add: client_procedures_simp rpc_client_init_layer_def null_operations_def)
  show "implemented (set_nfs_operations px null_operations) m \<longleftrightarrow> m \<in> client_procedures"
    by (cases m; simp add: client_procedures_simp set_nfs_operations_def null_operations_def)
  show "implemented (set_local_operations px null_operations) m \<longleftrightarrow> m \<in> client_procedures \<and> m \<noteq> RPC_Utimens"
    by (cases m; simp add: client_procedures_simp set_local_operations_def null_operations_def)
qed (rule proceed_unimplemented)

theorem tables_fit_procedures_witness:
  "proceed (set_local_operations (steady_kernel []) null_operations) True (fst (utimens_data_new 0)) (idle_state ''/srv'') =
     Inl Null_call \<and> RPC_Utimens \<in> client_procedures"
proof -
  let ?ops = "set_local_operations (steady_kernel []) null_operations" and ?obj = "fst (utimens_data_new 0)"
  have "executes True ?obj \<and> \<not> implemented ?ops (class_of ?obj)"
    by (simp add: data_new_defs set_local_operations_def null_operations_def)
  then have "proceed ?ops True ?obj (idle_state ''/srv'') = Inl Null_call"
    using tables_fit_procedures [where ops = ?ops, THEN conjunct2, THEN conjunct2, THEN conjunct2] by blast
  then show ?thesis by (simp add: client_procedures_simp)
qed

end
