(* ===== verification/Caching_Layers.thy ===== *)
theory Caching_Layers
  imports Metadata_Cache Data_Cache Read_Ahead
begin

text \<open>
  The three caching layers as FUSE layers: \<^verbatim>\<open>metadata_cache.cpp\<close>, \<^verbatim>\<open>data_cache.cpp\<close> and
  \<^verbatim>\<open>read_ahead.cpp\<close> under \<^verbatim>\<open>src/lib/layers\<close>. Each has a static pointer to its cache (null before \<^verbatim>\<open>init\<close>
  and after \<^verbatim>\<open>destroy\<close>), a copy \<open>next\<close> of the table below it, and one static function per operation
  it intercepts. \<^verbatim>\<open>init_layer\<close> hands these functions to \<^verbatim>\<open>utils::stack_operation\<close>. The
  properties are which cached attributes are those of the layer below when these functions run, and what
  \<^verbatim>\<open>init_layer\<close> does to the table it is given.
\<close>

section \<open>State\<close>

text \<open>
  The statics of the three files, and below them the state \<open>'s\<close> of the layers the table belongs to. The
  eviction policy is shared by a cache and the static configuration it was made from, so its
  state survives the cache object.
\<close>

record ('p, 'q, 's) world =
  w_mc_cache :: "'p mcache option"
  w_mc_policy :: 'p
  w_dc_cache :: "'q dcache option"
  w_dc_policy :: 'q
  w_ra_cache :: "racache option"
  w_below :: 's

type_synonym ('p, 'q, 's, 'd) table = "(('p, 'q, 's) world, 'd) fuse_operations"

section \<open>Metadata cache\<close>

definition metadata_cache_init :: "('p, 'q, 's, 'd) table \<Rightarrow> (('p, 'q, 's) world, unit) action" where
  "metadata_cache_init next w =
     (let w1 = w\<lparr>w_mc_cache := Some (mc_new (w_mc_policy w))\<rparr>
      in case op_init next of None \<Rightarrow> Inr ((), w1) | Some f \<Rightarrow> f w1)"

definition metadata_cache_destroy :: "('p, 'q, 's, 'd) table \<Rightarrow> (('p, 'q, 's) world, unit) action" where
  "metadata_cache_destroy next w =
     (let w1 = (case w_mc_cache w of None \<Rightarrow> w
                | Some c \<Rightarrow> w\<lparr>w_mc_cache := None, w_mc_policy := mc_policy c\<rparr>)
      in case op_destroy next of None \<Rightarrow> Inr ((), w1) | Some f \<Rightarrow> f w1)"

text \<open>The first half of the two attribute operations, and the \<^verbatim>\<open>put\<close> after a successful call below.\<close>

definition cached_attr :: "(path, 'p) cache_manager \<Rightarrow> mc_config \<Rightarrow> (('p, 'q, 's) world \<Rightarrow> int) \<Rightarrow> path \<Rightarrow> stat
    \<Rightarrow> ('p, 'q, 's) world \<Rightarrow> (bool \<times> stat \<times> ('p, 'q, 's) world) res" where
  "cached_attr ep cfg clk path stbuf w =
     rbind (deref (w_mc_cache w)) (\<lambda>c.
       case mc_get ep cfg (clk w) path stbuf c of
         (hit, stbuf1, c1) \<Rightarrow> Inr (hit, stbuf1, w\<lparr>w_mc_cache := Some c1\<rparr>))"

definition cache_attr :: "(path, 'p) cache_manager \<Rightarrow> mc_config \<Rightarrow> (('p, 'q, 's) world \<Rightarrow> int) \<Rightarrow> path \<Rightarrow> int \<Rightarrow> stat
    \<Rightarrow> ('p, 'q, 's) world \<Rightarrow> ('p, 'q, 's) world res" where
  "cache_attr ep cfg clk path res stbuf w =
     (if res = 0
      then rbind (deref (w_mc_cache w)) (\<lambda>c. Inr (w\<lparr>w_mc_cache := Some (mc_put ep cfg (clk w) path stbuf c)\<rparr>))
      else Inr w)"

definition metadata_cache_getattr :: "(path, 'p) cache_manager \<Rightarrow> mc_config \<Rightarrow> (('p, 'q, 's) world \<Rightarrow> int)
    \<Rightarrow> ('p, 'q, 's, 'd) table \<Rightarrow> ('p, 'q, 's) world getattr_op" where
  "metadata_cache_getattr ep cfg clk next path stbuf w =
     rbind (cached_attr ep cfg clk path stbuf w) (\<lambda>(hit, stbuf1, w1).
       if hit then Inr ((0, stbuf1), w1)
       else rbind (fn (op_getattr next)) (\<lambda>f. rbind (f path stbuf1 w1) (\<lambda>((res, stbuf2), w2).
         rbind (cache_attr ep cfg clk path res stbuf2 w2) (\<lambda>w3. Inr ((res, stbuf2), w3)))))"

definition metadata_cache_fgetattr :: "(path, 'p) cache_manager \<Rightarrow> mc_config \<Rightarrow> (('p, 'q, 's) world \<Rightarrow> int)
    \<Rightarrow> ('p, 'q, 's, 'd) table \<Rightarrow> ('p, 'q, 's) world fgetattr_op" where
  "metadata_cache_fgetattr ep cfg clk next path stbuf fi w =
     rbind (cached_attr ep cfg clk path stbuf w) (\<lambda>(hit, stbuf1, w1).
       if hit then Inr ((0, stbuf1, fi), w1)
       else rbind (fn (op_fgetattr next)) (\<lambda>f. rbind (f path stbuf1 fi w1) (\<lambda>((res, stbuf2, fi1), w2).
         rbind (cache_attr ep cfg clk path res stbuf2 w2) (\<lambda>w3. Inr ((res, stbuf2, fi1), w3)))))"

text \<open>
  The other operations drop what they may change, \<^verbatim>\<open>cache->remove(path)\<close> after
  \<^verbatim>\<open>cache->remove(path)\<close>, and pass the call on.
\<close>

fun invalidate :: "(path, 'p) cache_manager \<Rightarrow> path list \<Rightarrow> ('p, 'q, 's) world \<Rightarrow> ('p, 'q, 's) world res" where
  "invalidate ep [] w = Inr w"
| "invalidate ep (p # ps) w =
     rbind (deref (w_mc_cache w)) (\<lambda>c. invalidate ep ps (w\<lparr>w_mc_cache := Some (mc_remove ep p c)\<rparr>))"

definition parent_of :: "path \<Rightarrow> path list" where
  "parent_of p = (if fs_has_parent_path p then [fs_parent_path p] else [])"

definition pass_on :: "(path, 'p) cache_manager \<Rightarrow> path list \<Rightarrow> (('p, 'q, 's) world, 'a) action option
    \<Rightarrow> (('p, 'q, 's) world, 'a) action" where
  "pass_on ep ps call w = rbind (invalidate ep ps w) (\<lambda>w1. rbind (fn call) (\<lambda>f. f w1))"

definition metadata_cache_mknod :: "(path, 'p) cache_manager \<Rightarrow> ('p, 'q, 's, 'd) table \<Rightarrow> path \<Rightarrow> 32 word \<Rightarrow> 64 word
    \<Rightarrow> (('p, 'q, 's) world, int) action" where
  "metadata_cache_mknod ep next path mode rdev =
     pass_on ep (path # parent_of path) (map_option (\<lambda>f. f path mode rdev) (op_mknod next))"

definition metadata_cache_mkdir :: "(path, 'p) cache_manager \<Rightarrow> ('p, 'q, 's, 'd) table \<Rightarrow> path \<Rightarrow> 32 word
    \<Rightarrow> (('p, 'q, 's) world, int) action" where
  "metadata_cache_mkdir ep next path mode =
     pass_on ep (path # parent_of path) (map_option (\<lambda>f. f path mode) (op_mkdir next))"

definition metadata_cache_symlink :: "(path, 'p) cache_manager \<Rightarrow> ('p, 'q, 's, 'd) table \<Rightarrow> ('p, 'q, 's) world path2_op" where
  "metadata_cache_symlink ep next from to =
     pass_on ep (from # to # parent_of to) (map_option (\<lambda>f. f from to) (op_symlink next))"

definition metadata_cache_unlink :: "(path, 'p) cache_manager \<Rightarrow> ('p, 'q, 's, 'd) table \<Rightarrow> ('p, 'q, 's) world path_op" where
  "metadata_cache_unlink ep next path =
     pass_on ep (path # parent_of path) (map_option (\<lambda>f. f path) (op_unlink next))"

definition metadata_cache_rmdir :: "(path, 'p) cache_manager \<Rightarrow> ('p, 'q, 's, 'd) table \<Rightarrow> ('p, 'q, 's) world path_op" where
  "metadata_cache_rmdir ep next path =
     pass_on ep (path # parent_of path) (map_option (\<lambda>f. f path) (op_rmdir next))"

definition metadata_cache_rename :: "(path, 'p) cache_manager \<Rightarrow> ('p, 'q, 's, 'd) table \<Rightarrow> ('p, 'q, 's) world path2_op" where
  "metadata_cache_rename ep next from to =
     pass_on ep (from # to # parent_of from @ parent_of to) (map_option (\<lambda>f. f from to) (op_rename next))"

definition metadata_cache_link :: "(path, 'p) cache_manager \<Rightarrow> ('p, 'q, 's, 'd) table \<Rightarrow> ('p, 'q, 's) world path2_op" where
  "metadata_cache_link ep next from to =
     pass_on ep (from # to # parent_of to) (map_option (\<lambda>f. f from to) (op_link next))"

definition metadata_cache_chmod :: "(path, 'p) cache_manager \<Rightarrow> ('p, 'q, 's, 'd) table \<Rightarrow> path \<Rightarrow> 32 word
    \<Rightarrow> (('p, 'q, 's) world, int) action" where
  "metadata_cache_chmod ep next path mode = pass_on ep [path] (map_option (\<lambda>f. f path mode) (op_chmod next))"

definition metadata_cache_chown :: "(path, 'p) cache_manager \<Rightarrow> ('p, 'q, 's, 'd) table \<Rightarrow> path \<Rightarrow> 32 word \<Rightarrow> 32 word
    \<Rightarrow> (('p, 'q, 's) world, int) action" where
  "metadata_cache_chown ep next path uid gid =
     pass_on ep [path] (map_option (\<lambda>f. f path uid gid) (op_chown next))"

definition metadata_cache_truncate :: "(path, 'p) cache_manager \<Rightarrow> ('p, 'q, 's, 'd) table \<Rightarrow> path \<Rightarrow> int
    \<Rightarrow> (('p, 'q, 's) world, int) action" where
  "metadata_cache_truncate ep next path len =
     pass_on ep [path] (map_option (\<lambda>f. f path len) (op_truncate next))"

definition metadata_cache_ftruncate :: "(path, 'p) cache_manager \<Rightarrow> ('p, 'q, 's, 'd) table \<Rightarrow> path \<Rightarrow> int \<Rightarrow> fi_ptr
    \<Rightarrow> (('p, 'q, 's) world, int \<times> fi_ptr) action" where
  "metadata_cache_ftruncate ep next path len fi =
     pass_on ep [path] (map_option (\<lambda>f. f path len fi) (op_ftruncate next))"

definition metadata_cache_utimens :: "(path, 'p) cache_manager \<Rightarrow> ('p, 'q, 's, 'd) table \<Rightarrow> path \<Rightarrow> timespec \<Rightarrow> timespec
    \<Rightarrow> (('p, 'q, 's) world, int) action" where
  "metadata_cache_utimens ep next path ts0 ts1 =
     pass_on ep [path] (map_option (\<lambda>f. f path ts0 ts1) (op_utimens next))"

definition metadata_cache_create :: "(path, 'p) cache_manager \<Rightarrow> ('p, 'q, 's, 'd) table \<Rightarrow> path \<Rightarrow> 32 word \<Rightarrow> fi_ptr
    \<Rightarrow> (('p, 'q, 's) world, int \<times> fi_ptr) action" where
  "metadata_cache_create ep next path mode fi =
     pass_on ep (path # parent_of path) (map_option (\<lambda>f. f path mode fi) (op_create next))"

definition metadata_cache_open :: "(path, 'p) cache_manager \<Rightarrow> ('p, 'q, 's, 'd) table \<Rightarrow> ('p, 'q, 's) world fi_op" where
  "metadata_cache_open ep next path fi = pass_on ep [path] (map_option (\<lambda>f. f path fi) (op_open next))"

definition metadata_cache_flush :: "(path, 'p) cache_manager \<Rightarrow> ('p, 'q, 's, 'd) table \<Rightarrow> ('p, 'q, 's) world fi_op" where
  "metadata_cache_flush ep next path fi = pass_on ep [path] (map_option (\<lambda>f. f path fi) (op_flush next))"

definition metadata_cache_release :: "(path, 'p) cache_manager \<Rightarrow> ('p, 'q, 's, 'd) table \<Rightarrow> ('p, 'q, 's) world fi_op" where
  "metadata_cache_release ep next path fi = pass_on ep [path] (map_option (\<lambda>f. f path fi) (op_release next))"

definition metadata_cache_fsync :: "(path, 'p) cache_manager \<Rightarrow> ('p, 'q, 's, 'd) table \<Rightarrow> path \<Rightarrow> int \<Rightarrow> fi_ptr
    \<Rightarrow> (('p, 'q, 's) world, int \<times> fi_ptr) action" where
  "metadata_cache_fsync ep next path isdatasync fi =
     pass_on ep [path] (map_option (\<lambda>f. f path isdatasync fi) (op_fsync next))"

section \<open>Data cache\<close>

definition data_cache_init :: "('p, 'q, 's, 'd) table \<Rightarrow> (('p, 'q, 's) world, unit) action" where
  "data_cache_init next w =
     (let w1 = w\<lparr>w_dc_cache := Some (dc_new (w_dc_policy w))\<rparr>
      in case op_init next of None \<Rightarrow> Inr ((), w1) | Some f \<Rightarrow> f w1)"

definition data_cache_destroy :: "('p, 'q, 's, 'd) table \<Rightarrow> (('p, 'q, 's) world, unit) action" where
  "data_cache_destroy next w =
     (let w1 = (case w_dc_cache w of None \<Rightarrow> w
                | Some c \<Rightarrow> w\<lparr>w_dc_cache := None, w_dc_policy := dc_policy c\<rparr>)
      in case op_destroy next of None \<Rightarrow> Inr ((), w1) | Some f \<Rightarrow> f w1)"

text \<open>A method call on the cache object, which is written back after the call.\<close>

definition on_dc :: "('q dcache \<times> ('p, 'q, 's) world \<Rightarrow> ub + 'a \<times> 'q dcache \<times> ('p, 'q, 's) world)
    \<Rightarrow> (('p, 'q, 's) world, 'a) action" where
  "on_dc m w = rbind (deref (w_dc_cache w)) (\<lambda>c.
     rbind (m (c, w)) (\<lambda>(r, c1, w1). Inr (r, w1\<lparr>w_dc_cache := Some c1\<rparr>)))"

definition data_cache_open :: "('p, 'q, 's, 'd) table \<Rightarrow> ('p, 'q, 's) world fi_op" where
  "data_cache_open next path fi = on_dc (dc_open next path fi)"

definition data_cache_read :: "(dc_key, 'q) cache_manager \<Rightarrow> dc_config \<Rightarrow> (('p, 'q, 's) world \<Rightarrow> int)
    \<Rightarrow> ('p, 'q, 's, 'd) table \<Rightarrow> ('p, 'q, 's) world read_op" where
  "data_cache_read ep cfg clk next path buf n offset fi = on_dc (dc_read ep cfg clk next path buf n offset fi)"

definition data_cache_release :: "('p, 'q, 's, 'd) table \<Rightarrow> ('p, 'q, 's) world fi_op" where
  "data_cache_release next path fi = on_dc (dc_release next path fi)"

section \<open>Read ahead\<close>

definition read_ahead_init :: "('p, 'q, 's, 'd) table \<Rightarrow> (('p, 'q, 's) world, unit) action" where
  "read_ahead_init next w =
     (let w1 = w\<lparr>w_ra_cache := Some fmempty\<rparr>
      in case op_init next of None \<Rightarrow> Inr ((), w1) | Some f \<Rightarrow> f w1)"

definition read_ahead_destroy :: "('p, 'q, 's, 'd) table \<Rightarrow> (('p, 'q, 's) world, unit) action" where
  "read_ahead_destroy next w =
     (let w1 = w\<lparr>w_ra_cache := None\<rparr>
      in case op_destroy next of None \<Rightarrow> Inr ((), w1) | Some f \<Rightarrow> f w1)"

definition on_ra :: "(racache \<times> ('p, 'q, 's) world \<Rightarrow> ub + 'a \<times> racache \<times> ('p, 'q, 's) world)
    \<Rightarrow> (('p, 'q, 's) world, 'a) action" where
  "on_ra m w = rbind (deref (w_ra_cache w)) (\<lambda>c.
     rbind (m (c, w)) (\<lambda>(r, c1, w1). Inr (r, w1\<lparr>w_ra_cache := Some c1\<rparr>)))"

definition read_ahead_open :: "('p, 'q, 's, 'd) table \<Rightarrow> ('p, 'q, 's) world fi_op" where
  "read_ahead_open next path fi = on_ra (ra_open next path fi)"

definition read_ahead_read :: "ra_config \<Rightarrow> ('p, 'q, 's, 'd) table \<Rightarrow> ('p, 'q, 's) world read_op" where
  "read_ahead_read cfg next path buf n offset fi = on_ra (ra_read cfg next path buf n offset fi)"

definition read_ahead_release :: "('p, 'q, 's, 'd) table \<Rightarrow> ('p, 'q, 's) world fi_op" where
  "read_ahead_release next path fi = on_ra (ra_release next path fi)"

section \<open>Stacking\<close>

text \<open>
  What starting the program may throw: \<^verbatim>\<open>utils::stack_operation_exception\<close>, the exception of the
  configuration file as a whole, that of one layer's configuration, and a failed conversion
  or load inside the YAML library.
\<close>

datatype exn =
    Stack_operation_exception
  | Wrong_config_exception string
  | Layer_config_exception string
  | Yaml_exception

text \<open>
  \<^verbatim>\<open>stack_operation_(T &top_opr, T *bottom_opr, ...)\<close> receives the pointer of the table by value: the
  assignment \<^verbatim>\<open>bottom_opr = top_opr\<close> ends with the parameter's scope, and the table keeps its pointer.
\<close>

definition stack_operation :: "'f \<Rightarrow> 'f option \<Rightarrow> exn + unit" where
  "stack_operation top_opr bottom_opr =
     (case bottom_opr of
        None \<Rightarrow> Inl Stack_operation_exception
      | Some _ \<Rightarrow> (let bottom_opr = Some top_opr in Inr ()))"

definition metadata_cache_init_layer :: "(path, 'p) cache_manager \<Rightarrow> mc_config \<Rightarrow> (('p, 'q, 's) world \<Rightarrow> int)
    \<Rightarrow> ('p, 'q, 's, 'd) table \<Rightarrow> exn + ('p, 'q, 's, 'd) table" where
  "metadata_cache_init_layer ep cfg clk operations =
     rbind (stack_operation (metadata_cache_init operations) (op_init operations)) (\<lambda>_.
     rbind (stack_operation (metadata_cache_destroy operations) (op_destroy operations)) (\<lambda>_.
     rbind (stack_operation (metadata_cache_getattr ep cfg clk operations) (op_getattr operations)) (\<lambda>_.
     rbind (stack_operation (metadata_cache_fgetattr ep cfg clk operations) (op_fgetattr operations)) (\<lambda>_.
     rbind (stack_operation (metadata_cache_mknod ep operations) (op_mknod operations)) (\<lambda>_.
     rbind (stack_operation (metadata_cache_mkdir ep operations) (op_mkdir operations)) (\<lambda>_.
     rbind (stack_operation (metadata_cache_symlink ep operations) (op_symlink operations)) (\<lambda>_.
     rbind (stack_operation (metadata_cache_unlink ep operations) (op_unlink operations)) (\<lambda>_.
     rbind (stack_operation (metadata_cache_rmdir ep operations) (op_rmdir operations)) (\<lambda>_.
     rbind (stack_operation (metadata_cache_rename ep operations) (op_rename operations)) (\<lambda>_.
     rbind (stack_operation (metadata_cache_link ep operations) (op_link operations)) (\<lambda>_.
     rbind (stack_operation (metadata_cache_chmod ep operations) (op_chmod operations)) (\<lambda>_.
     rbind (stack_operation (metadata_cache_chown ep operations) (op_chown operations)) (\<lambda>_.
     rbind (stack_operation (metadata_cache_truncate ep operations) (op_truncate operations)) (\<lambda>_.
     rbind (stack_operation (metadata_cache_ftruncate ep operations) (op_ftruncate operations)) (\<lambda>_.
     rbind (stack_operation (metadata_cache_create ep operations) (op_create operations)) (\<lambda>_.
     rbind (stack_operation (metadata_cache_open ep operations) (op_open operations)) (\<lambda>_.
     rbind (stack_operation (metadata_cache_flush ep operations) (op_flush operations)) (\<lambda>_.
     rbind (stack_operation (metadata_cache_release ep operations) (op_release operations)) (\<lambda>_.
     rbind (stack_operation (metadata_cache_fsync ep operations) (op_fsync operations)) (\<lambda>_.
     Inr operations))))))))))))))))))))"

definition data_cache_init_layer :: "(dc_key, 'q) cache_manager \<Rightarrow> dc_config \<Rightarrow> (('p, 'q, 's) world \<Rightarrow> int)
    \<Rightarrow> ('p, 'q, 's, 'd) table \<Rightarrow> exn + ('p, 'q, 's, 'd) table" where
  "data_cache_init_layer ep cfg clk operations =
     rbind (stack_operation (data_cache_init operations) (op_init operations)) (\<lambda>_.
     rbind (stack_operation (data_cache_destroy operations) (op_destroy operations)) (\<lambda>_.
     rbind (stack_operation (data_cache_open operations) (op_open operations)) (\<lambda>_.
     rbind (stack_operation (data_cache_read ep cfg clk operations) (op_read operations)) (\<lambda>_.
     rbind (stack_operation (data_cache_release operations) (op_release operations)) (\<lambda>_.
     Inr operations)))))"

definition read_ahead_init_layer :: "ra_config \<Rightarrow> ('p, 'q, 's, 'd) table \<Rightarrow> exn + ('p, 'q, 's, 'd) table" where
  "read_ahead_init_layer cfg operations =
     rbind (stack_operation (read_ahead_init operations) (op_init operations)) (\<lambda>_.
     rbind (stack_operation (read_ahead_destroy operations) (op_destroy operations)) (\<lambda>_.
     rbind (stack_operation (read_ahead_open operations) (op_open operations)) (\<lambda>_.
     rbind (stack_operation (read_ahead_read cfg operations) (op_read operations)) (\<lambda>_.
     rbind (stack_operation (read_ahead_release operations) (op_release operations)) (\<lambda>_.
     Inr operations)))))"

text \<open>What the layers ask of the table below them.\<close>

definition reads_files :: "('w, 'd) fuse_operations \<Rightarrow> bool" where
  "reads_files ops \<longleftrightarrow> op_init ops \<noteq> None \<and> op_destroy ops \<noteq> None \<and> op_open ops \<noteq> None \<and>
     op_read ops \<noteq> None \<and> op_release ops \<noteq> None"

definition has_metadata :: "('w, 'd) fuse_operations \<Rightarrow> bool" where
  "has_metadata ops \<longleftrightarrow> op_init ops \<noteq> None \<and> op_destroy ops \<noteq> None \<and> op_getattr ops \<noteq> None \<and> op_fgetattr ops \<noteq> None \<and>
     op_mknod ops \<noteq> None \<and> op_mkdir ops \<noteq> None \<and> op_symlink ops \<noteq> None \<and> op_unlink ops \<noteq> None \<and>
     op_rmdir ops \<noteq> None \<and> op_rename ops \<noteq> None \<and> op_link ops \<noteq> None \<and> op_chmod ops \<noteq> None \<and>
     op_chown ops \<noteq> None \<and> op_truncate ops \<noteq> None \<and> op_ftruncate ops \<noteq> None \<and> op_create ops \<noteq> None \<and>
     op_open ops \<noteq> None \<and> op_flush ops \<noteq> None \<and> op_release ops \<noteq> None \<and> op_fsync ops \<noteq> None"

lemma stack_operation_bind [res_simps]:
  "rbind (stack_operation t b) (\<lambda>_. m) = (if b = None then Inl Stack_operation_exception else m)"
  by (cases b) (simp_all add: stack_operation_def)

lemma metadata_cache_init_layer_result:
  "metadata_cache_init_layer ep cfg clk ops =
     (if has_metadata ops then Inr ops else Inl Stack_operation_exception)"
  unfolding metadata_cache_init_layer_def has_metadata_def stack_operation_bind by simp

lemma data_cache_init_layer_result:
  "data_cache_init_layer ep cfg clk ops =
     (if reads_files ops then Inr ops else Inl Stack_operation_exception)"
  unfolding data_cache_init_layer_def reads_files_def stack_operation_bind by simp

lemma read_ahead_init_layer_result:
  "read_ahead_init_layer cfg ops =
     (if reads_files ops then Inr ops else Inl Stack_operation_exception)"
  unfolding read_ahead_init_layer_def reads_files_def stack_operation_bind by simp

section \<open>Coherence of the metadata cache\<close>





























section \<open>Properties\<close>


text \<open>A layer below that keeps modes and times, for concrete runs.\<close>

definition mode_table :: "('p, 'q, path \<Rightarrow> stat option, unit) table" where
  "mode_table = null_operations\<lparr>
     op_getattr := Some (\<lambda>path st w. case w_below w path of None \<Rightarrow> Inr ((-2, st), w) | Some a \<Rightarrow> Inr ((0, a), w)),
     op_chmod := Some (\<lambda>path mode w. Inr (0, w\<lparr>w_below := (w_below w)(path := Some (zero_stat\<lparr>st_mode := mode\<rparr>))\<rparr>)),
     op_utimens := Some (\<lambda>path t0 t1 w. Inr (0, w\<lparr>w_below := (w_below w)(path := map_option (st_mtim_update (\<lambda>_. t1)) (w_below w path))\<rparr>))\<rparr>"


definition demo_world :: "(path lru_cache_manager, unit, path \<Rightarrow> stat option) world" where
  "demo_world = \<lparr>w_mc_cache = Some (mc_new lru_empty), w_mc_policy = lru_empty, w_dc_cache = None, w_dc_policy = (), w_ra_cache = None,
     w_below = (\<lambda>_. Some zero_stat)\<rparr>"


lemmas md_eval = metadata_cache_getattr_def metadata_cache_chmod_def pass_on_def cached_attr_def cache_attr_def mc_get_def mc_put_def
  mc_remove_def mc_new_def emplace_def metadata_is_valid_def elapsed_seconds_def mode_table_def null_operations_def demo_world_def
  lru_eviction_def lru_touch_def lru_remove_def lru_empty_def Let_def


text \<open>
  Both ways for a path to be out of date occur. After \<^verbatim>\<open>utimens\<close> the layer answers the old times; and a request that has missed, and is
  interrupted by a change of the mode before it stores what it read, makes the next request answer the old mode.
\<close>

theorem metadata_layer_stale:
  "\<exists>w1 w2 w3. metadata_cache_getattr lru_eviction \<lparr>mc_size = 4, mc_time_out = 60\<rparr> (\<lambda>_. 0) mode_table ''/a'' zero_stat demo_world =
       Inr ((0, zero_stat), w1) \<and>
     the (op_utimens mode_table) ''/a'' zero_timespec \<lparr>tv_sec = 7, tv_nsec = 0\<rparr> w1 = Inr (0, w2) \<and>
     metadata_cache_getattr lru_eviction \<lparr>mc_size = 4, mc_time_out = 60\<rparr> (\<lambda>_. 0) mode_table ''/a'' zero_stat w2 = Inr ((0, zero_stat), w3) \<and>
     w_below w3 ''/a'' = Some (zero_stat\<lparr>st_mtim := \<lparr>tv_sec = 7, tv_nsec = 0\<rparr>\<rparr>)"
  "\<exists>w1 w2 w3 w4. cached_attr lru_eviction \<lparr>mc_size = 4, mc_time_out = 60\<rparr> (\<lambda>_. 0) ''/a'' zero_stat demo_world = Inr (False, zero_stat, w1) \<and>
     metadata_cache_chmod lru_eviction mode_table ''/a'' 5 w1 = Inr (0, w2) \<and>
     cache_attr lru_eviction \<lparr>mc_size = 4, mc_time_out = 60\<rparr> (\<lambda>_. 0) ''/a'' 0 zero_stat w2 = Inr w3 \<and>
     metadata_cache_getattr lru_eviction \<lparr>mc_size = 4, mc_time_out = 60\<rparr> (\<lambda>_. 0) mode_table ''/a'' zero_stat w3 = Inr ((0, zero_stat), w4) \<and>
     w_below w4 ''/a'' = Some (zero_stat\<lparr>st_mode := 5\<rparr>)"
  by (simp_all add: md_eval)

end
