(* ===== verification/Config.thy ===== *)
theory Config
  imports Caching_Layers Rpc_Client_Layer Nfs_Ops Rpc_Server
begin

text \<open>
  Putting a stack together: the configuration of each layer (the constructors of \<^verbatim>\<open>local_config\<close>,
  \<^verbatim>\<open>data_cache_config\<close>, \<^verbatim>\<open>metadata_cache_config\<close>, \<^verbatim>\<open>read_ahead_config\<close>, \<^verbatim>\<open>rpc_client_config\<close> and
  \<^verbatim>\<open>rpc_server_config\<close>), the class \<^verbatim>\<open>config\<close> of \<^verbatim>\<open>src/lib/config.cpp\<close>, and the start of the program
  (\<^verbatim>\<open>src/src/rsafefs.cpp\<close>, \<^verbatim>\<open>client_main\<close>, \<^verbatim>\<open>server_main\<close>). The YAML library, the kernel, the clock, the
  random generator and the client class are parameters. The properties say which layer
  lists are accepted, which role a configuration runs in, and which table it runs with.
\<close>

section \<open>The process\<close>

text \<open>\<^verbatim>\<open>std::shared_ptr<eviction_policy>\<close>: a policy object with its dynamic type.\<close>

datatype 'k policy = Lru_policy "'k lru_cache_manager" | Rnd_policy "'k rnd_cache_manager"

fun policy_touch :: "'k \<Rightarrow> 'k policy \<Rightarrow> 'k policy" where
  "policy_touch k (Lru_policy m) = Lru_policy (touch lru_eviction k m)"
| "policy_touch k (Rnd_policy m) = Rnd_policy (touch rnd_eviction k m)"

fun policy_remove :: "'k \<Rightarrow> 'k policy \<Rightarrow> 'k policy" where
  "policy_remove k (Lru_policy m) = Lru_policy (remove lru_eviction k m)"
| "policy_remove k (Rnd_policy m) = Rnd_policy (remove rnd_eviction k m)"

fun policy_evict :: "'k policy \<Rightarrow> 'k option \<times> 'k policy" where
  "policy_evict (Lru_policy m) = (case evict lru_eviction m of (k, m1) \<Rightarrow> (k, Lru_policy m1))"
| "policy_evict (Rnd_policy m) = (case evict rnd_eviction m of (k, m1) \<Rightarrow> (k, Rnd_policy m1))"

definition policy_eviction :: "('k, 'k policy) cache_manager" where
  "policy_eviction = \<lparr>touch = policy_touch, remove = policy_remove, evict = policy_evict\<rparr>"

text \<open>The statics of all translation units that the operations of a table act on.\<close>

type_synonym ('o, 'c) process =
  "(path policy, dc_key policy, 'o local_state \<times> 'c rpc_layer) world"

text \<open>An operation of one unit, run in the process.\<close>

definition inside :: "('w \<Rightarrow> 's) \<Rightarrow> ('s \<Rightarrow> 'w \<Rightarrow> 'w) \<Rightarrow> ('s, 'a) action \<Rightarrow> ('w, 'a) action" where
  "inside get put m w = rbind (m (get w)) (\<lambda>(a, s). Inr (a, put s w))"

definition lift_table :: "('w \<Rightarrow> 's) \<Rightarrow> ('s \<Rightarrow> 'w \<Rightarrow> 'w) \<Rightarrow> ('s, 'd) fuse_operations \<Rightarrow> ('w, 'd) fuse_operations" where
  "lift_table get put ops = \<lparr>
     op_init = map_option (inside get put) (op_init ops),
     op_destroy = map_option (inside get put) (op_destroy ops),
     op_getattr = map_option (\<lambda>f a b. inside get put (f a b)) (op_getattr ops),
     op_fgetattr = map_option (\<lambda>f a b c. inside get put (f a b c)) (op_fgetattr ops),
     op_access = map_option (\<lambda>f a b. inside get put (f a b)) (op_access ops),
     op_readlink = map_option (\<lambda>f a b c. inside get put (f a b c)) (op_readlink ops),
     op_opendir = map_option (\<lambda>f a b. inside get put (f a b)) (op_opendir ops),
     op_readdir = map_option (\<lambda>f a b c d e. inside get put (f a b c d e)) (op_readdir ops),
     op_releasedir = map_option (\<lambda>f a b. inside get put (f a b)) (op_releasedir ops),
     op_mknod = map_option (\<lambda>f a b c. inside get put (f a b c)) (op_mknod ops),
     op_mkdir = map_option (\<lambda>f a b. inside get put (f a b)) (op_mkdir ops),
     op_symlink = map_option (\<lambda>f a b. inside get put (f a b)) (op_symlink ops),
     op_unlink = map_option (\<lambda>f a. inside get put (f a)) (op_unlink ops),
     op_rmdir = map_option (\<lambda>f a. inside get put (f a)) (op_rmdir ops),
     op_rename = map_option (\<lambda>f a b. inside get put (f a b)) (op_rename ops),
     op_link = map_option (\<lambda>f a b. inside get put (f a b)) (op_link ops),
     op_chmod = map_option (\<lambda>f a b. inside get put (f a b)) (op_chmod ops),
     op_chown = map_option (\<lambda>f a b c. inside get put (f a b c)) (op_chown ops),
     op_truncate = map_option (\<lambda>f a b. inside get put (f a b)) (op_truncate ops),
     op_ftruncate = map_option (\<lambda>f a b c. inside get put (f a b c)) (op_ftruncate ops),
     op_utime = map_option (\<lambda>f a b. inside get put (f a b)) (op_utime ops),
     op_utimens = map_option (\<lambda>f a b c. inside get put (f a b c)) (op_utimens ops),
     op_create = map_option (\<lambda>f a b c. inside get put (f a b c)) (op_create ops),
     op_open = map_option (\<lambda>f a b. inside get put (f a b)) (op_open ops),
     op_read = map_option (\<lambda>f a b c d e. inside get put (f a b c d e)) (op_read ops),
     op_write = map_option (\<lambda>f a b c d e. inside get put (f a b c d e)) (op_write ops),
     op_statfs = map_option (\<lambda>f a b. inside get put (f a b)) (op_statfs ops),
     op_flush = map_option (\<lambda>f a b. inside get put (f a b)) (op_flush ops),
     op_release = map_option (\<lambda>f a b. inside get put (f a b)) (op_release ops),
     op_fsync = map_option (\<lambda>f a b c. inside get put (f a b c)) (op_fsync ops),
     op_fallocate = map_option (\<lambda>f a b c d e. inside get put (f a b c d e)) (op_fallocate ops),
     op_setxattr = map_option (\<lambda>f a b c d e. inside get put (f a b c d e)) (op_setxattr ops),
     op_getxattr = map_option (\<lambda>f a b c d. inside get put (f a b c d)) (op_getxattr ops),
     op_listxattr = map_option (\<lambda>f a b c. inside get put (f a b c)) (op_listxattr ops),
     op_removexattr = map_option (\<lambda>f a b. inside get put (f a b)) (op_removexattr ops)\<rparr>"

text \<open>Assigning some of the pointers of a table and leaving the others.\<close>

definition or_else :: "'a option \<Rightarrow> 'a option \<Rightarrow> 'a option" where
  "or_else a b = (case a of None \<Rightarrow> b | Some x \<Rightarrow> Some x)"

definition overlay :: "('w, 'd) fuse_operations \<Rightarrow> ('w, 'd) fuse_operations \<Rightarrow> ('w, 'd) fuse_operations" where
  "overlay new old = \<lparr>
     op_init = or_else (op_init new) (op_init old), op_destroy = or_else (op_destroy new) (op_destroy old),
     op_getattr = or_else (op_getattr new) (op_getattr old), op_fgetattr = or_else (op_fgetattr new) (op_fgetattr old),
     op_access = or_else (op_access new) (op_access old), op_readlink = or_else (op_readlink new) (op_readlink old),
     op_opendir = or_else (op_opendir new) (op_opendir old), op_readdir = or_else (op_readdir new) (op_readdir old),
     op_releasedir = or_else (op_releasedir new) (op_releasedir old), op_mknod = or_else (op_mknod new) (op_mknod old),
     op_mkdir = or_else (op_mkdir new) (op_mkdir old), op_symlink = or_else (op_symlink new) (op_symlink old),
     op_unlink = or_else (op_unlink new) (op_unlink old), op_rmdir = or_else (op_rmdir new) (op_rmdir old),
     op_rename = or_else (op_rename new) (op_rename old), op_link = or_else (op_link new) (op_link old),
     op_chmod = or_else (op_chmod new) (op_chmod old), op_chown = or_else (op_chown new) (op_chown old),
     op_truncate = or_else (op_truncate new) (op_truncate old), op_ftruncate = or_else (op_ftruncate new) (op_ftruncate old),
     op_utime = or_else (op_utime new) (op_utime old), op_utimens = or_else (op_utimens new) (op_utimens old),
     op_create = or_else (op_create new) (op_create old), op_open = or_else (op_open new) (op_open old),
     op_read = or_else (op_read new) (op_read old), op_write = or_else (op_write new) (op_write old),
     op_statfs = or_else (op_statfs new) (op_statfs old), op_flush = or_else (op_flush new) (op_flush old),
     op_release = or_else (op_release new) (op_release old), op_fsync = or_else (op_fsync new) (op_fsync old),
     op_fallocate = or_else (op_fallocate new) (op_fallocate old), op_setxattr = or_else (op_setxattr new) (op_setxattr old),
     op_getxattr = or_else (op_getxattr new) (op_getxattr old), op_listxattr = or_else (op_listxattr new) (op_listxattr old),
     op_removexattr = or_else (op_removexattr new) (op_removexattr old)\<rparr>"

section \<open>YAML\<close>

text \<open>
  What the code uses of \<^verbatim>\<open>YAML::Node\<close>: \<open>y_items\<close> are the pairs an iteration yields, in file order and
  with duplicate keys; \<open>y_get\<close> is \<^verbatim>\<open>node[key]\<close>, with \<open>None\<close> for an undefined node; the conversions may throw.
\<close>

record 'y yaml =
  y_load :: "path \<Rightarrow> exn + 'y"
  y_is_map :: "'y \<Rightarrow> bool"
  y_items :: "'y \<Rightarrow> ('y \<times> 'y) list"
  y_get :: "'y \<Rightarrow> string \<Rightarrow> 'y option"
  y_string :: "'y \<Rightarrow> exn + string"
  y_size :: "'y \<Rightarrow> exn + nat"
  y_int :: "'y \<Rightarrow> exn + int"
  y_double :: "'y \<Rightarrow> exn + rat"

text \<open>\<^verbatim>\<open>data[key].as<T>()\<close>; converting an undefined node throws.\<close>

definition field_as :: "'y yaml \<Rightarrow> ('y \<Rightarrow> exn + 'a) \<Rightarrow> 'y \<Rightarrow> string \<Rightarrow> exn + 'a" where
  "field_as y conv data key = (case y_get y data key of None \<Rightarrow> Inl Yaml_exception | Some v \<Rightarrow> conv v)"

text \<open>The loop over the options: recognised ones run their parser, others are ignored with a warning.\<close>

fun parse_options :: "'y yaml \<Rightarrow> (string \<Rightarrow> ('c \<Rightarrow> exn + 'c) option) \<Rightarrow> ('y \<times> 'y) list \<Rightarrow> 'c \<Rightarrow> exn + 'c" where
  "parse_options y parser [] c = Inr c"
| "parse_options y parser ((k, v) # rest) c =
     rbind (y_string y k) (\<lambda>option.
       case parser option of
         None \<Rightarrow> parse_options y parser rest c
       | Some action \<Rightarrow> rbind (action c) (parse_options y parser rest))"

section \<open>The environment\<close>

record ('o, 'c, 'd, 'y) env =
  en_yaml :: "'y yaml"
  en_posix :: "'o posix"
  en_is_directory :: "path \<Rightarrow> bool"
  en_clock :: "('o, 'c) process \<Rightarrow> int"
  en_random :: "nat \<Rightarrow> nat"
  en_new_client :: "client_config \<Rightarrow> 'c"
  en_client :: "('c, 'd) client_methods"

text \<open>What the constructors of the layer configurations write: the static configurations, and the statics in the process.\<close>

record ('o, 'c) stack_setup =
  su_mc :: mc_config
  su_dc :: dc_config
  su_ra :: ra_config
  su_server :: "server_config option"
  su_process :: "('o, 'c) process"

section \<open>Layer configurations\<close>

datatype local_mode = LOCAL | NFS

datatype layer_config =
    Data_cache_config
  | Local_config path local_mode
  | Metadata_cache_config
  | Read_ahead_config
  | Rpc_client_config
  | Rpc_server_config

text \<open>\<^verbatim>\<open>eviction_policy: lru | rnd\<close>\<close>

definition parse_policy :: "(nat \<Rightarrow> nat) \<Rightarrow> string \<Rightarrow> string \<Rightarrow> exn + 'k policy" where
  "parse_policy gen layer name =
     (if name = ''lru'' then Inr (Lru_policy lru_empty)
      else if name = ''rnd'' then Inr (Rnd_policy (rnd_empty gen))
      else Inl (Layer_config_exception (layer @ '': invalid replacement policy'')))"

definition data_cache_parser :: "('o, 'c, 'd, 'y) env \<Rightarrow> 'y \<Rightarrow> string
    \<Rightarrow> (('o, 'c) stack_setup \<Rightarrow> exn + ('o, 'c) stack_setup) option" where
  "data_cache_parser env data option =
     (let y = en_yaml env
      in if option = ''size'' then
           Some (\<lambda>su. rbind (field_as y (y_size y) data option) (\<lambda>n. Inr (su\<lparr>su_dc := (su_dc su)\<lparr>dc_size := n\<rparr>\<rparr>)))
         else if option = ''block_size'' then
           Some (\<lambda>su. rbind (field_as y (y_size y) data option) (\<lambda>n. Inr (su\<lparr>su_dc := (su_dc su)\<lparr>dc_block_size := n\<rparr>\<rparr>)))
         else if option = ''time_out'' then
           Some (\<lambda>su. rbind (field_as y (y_int y) data option) (\<lambda>n. Inr (su\<lparr>su_dc := (su_dc su)\<lparr>dc_time_out := n\<rparr>\<rparr>)))
         else if option = ''eviction_policy'' then
           Some (\<lambda>su. rbind (field_as y (y_string y) data option) (\<lambda>name.
             rbind (parse_policy (en_random env) ''data cache'' name) (\<lambda>p.
               Inr (su\<lparr>su_process := (su_process su)\<lparr>w_dc_policy := p\<rparr>\<rparr>))))
         else None)"

definition data_cache_config :: "('o, 'c, 'd, 'y) env \<Rightarrow> 'y \<Rightarrow> ('o, 'c) stack_setup \<Rightarrow> exn + ('o, 'c) stack_setup" where
  "data_cache_config env data su =
     parse_options (en_yaml env) (data_cache_parser env data) (y_items (en_yaml env) data)
       (su\<lparr>su_dc := \<lparr>dc_size = 1024 * 1024 * 1024, dc_block_size = 16 * 1024, dc_time_out = 30\<rparr>,
           su_process := (su_process su)\<lparr>w_dc_policy := Rnd_policy (rnd_empty (en_random env))\<rparr>\<rparr>)"

definition metadata_cache_parser :: "('o, 'c, 'd, 'y) env \<Rightarrow> 'y \<Rightarrow> string
    \<Rightarrow> (('o, 'c) stack_setup \<Rightarrow> exn + ('o, 'c) stack_setup) option" where
  "metadata_cache_parser env data option =
     (let y = en_yaml env
      in if option = ''size'' then
           Some (\<lambda>su. rbind (field_as y (y_size y) data option) (\<lambda>n. Inr (su\<lparr>su_mc := (su_mc su)\<lparr>mc_size := n\<rparr>\<rparr>)))
         else if option = ''time_out'' then
           Some (\<lambda>su. rbind (field_as y (y_int y) data option) (\<lambda>n. Inr (su\<lparr>su_mc := (su_mc su)\<lparr>mc_time_out := n\<rparr>\<rparr>)))
         else if option = ''eviction_policy'' then
           Some (\<lambda>su. rbind (field_as y (y_string y) data option) (\<lambda>name.
             rbind (parse_policy (en_random env) ''metadata cache'' name) (\<lambda>p.
               Inr (su\<lparr>su_process := (su_process su)\<lparr>w_mc_policy := p\<rparr>\<rparr>))))
         else None)"

definition metadata_cache_config :: "('o, 'c, 'd, 'y) env \<Rightarrow> 'y \<Rightarrow> ('o, 'c) stack_setup \<Rightarrow> exn + ('o, 'c) stack_setup" where
  "metadata_cache_config env data su =
     parse_options (en_yaml env) (metadata_cache_parser env data) (y_items (en_yaml env) data)
       (su\<lparr>su_mc := \<lparr>mc_size = 100 * 1024 * 1024, mc_time_out = 60\<rparr>,
           su_process := (su_process su)\<lparr>w_mc_policy := Rnd_policy (rnd_empty (en_random env))\<rparr>\<rparr>)"

definition read_ahead_parser :: "('o, 'c, 'd, 'y) env \<Rightarrow> 'y \<Rightarrow> string
    \<Rightarrow> (('o, 'c) stack_setup \<Rightarrow> exn + ('o, 'c) stack_setup) option" where
  "read_ahead_parser env data option =
     (let y = en_yaml env
      in if option = ''size'' then
           Some (\<lambda>su. rbind (field_as y (y_size y) data option) (\<lambda>n. Inr (su\<lparr>su_ra := \<lparr>ra_size = n\<rparr>\<rparr>)))
         else None)"

definition read_ahead_config :: "('o, 'c, 'd, 'y) env \<Rightarrow> 'y \<Rightarrow> ('o, 'c) stack_setup \<Rightarrow> exn + ('o, 'c) stack_setup" where
  "read_ahead_config env data su =
     parse_options (en_yaml env) (read_ahead_parser env data) (y_items (en_yaml env) data)
       (su\<lparr>su_ra := \<lparr>ra_size = 1024 * 1024\<rparr>\<rparr>)"

text \<open>\<^verbatim>\<open>local_config\<close> keeps its path and mode in the object.\<close>

definition local_parser :: "('o, 'c, 'd, 'y) env \<Rightarrow> 'y \<Rightarrow> string \<Rightarrow> (path \<times> local_mode \<Rightarrow> exn + path \<times> local_mode) option" where
  "local_parser env data option =
     (let y = en_yaml env
      in if option = ''path'' then
           Some (\<lambda>(_, mode). rbind (field_as y (y_string y) data option) (\<lambda>path.
             if en_is_directory env path then Inr (path, mode)
             else Inl (Layer_config_exception (''local: path: '' @ [CHR 0x22] @ path @ [CHR 0x22] @ '' is not a valid directory''))))
         else if option = ''mode'' then
           Some (\<lambda>(path, _). rbind (field_as y (y_string y) data option) (\<lambda>name.
             if name = ''local'' then Inr (path, LOCAL)
             else if name = ''nfs'' then Inr (path, NFS)
             else Inl (Layer_config_exception ''local: invalid mode'')))
         else None)"

definition local_config :: "('o, 'c, 'd, 'y) env \<Rightarrow> 'y \<Rightarrow> exn + layer_config" where
  "local_config env data =
     (if y_get (en_yaml env) data ''path'' = None then Inl (Layer_config_exception ''local: requires path'')
      else rbind (parse_options (en_yaml env) (local_parser env data) (y_items (en_yaml env) data) ([], LOCAL))
        (\<lambda>(path, mode). Inr (Local_config path mode)))"

record client_options =
  co_server_address :: string
  co_mode :: string
  co_async :: async_config

definition rpc_client_parser :: "('o, 'c, 'd, 'y) env \<Rightarrow> 'y \<Rightarrow> string \<Rightarrow> (client_options \<Rightarrow> exn + client_options) option" where
  "rpc_client_parser env data option =
     (let y = en_yaml env
      in if option = ''server_address'' then
           Some (\<lambda>co. rbind (field_as y (y_string y) data option) (\<lambda>s. Inr (co\<lparr>co_server_address := s\<rparr>)))
         else if option = ''mode'' then
           Some (\<lambda>co. rbind (field_as y (y_string y) data option) (\<lambda>s. Inr (co\<lparr>co_mode := s\<rparr>)))
         else if option = ''cache_size'' then
           Some (\<lambda>co. rbind (field_as y (y_size y) data option) (\<lambda>n. Inr (co\<lparr>co_async := (co_async co)\<lparr>as_cache_limit := n\<rparr>\<rparr>)))
         else if option = ''block_size'' then
           Some (\<lambda>co. rbind (field_as y (y_size y) data option) (\<lambda>n. Inr (co\<lparr>co_async := (co_async co)\<lparr>as_block_size := n\<rparr>\<rparr>)))
         else if option = ''threads'' then
           Some (\<lambda>co. rbind (field_as y (y_size y) data option) (\<lambda>n. Inr (co\<lparr>co_async := (co_async co)\<lparr>as_threads := n\<rparr>\<rparr>)))
         else if option = ''flush_threshold'' then
           Some (\<lambda>co. rbind (field_as y (y_double y) data option) (\<lambda>x. Inr (co\<lparr>co_async := (co_async co)\<lparr>as_flush_threshold := x\<rparr>\<rparr>)))
         else None)"

definition set_client_config :: "client_config \<Rightarrow> ('o, 'c) stack_setup \<Rightarrow> ('o, 'c) stack_setup" where
  "set_client_config cfg su =
     (let w = su_process su; (s, rc) = w_below w
      in su\<lparr>su_process := w\<lparr>w_below := (s, rc\<lparr>rc_config := Some cfg\<rparr>)\<rparr>\<rparr>)"

definition rpc_client_config :: "('o, 'c, 'd, 'y) env \<Rightarrow> 'y \<Rightarrow> ('o, 'c) stack_setup \<Rightarrow> exn + ('o, 'c) stack_setup" where
  "rpc_client_config env data su =
     (if y_get (en_yaml env) data ''server_address'' = None
      then Inl (Layer_config_exception ''rpc client: requires server address'')
      else rbind (parse_options (en_yaml env) (rpc_client_parser env data) (y_items (en_yaml env) data)
          \<lparr>co_server_address = [], co_mode = [], co_async = \<lparr>as_cache_limit = 1024 * 1024 * 1024,
             as_block_size = 1024 * 1024, as_threads = 1, as_flush_threshold = 3 / 10\<rparr>\<rparr>)
        (\<lambda>co. if co_mode co = [] \<or> co_mode co = ''sync'' then
                Inr (set_client_config (Sync_config (co_server_address co)) su)
              else if co_mode co = ''async'' then
                Inr (set_client_config (Async_config (co_server_address co) (co_async co)) su)
              else Inl (Layer_config_exception ''rpc client: invalid mode'')))"

definition rpc_server_parser :: "('o, 'c, 'd, 'y) env \<Rightarrow> 'y \<Rightarrow> string \<Rightarrow> (server_config \<Rightarrow> exn + server_config) option" where
  "rpc_server_parser env data option =
     (let y = en_yaml env
      in if option = ''server_address'' then
           Some (\<lambda>sc. rbind (field_as y (y_string y) data option) (\<lambda>s. Inr (sc\<lparr>sv_server_address := s\<rparr>)))
         else if option = ''n_queues'' then
           Some (\<lambda>sc. rbind (field_as y (y_size y) data option) (\<lambda>n. Inr (sc\<lparr>sv_n_queues := n\<rparr>)))
         else if option = ''n_pollers_per_queue'' then
           Some (\<lambda>sc. rbind (field_as y (y_size y) data option) (\<lambda>n. Inr (sc\<lparr>sv_n_pollers_per_queue := n\<rparr>)))
         else None)"

definition rpc_server_config :: "('o, 'c, 'd, 'y) env \<Rightarrow> 'y \<Rightarrow> ('o, 'c) stack_setup \<Rightarrow> exn + ('o, 'c) stack_setup" where
  "rpc_server_config env data su =
     (if y_get (en_yaml env) data ''server_address'' = None
      then Inl (Layer_config_exception ''server: rpc_server: requires server address'')
      else rbind (parse_options (en_yaml env) (rpc_server_parser env data) (y_items (en_yaml env) data)
          \<lparr>sv_server_address = [], sv_n_queues = 1, sv_n_pollers_per_queue = 16\<rparr>)
        (\<lambda>sc. Inr (su\<lparr>su_server := Some sc\<rparr>)))"

section \<open>Initialising the layers\<close>

text \<open>\<^verbatim>\<open>local_config::init_layer\<close> and \<^verbatim>\<open>rpc_client_config::init_layer\<close> assign pointers of the table they get.\<close>

definition in_local :: "('o local_state, 'd) fuse_operations \<Rightarrow> (('o, 'c) process, 'd) fuse_operations" where
  "in_local = lift_table (\<lambda>w. fst (w_below w)) (\<lambda>s w. w\<lparr>w_below := (s, snd (w_below w))\<rparr>)"

definition in_rpc :: "('c rpc_layer, 'd) fuse_operations \<Rightarrow> (('o, 'c) process, 'd) fuse_operations" where
  "in_rpc = lift_table (\<lambda>w. snd (w_below w)) (\<lambda>s w. w\<lparr>w_below := (fst (w_below w), s)\<rparr>)"

definition local_init_layer :: "('o, 'c, 'd, 'y) env \<Rightarrow> path \<Rightarrow> local_mode
    \<Rightarrow> (('o, 'c) process, 'd) fuse_operations \<Rightarrow> ('o, 'c) stack_setup
    \<Rightarrow> (('o, 'c) process, 'd) fuse_operations \<times> ('o, 'c) stack_setup" where
  "local_init_layer env path mode operations su =
     (let w = su_process su; (s, rc) = w_below w;
          (t, s1) = (case mode of
                       NFS \<Rightarrow> assign_nfs_operations (en_posix env) null_operations path s
                     | LOCAL \<Rightarrow> assign_local_operations (en_posix env) null_operations path s)
      in (overlay (in_local t) operations, su\<lparr>su_process := w\<lparr>w_below := (s1, rc)\<rparr>\<rparr>))"

fun init_layer :: "('o, 'c, 'd, 'y) env \<Rightarrow> layer_config
    \<Rightarrow> (('o, 'c) process, 'd) fuse_operations \<Rightarrow> ('o, 'c) stack_setup
    \<Rightarrow> exn + (('o, 'c) process, 'd) fuse_operations \<times> ('o, 'c) stack_setup" where
  "init_layer env Data_cache_config operations su =
     rbind (data_cache_init_layer policy_eviction (su_dc su) (en_clock env) operations) (\<lambda>ops. Inr (ops, su))"
| "init_layer env (Local_config path mode) operations su = Inr (local_init_layer env path mode operations su)"
| "init_layer env Metadata_cache_config operations su =
     rbind (metadata_cache_init_layer policy_eviction (su_mc su) (en_clock env) operations) (\<lambda>ops. Inr (ops, su))"
| "init_layer env Read_ahead_config operations su =
     rbind (read_ahead_init_layer (su_ra su) operations) (\<lambda>ops. Inr (ops, su))"
| "init_layer env Rpc_client_config operations su =
     Inr (overlay (in_rpc (rpc_client_init_layer (en_new_client env) (en_client env) null_operations)) operations, su)"
| "init_layer env Rpc_server_config operations su = Inr (operations, su)"

section \<open>The class config\<close>

record ('o, 'c, 'd) config =
  cf_layers :: "layer_config list"
  cf_operations :: "(('o, 'c) process, 'd) fuse_operations"
  cf_setup :: "('o, 'c) stack_setup"
  cf_debug_mode :: bool

definition make_layer :: "('o, 'c, 'd, 'y) env \<Rightarrow> string \<Rightarrow> 'y \<Rightarrow> ('o, 'c) stack_setup
    \<Rightarrow> exn + layer_config \<times> ('o, 'c) stack_setup" where
  "make_layer env layer data su =
     (if layer = ''data_cache'' then rbind (data_cache_config env data su) (\<lambda>su1. Inr (Data_cache_config, su1))
      else if layer = ''local'' then rbind (local_config env data) (\<lambda>l. Inr (l, su))
      else if layer = ''metadata_cache'' then rbind (metadata_cache_config env data su) (\<lambda>su1. Inr (Metadata_cache_config, su1))
      else if layer = ''read_ahead'' then rbind (read_ahead_config env data su) (\<lambda>su1. Inr (Read_ahead_config, su1))
      else if layer = ''rpc_client'' then rbind (rpc_client_config env data su) (\<lambda>su1. Inr (Rpc_client_config, su1))
      else if layer = ''rpc_server'' then rbind (rpc_server_config env data su) (\<lambda>su1. Inr (Rpc_server_config, su1))
      else Inl (Wrong_config_exception (''layer '' @ [CHR 0x22] @ layer @ [CHR 0x22] @ '' not implemented'')))"

fun make_layers :: "('o, 'c, 'd, 'y) env \<Rightarrow> ('y \<times> 'y) list \<Rightarrow> ('o, 'c) stack_setup
    \<Rightarrow> exn + layer_config list \<times> ('o, 'c) stack_setup" where
  "make_layers env [] su = Inr ([], su)"
| "make_layers env ((k, v) # rest) su =
     rbind (y_string (en_yaml env) k) (\<lambda>layer.
     rbind (make_layer env layer v su) (\<lambda>(l, su1).
     rbind (make_layers env rest su1) (\<lambda>(ls, su2). Inr (l # ls, su2))))"

fun init_layers :: "('o, 'c, 'd, 'y) env \<Rightarrow> layer_config list
    \<Rightarrow> (('o, 'c) process, 'd) fuse_operations \<Rightarrow> ('o, 'c) stack_setup
    \<Rightarrow> exn + (('o, 'c) process, 'd) fuse_operations \<times> ('o, 'c) stack_setup" where
  "init_layers env [] operations su = Inr (operations, su)"
| "init_layers env (l # ls) operations su =
     rbind (init_layer env l operations su) (\<lambda>(ops1, su1). init_layers env ls ops1 su1)"

definition config_new :: "('o, 'c, 'd, 'y) env \<Rightarrow> path \<Rightarrow> ('o, 'c) stack_setup \<Rightarrow> exn + ('o, 'c, 'd) config" where
  "config_new env config_file_path su =
     rbind (y_load (en_yaml env) config_file_path) (\<lambda>node.
       if \<not> y_is_map (en_yaml env) node
       then Inl (Wrong_config_exception ''configuration file is not yaml map'')
       else rbind (make_layers env (y_items (en_yaml env) node) su) (\<lambda>(layers, su1).
         rbind (init_layers env layers null_operations su1) (\<lambda>(ops, su2).
           Inr \<lparr>cf_layers = layers, cf_operations = ops, cf_setup = su2, cf_debug_mode = False\<rparr>)))"

text \<open>\<^verbatim>\<open>config::is_valid\<close>, check by check. The numbers of layers are far below the range of \<^verbatim>\<open>uint\<close>.\<close>

definition is_valid :: "layer_config list \<Rightarrow> exn + unit" where
  "is_valid layers =
     (let n_servers = length (filter (\<lambda>l. l = Rpc_server_config) layers);
          n_clients = length (filter (\<lambda>l. l = Rpc_client_config) layers)
      in if layers = [] then Inl (Wrong_config_exception ''empty configuration file'')
         else if n_servers > 1 then Inl (Wrong_config_exception ''too many rpc_server configurations'')
         else if n_clients > 1 then Inl (Wrong_config_exception ''too many rpc_client configurations'')
         else if n_clients = 1 \<and> hd layers \<noteq> Rpc_client_config
           then Inl (Wrong_config_exception ''rpc client must be the first layer'')
         else if n_servers = 1 \<and> last layers \<noteq> Rpc_server_config
           then Inl (Wrong_config_exception ''rpc server must be the last layer'')
         else if n_servers = 1 \<and> n_clients = 1
           then Inl (Wrong_config_exception ''rpc client and rpc server must not be used in the same stack'')
         else Inr ())"

fun is_client :: "layer_config list \<Rightarrow> bool" where
  "is_client [] = True"
| "is_client (l # ls) = (if l = Rpc_server_config then False else is_client ls)"

text \<open>\<^verbatim>\<open>layers_.back()\<close> of an empty vector is undefined.\<close>

definition is_server :: "layer_config list \<Rightarrow> bool res" where
  "is_server layers = (if layers = [] then Inl Out_of_bounds else Inr (last layers = Rpc_server_config))"

definition config_make :: "('o, 'c, 'd, 'y) env \<Rightarrow> path \<Rightarrow> bool \<Rightarrow> ('o, 'c) stack_setup \<Rightarrow> exn + ('o, 'c, 'd) config" where
  "config_make env config_file_path debug su =
     rbind (config_new env config_file_path su) (\<lambda>conf.
     rbind (is_valid (cf_layers conf)) (\<lambda>_. Inr (conf\<lparr>cf_debug_mode := debug\<rparr>)))"

section \<open>The program\<close>

text \<open>
  How the program ends up: the server running, \<^verbatim>\<open>fuse_main\<close> called with its arguments and table, or a
  message on \<^verbatim>\<open>stderr\<close> - that of an exception, or that of a configuration of no role.
\<close>

datatype ('o, 'c, 'd) outcome =
    Ran_fuse "string list" "(('o, 'c) process, 'd) fuse_operations"
  | Ran_server running_server
  | Not_a_valid_configuration
  | Printed exn

definition client_main :: "('o, 'c, 'd) config \<Rightarrow> string \<Rightarrow> ('o, 'c, 'd) outcome res" where
  "client_main conf mount_point =
     (if \<not> is_client (cf_layers conf) then Inl Assertion
      else Inr (Ran_fuse ((if cf_debug_mode conf then [''-f'', ''-s''] else []) @ [mount_point]) (cf_operations conf)))"

definition server_main :: "('o, 'c, 'd) config \<Rightarrow> ('o, 'c, 'd) outcome res" where
  "server_main conf =
     rbind (is_server (cf_layers conf)) (\<lambda>b.
       if \<not> b then Inl Assertion
       else rbind (deref (su_server (cf_setup conf))) (\<lambda>s_config.
         rbind (server_run (server_new s_config) (cf_operations conf) (su_process (cf_setup conf))) (\<lambda>(srv, _).
           Inr (Ran_server srv))))"

definition rsafefs_main :: "('o, 'c, 'd, 'y) env \<Rightarrow> path \<Rightarrow> string \<Rightarrow> bool \<Rightarrow> ('o, 'c) stack_setup
    \<Rightarrow> ('o, 'c, 'd) outcome res" where
  "rsafefs_main env configuration_file mount_point debug su =
     (case config_make env configuration_file debug su of
        Inl e \<Rightarrow> Inr (Printed e)
      | Inr conf \<Rightarrow>
          if is_client (cf_layers conf) then client_main conf mount_point
          else rbind (is_server (cf_layers conf)) (\<lambda>b.
            if b then server_main conf else Inr Not_a_valid_configuration))"

section \<open>Which table a stack runs with\<close>

text \<open>The pointers a layer assigns: only the two layers that do not go through \<^verbatim>\<open>stack_operation\<close> have any.\<close>

fun layer_table :: "('o, 'c, 'd, 'y) env \<Rightarrow> layer_config \<Rightarrow> (('o, 'c) process, 'd) fuse_operations option" where
  "layer_table env (Local_config path NFS) = Some (in_local (set_nfs_operations (en_posix env) null_operations))"
| "layer_table env (Local_config path LOCAL) = Some (in_local (set_local_operations (en_posix env) null_operations))"
| "layer_table env Rpc_client_config =
     Some (in_rpc (rpc_client_init_layer (en_new_client env) (en_client env) null_operations))"
| "layer_table env _ = None"

fun is_cache_layer :: "layer_config \<Rightarrow> bool" where
  "is_cache_layer Data_cache_config = True"
| "is_cache_layer Metadata_cache_config = True"
| "is_cache_layer Read_ahead_config = True"
| "is_cache_layer _ = False"

fun caches_have_a_bottom :: "('o, 'c, 'd, 'y) env \<Rightarrow> layer_config list \<Rightarrow> bool" where
  "caches_have_a_bottom env [] = True"
| "caches_have_a_bottom env (l # ls) =
     (if layer_table env l \<noteq> None then True else \<not> is_cache_layer l \<and> caches_have_a_bottom env ls)"

definition stack_table :: "('o, 'c, 'd, 'y) env \<Rightarrow> layer_config list \<Rightarrow> (('o, 'c) process, 'd) fuse_operations
    \<Rightarrow> (('o, 'c) process, 'd) fuse_operations" where
  "stack_table env ls ops = fold overlay (List.map_filter (layer_table env) ls) ops"

lemma or_else_None [simp]: "or_else a b = None \<longleftrightarrow> a = None \<and> b = None"
  by (simp add: or_else_def split: option.splits)

lemma overlay_ready:
  "has_metadata new \<and> reads_files new \<Longrightarrow> has_metadata (overlay new old) \<and> reads_files (overlay new old)"
  by (simp add: has_metadata_def reads_files_def overlay_def)

lemma layer_table_ready:
  "layer_table env l = Some t \<Longrightarrow> has_metadata t \<and> reads_files t"
  by (cases "(env, l)" rule: layer_table.cases)
     (auto simp: in_local_def in_rpc_def lift_table_def set_nfs_operations_def set_local_operations_def
        rpc_client_init_layer_def has_metadata_def reads_files_def)

text \<open>What initialising one layer does to the table.\<close>

lemma init_layer_table:
  "(case init_layer env l ops su of
      Inl e \<Rightarrow> e = Stack_operation_exception \<and> is_cache_layer l \<and> \<not> (has_metadata ops \<and> reads_files ops)
    | Inr (ops', su') \<Rightarrow> (is_cache_layer l \<longrightarrow> (has_metadata ops \<or> reads_files ops)) \<and>
        ops' = (case layer_table env l of None \<Rightarrow> ops | Some t \<Rightarrow> overlay t ops))"
  by (cases "(env, l)" rule: layer_table.cases)
     (auto simp: data_cache_init_layer_result metadata_cache_init_layer_result read_ahead_init_layer_result
        local_init_layer_def assign_nfs_operations_def assign_local_operations_def Let_def split_beta)

lemma init_layers_ready:
  assumes "has_metadata ops \<and> reads_files ops"
  shows "\<exists>su'. init_layers env ls ops su = Inr (stack_table env ls ops, su')"
  using assms
proof (induction ls arbitrary: ops su)
  case Nil
  show ?case by (simp add: stack_table_def List.map_filter_def)
next
  case (Cons l ls)
  obtain su1 where i: "init_layer env l ops su =
      Inr ((case layer_table env l of None \<Rightarrow> ops | Some t \<Rightarrow> overlay t ops), su1)"
    using init_layer_table [where env = env and l = l and ops = ops and su = su] Cons.prems by (auto split: sum.splits)
  show ?case
  proof (cases "layer_table env l")
    case None
    then show ?thesis
      using i Cons.IH [OF Cons.prems, of su1] by (simp add: stack_table_def List.map_filter_simps)
  next
    case (Some t)
    then show ?thesis
      using i Cons.IH [OF overlay_ready [OF layer_table_ready [OF Some]], of ops su1]
      by (simp add: stack_table_def List.map_filter_simps)
  qed
qed

section \<open>Which role a configuration runs in\<close>

definition no_role :: "layer_config list \<Rightarrow> bool" where
  "no_role ls \<longleftrightarrow> Rpc_client_config \<notin> set ls \<and> Rpc_server_config \<notin> set ls"

definition client_stack :: "layer_config list \<Rightarrow> bool" where
  "client_stack ls \<longleftrightarrow> ls \<noteq> [] \<and> (no_role ls \<or> (\<exists>mid. ls = Rpc_client_config # mid \<and> no_role mid))"

definition server_stack :: "layer_config list \<Rightarrow> bool" where
  "server_stack ls \<longleftrightarrow> (\<exists>mid. ls = mid @ [Rpc_server_config] \<and> no_role mid)"

lemma count_zero: "length (filter (\<lambda>x. x = a) xs) = 0 \<longleftrightarrow> a \<notin> set xs"
  by (auto simp: filter_empty_conv)

lemma filter_none: "a \<notin> set xs \<Longrightarrow> filter (\<lambda>x. x = a) xs = []"
  by (auto simp: filter_empty_conv)

lemma is_valid_accepts: "is_valid ls = Inr () \<longleftrightarrow> client_stack ls \<or> server_stack ls"
proof
  assume v: "is_valid ls = Inr ()"
  then have ne: "ls \<noteq> []"
    and n: "length (filter (\<lambda>l. l = Rpc_client_config) ls) \<le> 1" "length (filter (\<lambda>l. l = Rpc_server_config) ls) \<le> 1"
    and c: "length (filter (\<lambda>l. l = Rpc_client_config) ls) = 1 \<Longrightarrow>
      hd ls = Rpc_client_config \<and> length (filter (\<lambda>l. l = Rpc_server_config) ls) \<noteq> 1"
    and s: "length (filter (\<lambda>l. l = Rpc_server_config) ls) = 1 \<Longrightarrow>
      last ls = Rpc_server_config \<and> length (filter (\<lambda>l. l = Rpc_client_config) ls) \<noteq> 1"
    by (auto simp: is_valid_def Let_def split: if_splits)
  consider "Rpc_client_config \<in> set ls" | "Rpc_server_config \<in> set ls" "Rpc_client_config \<notin> set ls" | "no_role ls"
    by (auto simp: no_role_def)
  then show "client_stack ls \<or> server_stack ls"
  proof cases
    case 1
    then have one: "length (filter (\<lambda>l. l = Rpc_client_config) ls) = 1"
      using n(1) count_zero [of Rpc_client_config ls] by linarith
    obtain mid where l: "ls = Rpc_client_config # mid"
      using c [OF one] ne by (cases ls) auto
    have "length (filter (\<lambda>l. l = Rpc_client_config) mid) = 0"
      using one l by simp
    moreover have "length (filter (\<lambda>l. l = Rpc_server_config) mid) = 0"
      using c [OF one] n(2) l by (simp del: length_0_conv)
    ultimately show ?thesis
      using l by (simp only: client_stack_def no_role_def count_zero) blast
  next
    case 2
    then have one: "length (filter (\<lambda>l. l = Rpc_server_config) ls) = 1"
      using n(2) count_zero [of Rpc_server_config ls] by linarith
    obtain mid where l: "ls = mid @ [Rpc_server_config]"
      using s [OF one] ne by (metis append_butlast_last_id)
    have "length (filter (\<lambda>l. l = Rpc_server_config) mid) = 0"
      using one l by simp
    then show ?thesis
      using l 2(2) by (auto simp: server_stack_def no_role_def filter_empty_conv)
  next
    case 3
    then show ?thesis using ne by (simp add: client_stack_def)
  qed
next
  assume "client_stack ls \<or> server_stack ls"
  then show "is_valid ls = Inr ()"
    by (auto simp: client_stack_def server_stack_def is_valid_def no_role_def Let_def filter_none)
qed

lemma is_client_iff: "is_client ls \<longleftrightarrow> Rpc_server_config \<notin> set ls"
  by (induction ls) auto

text \<open>A server layer in the list has left its configuration behind.\<close>

lemma parse_options_keeps:
  assumes "\<And>option act c c'. parser option = Some act \<Longrightarrow> act c = Inr c' \<Longrightarrow> f c' = f c"
    and "parse_options y parser items c = Inr c'"
  shows "f c' = f c"
  using assms(2)
proof (induction items arbitrary: c)
  case (Cons kv items)
  obtain k v where kv: "kv = (k, v)" by fastforce
  obtain option where o: "y_string y k = Inr option"
    using Cons.prems kv by (auto simp: rbind_eq_Inr_conv)
  show ?case
  proof (cases "parser option")
    case None
    with Cons kv o show ?thesis by simp
  next
    case (Some act)
    then obtain c1 where "act c = Inr c1" "parse_options y parser items c1 = Inr c'"
      using Cons.prems kv o by (auto simp: rbind_eq_Inr_conv)
    with assms(1) [OF Some] Cons.IH show ?thesis by metis
  qed
qed simp

lemma data_cache_config_server: "data_cache_config env data su = Inr su' \<Longrightarrow> su_server su' = su_server su"
  unfolding data_cache_config_def
  by (drule parse_options_keeps [where f = su_server, rotated])
     (auto simp: data_cache_parser_def Let_def rbind_eq_Inr_conv split: if_splits)

lemma metadata_cache_config_server: "metadata_cache_config env data su = Inr su' \<Longrightarrow> su_server su' = su_server su"
  unfolding metadata_cache_config_def
  by (drule parse_options_keeps [where f = su_server, rotated])
     (auto simp: metadata_cache_parser_def Let_def rbind_eq_Inr_conv split: if_splits)

lemma read_ahead_config_server: "read_ahead_config env data su = Inr su' \<Longrightarrow> su_server su' = su_server su"
  unfolding read_ahead_config_def
  by (drule parse_options_keeps [where f = su_server, rotated])
     (auto simp: read_ahead_parser_def Let_def rbind_eq_Inr_conv split: if_splits)

lemma make_layer_server:
  assumes "make_layer env layer data su = Inr (l, su')"
  shows "su_server su' \<noteq> None \<longleftrightarrow> su_server su \<noteq> None \<or> l = Rpc_server_config"
  using assms data_cache_config_server [of env data su] metadata_cache_config_server [of env data su]
    read_ahead_config_server [of env data su]
  by (auto simp: make_layer_def local_config_def rpc_client_config_def rpc_server_config_def set_client_config_def
      rbind_eq_Inr_conv Let_def split_beta split: if_splits)

lemma make_layers_server:
  "make_layers env items su = Inr (ls, su') \<Longrightarrow>
     su_server su' \<noteq> None \<longleftrightarrow> su_server su \<noteq> None \<or> Rpc_server_config \<in> set ls"
proof (induction items arbitrary: su ls)
  case (Cons kv items)
  obtain k v where kv: "kv = (k, v)" by fastforce
  then obtain layer l su1 ls1 where "make_layer env layer v su = Inr (l, su1)" "make_layers env items su1 = Inr (ls1, su')"
    "ls = l # ls1"
    using Cons.prems by (auto simp: rbind_eq_Inr_conv)
  with Cons.IH [of su1 ls1] make_layer_server [of env layer v su l su1] show ?case by auto
qed simp

lemma init_layers_server: "init_layers env ls ops su = Inr (ops', su') \<Longrightarrow> su_server su' = su_server su"
proof (induction ls arbitrary: ops su)
  case (Cons l ls)
  then obtain ops1 su1 where i: "init_layer env l ops su = Inr (ops1, su1)" "init_layers env ls ops1 su1 = Inr (ops', su')"
    by (auto simp: rbind_eq_Inr_conv)
  have "su_server su1 = su_server su"
    using i(1) by (cases l) (auto simp: rbind_eq_Inr_conv local_init_layer_def Let_def split_beta split: local_mode.splits)
  with i(2) Cons.IH show ?case by metis
qed simp

lemma config_make_setup:
  assumes "config_make env file dbg su = Inr conf"
  shows "is_valid (cf_layers conf) = Inr () \<and> cf_debug_mode conf = dbg \<and>
     (su_server (cf_setup conf) \<noteq> None \<longleftrightarrow> su_server su \<noteq> None \<or> Rpc_server_config \<in> set (cf_layers conf))"
proof -
  obtain c node layers su1 ops su2 where c: "is_valid (cf_layers c) = Inr ()" "conf = c\<lparr>cf_debug_mode := dbg\<rparr>"
    "c = \<lparr>cf_layers = layers, cf_operations = ops, cf_setup = su2, cf_debug_mode = False\<rparr>"
    and m: "make_layers env (y_items (en_yaml env) node) su = Inr (layers, su1)"
    and i: "init_layers env layers null_operations su1 = Inr (ops, su2)"
    using assms by (auto simp: config_make_def config_new_def rbind_eq_Inr_conv split: if_splits)
  show ?thesis
    using c init_layers_server [OF i] make_layers_server [OF m] by simp
qed

section \<open>Properties\<close>

text \<open>
  C20. The caching layers never enter the stack. For every list of layers, composing them over an empty
  table either throws \<^verbatim>\<open>stack_operation_exception\<close> - exactly when a caching layer comes before the
  first bottom layer - or ends with the table of the bottom layers alone: the pointers the local
  or the RPC client layer assigned are still there, whatever caching layers follow, although the
  source stacks them to intercept these operations.
\<close>

theorem caching_layers_never_installed:
  "case init_layers env ls null_operations su of
     Inl e \<Rightarrow> e = Stack_operation_exception \<and> \<not> caches_have_a_bottom env ls
   | Inr (ops, su') \<Rightarrow> caches_have_a_bottom env ls \<and> ops = stack_table env ls null_operations"
proof (induction ls arbitrary: su)
  case Nil
  show ?case by (simp add: stack_table_def List.map_filter_def)
next
  case (Cons l ls)
  have n: "\<not> has_metadata null_operations" "\<not> reads_files null_operations"
    by (simp_all add: has_metadata_def reads_files_def null_operations_def)
  note i = init_layer_table [where env = env and l = l and ops = null_operations and su = su]
  show ?case
  proof (cases "layer_table env l")
    case (Some t)
    then have c: "\<not> is_cache_layer l" by (cases l) auto
    then obtain su1 where "init_layer env l null_operations su = Inr (overlay t null_operations, su1)"
      using i Some by (auto split: sum.splits)
    then show ?thesis
      using init_layers_ready [where ops = "overlay t null_operations" and env = env and ls = ls and su = su1]
        overlay_ready [OF layer_table_ready [OF Some]] Some
      by (auto simp: stack_table_def List.map_filter_simps)
  next
    case None
    show ?thesis
    proof (cases "is_cache_layer l")
      case True
      then have "init_layer env l null_operations su = Inl Stack_operation_exception"
        using i n by (auto split: sum.splits)
      with None True show ?thesis by simp
    next
      case False
      then obtain su1 where "init_layer env l null_operations su = Inr (null_operations, su1)"
        using i None by (auto split: sum.splits)
      moreover have "caches_have_a_bottom env (l # ls) = caches_have_a_bottom env ls"
        "stack_table env (l # ls) null_operations = stack_table env ls null_operations"
        using None False by (simp_all add: stack_table_def List.map_filter_simps)
      ultimately show ?thesis
        using Cons.IH [of su1] by (simp only: init_layers.simps rbind_Inr prod.case)
    qed
  qed
qed

text \<open>
  Every configuration the program accepts has one role. A configuration is accepted only if it is a
  client stack (no RPC layer, or the RPC client first and no other) or a server stack (the RPC server
  last and no other); the program then calls \<^verbatim>\<open>fuse_main\<close> with the composed table in the first case
  and starts the server with it, its configuration at hand, in the second; it never
  prints that the file is not a valid configuration.
\<close>

theorem configuration_has_one_role:
  "rsafefs_main env file mount_point dbg su \<noteq> Inr Not_a_valid_configuration \<and>
   (case config_make env file dbg su of
      Inl e \<Rightarrow> rsafefs_main env file mount_point dbg su = Inr (Printed e)
    | Inr conf \<Rightarrow>
        if Rpc_server_config \<in> set (cf_layers conf)
        then server_stack (cf_layers conf) \<and>
          (\<exists>cfg. su_server (cf_setup conf) = Some cfg \<and>
             rsafefs_main env file mount_point dbg su =
               rbind (server_run (server_new cfg) (cf_operations conf) (su_process (cf_setup conf)))
                 (\<lambda>(srv, _). Inr (Ran_server srv)))
        else client_stack (cf_layers conf) \<and>
          rsafefs_main env file mount_point dbg su =
            Inr (Ran_fuse ((if dbg then [''-f'', ''-s''] else []) @ [mount_point]) (cf_operations conf)))"
proof (cases "config_make env file dbg su")
  case (Inl e)
  then show ?thesis by (simp add: rsafefs_main_def)
next
  case (Inr conf)
  note conf = config_make_setup [OF Inr]
  have stack: "client_stack (cf_layers conf) \<or> server_stack (cf_layers conf)"
    using conf is_valid_accepts by blast
  show ?thesis
  proof (cases "Rpc_server_config \<in> set (cf_layers conf)")
    case False
    then have "is_client (cf_layers conf)" "client_stack (cf_layers conf)"
      using stack by (auto simp: is_client_iff server_stack_def)
    with False Inr conf show ?thesis
      by (simp add: rsafefs_main_def client_main_def)
  next
    case True
    then have l: "server_stack (cf_layers conf)" "is_server (cf_layers conf) = Inr True" "\<not> is_client (cf_layers conf)"
      using stack by (auto simp: is_client_iff client_stack_def server_stack_def is_server_def no_role_def)
    obtain cfg where "su_server (cf_setup conf) = Some cfg"
      using conf True by auto
    with True Inr l show ?thesis
      by (auto simp: rsafefs_main_def server_main_def rbind_eq_Inr_conv split: prod.splits)
  qed
qed

end
