(* ===== verification/Startup.thy ===== *)
theory Startup
  imports Config
begin

text \<open>
  The program from its command line (\<^verbatim>\<open>src/src/rsafefs.cpp\<close>) to its end: the options the code declares to CLI11,
  \<^verbatim>\<open>main\<close> with its exit status, and the destructors of the configuration. CLI11 is a parameter: from the declared
  options and the arguments it computes an exit code or the variables to assign. The property composes \<^verbatim>\<open>main\<close>
  with the role a configuration runs in.
\<close>

section \<open>The command line\<close>

text \<open>The variables of \<^verbatim>\<open>main\<close>, and the options that are bound to them.\<close>

record command_line =
  cl_configuration_file :: string
  cl_mount_point :: string
  cl_debug :: bool

datatype cli_variable = Var_configuration_file | Var_mount_point | Var_debug

datatype cli_check = No_check | ExistingFile | ExistingDirectory

datatype cli_value = Text string | Flag bool

record cli_option =
  opt_names :: string
  opt_variable :: cli_variable
  opt_description :: string
  opt_check :: cli_check
  opt_required :: bool
  opt_is_flag :: bool

definition app_options :: "cli_option list" where
  "app_options =
     [\<lparr>opt_names = ''-c,--conf'', opt_variable = Var_configuration_file, opt_description = ''configuration file'',
       opt_check = ExistingFile, opt_required = True, opt_is_flag = False\<rparr>,
      \<lparr>opt_names = ''-m,--mount'', opt_variable = Var_mount_point,
       opt_description = ''mount point (required only on clients)'',
       opt_check = ExistingDirectory, opt_required = False, opt_is_flag = False\<rparr>,
      \<lparr>opt_names = ''-d,--debug'', opt_variable = Var_debug, opt_description = ''Show debug info'',
       opt_check = No_check, opt_required = False, opt_is_flag = True\<rparr>]"

fun assign :: "cli_variable \<times> cli_value \<Rightarrow> command_line \<Rightarrow> command_line" where
  "assign (Var_configuration_file, Text v) cl = cl\<lparr>cl_configuration_file := v\<rparr>"
| "assign (Var_mount_point, Text v) cl = cl\<lparr>cl_mount_point := v\<rparr>"
| "assign (Var_debug, Flag b) cl = cl\<lparr>cl_debug := b\<rparr>"
| "assign _ cl = cl"

definition command_line_of :: "(cli_variable \<times> cli_value) list \<Rightarrow> command_line" where
  "command_line_of vs = fold assign vs \<lparr>cl_configuration_file = [], cl_mount_point = [], cl_debug = False\<rparr>"

type_synonym cli_parser = "cli_option list \<Rightarrow> string list \<Rightarrow> int + (cli_variable \<times> cli_value) list"

section \<open>The program\<close>

datatype ('o, 'c, 'd) program_end = Command_line_error | Went "('o, 'c, 'd) outcome"

text \<open>
  \<^verbatim>\<open>CLI11_PARSE\<close> returns from \<^verbatim>\<open>main\<close> with the code of the parser; every other way through \<^verbatim>\<open>main\<close> returns 0.
\<close>

definition main_program :: "('o, 'c, 'd, 'y) env \<Rightarrow> cli_parser \<Rightarrow> string list \<Rightarrow> ('o, 'c) stack_setup
    \<Rightarrow> (('o, 'c, 'd) program_end \<times> int) res" where
  "main_program env cli argv su =
     (case cli app_options argv of
        Inl code \<Rightarrow> Inr (Command_line_error, code)
      | Inr vs \<Rightarrow>
          let cl = command_line_of vs
          in rbind (rsafefs_main env (cl_configuration_file cl) (cl_mount_point cl) (cl_debug cl) su)
               (\<lambda>out. Inr (Went out, 0)))"

section \<open>The end of a configuration\<close>

text \<open>
  \<^verbatim>\<open>clean_layer\<close> of every layer only logs. The destructors of the layers do nothing, except that of the
  server's configuration, which deletes the static object and resets the pointer. The objects deleted are
  recorded in order.
\<close>

fun clean_layer :: "layer_config \<Rightarrow> ('o, 'c) stack_setup \<Rightarrow> ('o, 'c) stack_setup" where
  "clean_layer _ su = su"

fun layer_dtor :: "layer_config \<Rightarrow> server_config list \<times> ('o, 'c) stack_setup \<Rightarrow> server_config list \<times> ('o, 'c) stack_setup" where
  "layer_dtor Rpc_server_config (freed, su) =
     (case su_server su of
        None \<Rightarrow> (freed, su)
      | Some cfg \<Rightarrow> (freed @ [cfg], su\<lparr>su_server := None\<rparr>))"
| "layer_dtor _ (freed, su) = (freed, su)"

definition config_dtor :: "('o, 'c, 'd) config \<Rightarrow> server_config list \<times> ('o, 'c) stack_setup" where
  "config_dtor conf = fold layer_dtor (cf_layers conf) ([], fold clean_layer (cf_layers conf) (cf_setup conf))"

lemma fold_clean_layer [simp]: "fold clean_layer ls su = su"
  by (induction ls) auto

lemma fold_layer_dtor:
  "fold layer_dtor ls (freed, su) =
     (if Rpc_server_config \<in> set ls
      then (freed @ (case su_server su of None \<Rightarrow> [] | Some cfg \<Rightarrow> [cfg]), su\<lparr>su_server := None\<rparr>)
      else (freed, su))"
proof (induction ls arbitrary: freed su)
  case (Cons l ls)
  then show ?case by (cases l) (auto split: option.splits)
qed simp

text \<open>
  Destroying a configuration that was made frees what its constructor left: exactly one server configuration
  when there is a server layer and none otherwise; the pointer is null afterwards, so nothing is freed twice
  by a further layer of that kind.
\<close>

theorem config_dtor_frees:
  assumes "config_make env file dbg su = Inr conf" and "su_server su = None"
  shows "su_server (snd (config_dtor conf)) = None \<and>
     fst (config_dtor conf) = (case su_server (cf_setup conf) of None \<Rightarrow> [] | Some cfg \<Rightarrow> [cfg]) \<and>
     (fst (config_dtor conf) \<noteq> [] \<longleftrightarrow> Rpc_server_config \<in> set (cf_layers conf))"
proof -
  have "su_server (cf_setup conf) \<noteq> None \<longleftrightarrow> Rpc_server_config \<in> set (cf_layers conf)"
    using config_make_setup [OF assms(1)] assms(2) by simp
  then show ?thesis by (auto simp: config_dtor_def fold_layer_dtor split: option.splits)
qed

section \<open>What the command line guarantees\<close>

text \<open>
  What CLI11 documents: a successful parse assigns only to variables of declared options, with values that pass
  the check of the option, and assigns to the variable of every required option.
\<close>

fun passes :: "(string \<Rightarrow> bool) \<Rightarrow> (string \<Rightarrow> bool) \<Rightarrow> cli_option \<Rightarrow> cli_value \<Rightarrow> bool" where
  "passes is_file is_dir opt (Flag _) = opt_is_flag opt"
| "passes is_file is_dir opt (Text v) =
     (\<not> opt_is_flag opt \<and> (case opt_check opt of No_check \<Rightarrow> True | ExistingFile \<Rightarrow> is_file v | ExistingDirectory \<Rightarrow> is_dir v))"

definition admitted :: "(string \<Rightarrow> bool) \<Rightarrow> (string \<Rightarrow> bool) \<Rightarrow> cli_option list \<Rightarrow> (cli_variable \<times> cli_value) list \<Rightarrow> bool" where
  "admitted is_file is_dir opts vs \<longleftrightarrow>
     list_all (\<lambda>(x, v). list_ex (\<lambda>opt. opt_variable opt = x \<and> passes is_file is_dir opt v) opts) vs \<and>
     list_all (\<lambda>opt. opt_required opt \<longrightarrow> opt_variable opt \<in> fst ` set vs) opts"

definition cli_contract :: "(string \<Rightarrow> bool) \<Rightarrow> (string \<Rightarrow> bool) \<Rightarrow> cli_parser \<Rightarrow> bool" where
  "cli_contract is_file is_dir cli \<longleftrightarrow> (\<forall>opts argv vs. cli opts argv = Inr vs \<longrightarrow> admitted is_file is_dir opts vs)"

text \<open>One assignment that passes the checks of \<open>app_options\<close>.\<close>

lemma assign_cases:
  assumes "list_ex (\<lambda>opt. opt_variable opt = x \<and> passes is_file is_dir opt v) app_options"
  obtains f where "x = Var_configuration_file" "v = Text f" "is_file f"
    | d where "x = Var_mount_point" "v = Text d" "is_dir d"
    | b where "x = Var_debug" "v = Flag b"
  using assms by (cases v) (auto simp: app_options_def)

lemma fold_assign_checked:
  assumes "list_all (\<lambda>(x, v). list_ex (\<lambda>opt. opt_variable opt = x \<and> passes is_file is_dir opt v) app_options) vs"
  shows "(Var_configuration_file \<in> fst ` set vs \<or> is_file (cl_configuration_file cl) \<longrightarrow>
            is_file (cl_configuration_file (fold assign vs cl))) \<and>
         (cl_mount_point cl = [] \<or> is_dir (cl_mount_point cl) \<longrightarrow>
            cl_mount_point (fold assign vs cl) = [] \<or> is_dir (cl_mount_point (fold assign vs cl))) \<and>
         (Var_mount_point \<notin> fst ` set vs \<longrightarrow> cl_mount_point (fold assign vs cl) = cl_mount_point cl)"
  using assms
proof (induction vs arbitrary: cl)
  case (Cons a vs)
  obtain x v where a: "a = (x, v)" by fastforce
  with Cons.prems have ok: "list_ex (\<lambda>opt. opt_variable opt = x \<and> passes is_file is_dir opt v) app_options" by simp
  note IH = Cons.IH [where cl = "assign a cl"]
  from ok show ?case
    by (rule assign_cases) (use Cons.prems a IH in auto)
qed simp

lemma command_line_checked:
  assumes "admitted is_file is_dir app_options vs"
  shows "is_file (cl_configuration_file (command_line_of vs))"
    and "cl_mount_point (command_line_of vs) = [] \<or> is_dir (cl_mount_point (command_line_of vs))"
    and "Var_mount_point \<notin> fst ` set vs \<Longrightarrow> cl_mount_point (command_line_of vs) = []"
proof -
  have "Var_configuration_file \<in> fst ` set vs"
    using assms by (simp add: admitted_def app_options_def)
  then show "is_file (cl_configuration_file (command_line_of vs))"
    "cl_mount_point (command_line_of vs) = [] \<or> is_dir (cl_mount_point (command_line_of vs))"
    "Var_mount_point \<notin> fst ` set vs \<Longrightarrow> cl_mount_point (command_line_of vs) = []"
    using fold_assign_checked [of is_file is_dir vs
        "\<lparr>cl_configuration_file = [], cl_mount_point = [], cl_debug = False\<rparr>"] assms
    by (simp_all add: command_line_of_def admitted_def)
qed

text \<open>
  C21. The program from its command line. If CLI11 refuses the arguments, \<^verbatim>\<open>main\<close> returns its code and runs
  nothing. Otherwise the configuration file exists, and the mount point is an existing directory or, when the
  option is absent, empty, for a client too. A configuration that cannot be made is reported, and one that is
  made has one role: a server stack (the RPC server last and no other RPC layer) starts the server with the
  composed table and the server's configuration, and a client stack (no RPC layer, or the RPC client first and no
  other) calls \<^verbatim>\<open>fuse_main\<close> with it and the mount point as the last argument. The message for a configuration of
  no role is never printed, and whatever happened, the exit status is 0.
\<close>

theorem program_has_one_role:
  assumes "cli_contract is_file is_dir cli"
  shows "case cli app_options argv of
     Inl code \<Rightarrow> main_program env cli argv su = Inr (Command_line_error, code)
   | Inr vs \<Rightarrow>
       (let cl = command_line_of vs; run = main_program env cli argv su
        in is_file (cl_configuration_file cl) \<and>
           (cl_mount_point cl = [] \<or> is_dir (cl_mount_point cl)) \<and>
           (Var_mount_point \<notin> fst ` set vs \<longrightarrow> cl_mount_point cl = []) \<and>
           run \<noteq> Inr (Went Not_a_valid_configuration, 0) \<and>
           (case config_make env (cl_configuration_file cl) (cl_debug cl) su of
              Inl e \<Rightarrow> run = Inr (Went (Printed e), 0)
            | Inr conf \<Rightarrow>
                if Rpc_server_config \<in> set (cf_layers conf)
                then server_stack (cf_layers conf) \<and>
                  (\<exists>cfg. su_server (cf_setup conf) = Some cfg \<and>
                     run = rbind (server_run (server_new cfg) (cf_operations conf) (su_process (cf_setup conf)))
                             (\<lambda>(srv, _). Inr (Went (Ran_server srv), 0)))
                else client_stack (cf_layers conf) \<and>
                  run = Inr (Went (Ran_fuse ((if cl_debug cl then [''-f'', ''-s''] else []) @ [cl_mount_point cl])
                                     (cf_operations conf)), 0)))"
proof (cases "cli app_options argv")
  case (Inl code)
  then show ?thesis by (simp add: main_program_def)
next
  case (Inr vs)
  define cl where "cl = command_line_of vs"
  have "admitted is_file is_dir app_options vs"
    using assms Inr by (simp add: cli_contract_def)
  note checked = command_line_checked [OF this, folded cl_def]
  have run: "main_program env cli argv su =
      rbind (rsafefs_main env (cl_configuration_file cl) (cl_mount_point cl) (cl_debug cl) su) (\<lambda>out. Inr (Went out, 0))"
    using Inr by (simp add: main_program_def cl_def Let_def)
  note role = configuration_has_one_role [of env "cl_configuration_file cl" "cl_mount_point cl" "cl_debug cl" su]
  have "main_program env cli argv su \<noteq> Inr (Went Not_a_valid_configuration, 0)"
    using role by (auto simp: run rbind_eq_Inr_conv)
  with role checked Inr show ?thesis
    by (auto simp: Let_def cl_def [symmetric] run rbind_assoc split_def split: sum.splits)
qed

text \<open>
  The command of the README on a file whose document is a local layer: a parser that reads exactly this form of
  arguments and checks it, and a YAML document as a tree.
\<close>

datatype sample_yaml = Scalar string | Mapping_node "(sample_yaml \<times> sample_yaml) list"

fun sample_text :: "sample_yaml \<Rightarrow> exn + string" where
  "sample_text (Scalar s) = Inr s"
| "sample_text _ = Inl Yaml_exception"

fun sample_items :: "sample_yaml \<Rightarrow> (sample_yaml \<times> sample_yaml) list" where
  "sample_items (Mapping_node kvs) = kvs"
| "sample_items _ = []"

definition sample_yaml_lib :: "sample_yaml yaml" where
  "sample_yaml_lib = \<lparr>
     y_load = (\<lambda>f. if f = ''local.yml''
                    then Inr (Mapping_node [(Scalar ''local'', Mapping_node [(Scalar ''path'', Scalar ''/export'')])])
                    else Inl Yaml_exception),
     y_is_map = (\<lambda>n. case n of Mapping_node _ \<Rightarrow> True | _ \<Rightarrow> False),
     y_items = sample_items, y_get = (\<lambda>n k. map_of (sample_items n) (Scalar k)), y_string = sample_text,
     y_size = (\<lambda>_. Inl Yaml_exception), y_int = (\<lambda>_. Inl Yaml_exception), y_double = (\<lambda>_. Inl Yaml_exception)\<rparr>"

definition sample_env :: "(nat, unit, dir_info, sample_yaml) env" where
  "sample_env = \<lparr>en_yaml = sample_yaml_lib, en_posix = steady_kernel [], en_is_directory = (\<lambda>d. d = ''/export''),
     en_clock = (\<lambda>_. 0), en_random = (\<lambda>_. 0), en_new_client = (\<lambda>_. ()), en_client = null_operations\<rparr>"

definition sample_setup :: "(nat, unit) stack_setup" where
  "sample_setup = \<lparr>su_mc = \<lparr>mc_size = 0, mc_time_out = 0\<rparr>, su_dc = \<lparr>dc_size = 0, dc_block_size = 0, dc_time_out = 0\<rparr>,
     su_ra = \<lparr>ra_size = 0\<rparr>, su_server = None,
     su_process = \<lparr>w_mc_cache = None, w_mc_policy = Lru_policy lru_empty, w_dc_cache = None,
       w_dc_policy = Lru_policy lru_empty, w_ra_cache = None,
       w_below = (idle_state [], \<lparr>rc_config = None, rc_client = None\<rparr>)\<rparr>\<rparr>"

definition sample_cli :: cli_parser where
  "sample_cli opts argv =
     (let vs = (case argv of
                  [_, c, conf, m, dir] \<Rightarrow>
                    if c = ''-c'' \<and> m = ''-m'' then [(Var_configuration_file, Text conf), (Var_mount_point, Text dir)] else []
                | _ \<Rightarrow> [])
      in if admitted (\<lambda>f. f = ''local.yml'') (\<lambda>d. d = ''/mnt'') opts vs then Inr vs else Inl 106)"

theorem program_has_one_role_witness:
  "cli_contract (\<lambda>f. f = ''local.yml'') (\<lambda>d. d = ''/mnt'') sample_cli \<and>
   main_program sample_env sample_cli [''rsafefs'', ''-c'', ''local.yml'', ''-m'', ''/mnt''] sample_setup =
     Inr (Went (Ran_fuse [''/mnt'']
       (overlay (in_local (set_local_operations (steady_kernel []) null_operations)) null_operations)), 0)"
proof -
  let ?argv = "[''rsafefs'', ''-c'', ''local.yml'', ''-m'', ''/mnt'']"
  let ?vs = "[(Var_configuration_file, Text ''local.yml''), (Var_mount_point, Text ''/mnt'')]"
  have c: "cli_contract (\<lambda>f. f = ''local.yml'') (\<lambda>d. d = ''/mnt'') sample_cli"
    by (auto simp: cli_contract_def sample_cli_def Let_def split: if_splits)
  have p: "sample_cli app_options ?argv = Inr ?vs"
    by (simp add: sample_cli_def admitted_def app_options_def)
  have l: "command_line_of ?vs = \<lparr>cl_configuration_file = ''local.yml'', cl_mount_point = ''/mnt'', cl_debug = False\<rparr>"
    by (simp add: command_line_of_def)
  obtain conf where conf: "config_make sample_env ''local.yml'' False sample_setup = Inr conf"
    "cf_layers conf = [Local_config ''/export'' LOCAL]"
    "cf_operations conf = overlay (in_local (set_local_operations (steady_kernel []) null_operations)) null_operations"
    by (simp add: config_make_def config_new_def sample_env_def sample_yaml_lib_def make_layer_def local_config_def
        local_parser_def field_as_def is_valid_def local_init_layer_def assign_local_operations_def sample_setup_def Let_def)
  show ?thesis
    using program_has_one_role [OF c, where argv = ?argv and env = sample_env and su = sample_setup] c conf by (simp add: p l Let_def)
qed

end
