(* ===== verification/Stream_Threads.thy ===== *)
theory Stream_Threads
  imports Rpc_Server Sync_Client "HOL-Library.Multiset"
begin

text \<open>
  Threads that share the stream of a path (\<^verbatim>\<open>lib/fuse_rpc/grpc/sync_client.cpp\<close>, \<^verbatim>\<open>read\<close>, \<^verbatim>\<open>write\<close>, \<^verbatim>\<open>create_streams\<close>,
  \<^verbatim>\<open>remove_streams\<close>). FUSE runs the operations of one path on several threads. A thread finds the stream under the
  lock of the map, sends its request under \<^verbatim>\<open>mtx_write_\<close>, takes \<^verbatim>\<open>mtx_read_\<close> before it gives \<^verbatim>\<open>mtx_write_\<close> back and
  waits for the answer. Every lock operation and every call of the stream is a step of its own; the steps of the threads,
  of the server's call object and of the network interleave in any order.

  The properties: the server executes the requests in one order and every thread gets the answer to its own request; no
  schedule deadlocks or runs forever; and a thread that removes the stream leaves the others a dangling reference.
\<close>

section \<open>State\<close>

text \<open>
  Where a thread is. The argument is the stream object it refers to. \<^verbatim>\<open>remove_streams\<close> is called by a thread that goes on to
  \<^verbatim>\<open>sync_request\<close> (\<open>True\<close>) and by \<^verbatim>\<open>release\<close> (\<open>False\<close>).
\<close>

datatype 'r pc =
    Find
  | Lock_write nat
  | Send nat
  | Lock_read nat
  | Unlock_write nat
  | Receive nat
  | Unlock_read nat 'r
  | Send_failed nat
  | Receive_failed nat
  | Remove bool
  | Close bool nat
  | Erase bool nat
  | Call
  | Create 'r
  | Return 'r
  | Give_up
  | Released

text \<open>
  A stream object with its two mutexes and what is in transit: requests the server has not read and replies the client has
  not read. Messages carry the number of the thread that sent the request; no step depends on it.
\<close>

record ('q, 'r, 'o) stream_object =
  so_mtx_write :: "nat option"
  so_mtx_read :: "nat option"
  so_closed :: bool
  so_broken :: bool
  so_server :: 'o
  so_requests :: "(nat \<times> 'q) list"
  so_replies :: "(nat \<times> 'r) list"

definition stream_object_new :: "'o \<Rightarrow> ('q, 'r, 'o) stream_object" where
  "stream_object_new obj = \<lparr>so_mtx_write = None, so_mtx_read = None, so_closed = False, so_broken = False,
     so_server = obj, so_requests = [], so_replies = []\<rparr>"

text \<open>
  The map of streams at the path, with its mutex: the object lives in the entry. \<open>sw_log\<close> records what the server executed
  and \<open>sw_broke\<close> whether a stream failed.
\<close>

record ('q, 'r, 'o, 's) stream_world =
  sw_mtx :: "nat option"
  sw_entry :: "(nat \<times> ('q, 'r, 'o) stream_object) option"
  sw_next :: nat
  sw_pc :: "nat \<Rightarrow> 'r pc"
  sw_srv :: 's
  sw_log :: "(nat \<times> 'q \<times> 'r) list"
  sw_broke :: bool

section \<open>Steps of a thread\<close>

definition goto :: "nat \<Rightarrow> 'r pc \<Rightarrow> ('q, 'r, 'o, 's) stream_world \<Rightarrow> ('q, 'r, 'o, 's) stream_world" where
  "goto t p w = w\<lparr>sw_pc := (sw_pc w)(t := p)\<rparr>"

text \<open>A step through the reference \<open>h\<close>; \<open>None\<close> means that the thread is blocked.\<close>

definition through :: "nat \<Rightarrow> ('q, 'r, 'o, 's) stream_world
    \<Rightarrow> (('q, 'r, 'o) stream_object \<Rightarrow> (('q, 'r, 'o) stream_object \<times> 'r pc) res option)
    \<Rightarrow> nat \<Rightarrow> ('q, 'r, 'o, 's) stream_world res option" where
  "through h w f t =
     (case sw_entry w of
        None \<Rightarrow> Some (Inl Dangling)
      | Some (h', so) \<Rightarrow>
          if h' \<noteq> h then Some (Inl Dangling)
          else map_option (\<lambda>r. rbind r (\<lambda>(so', p). Inr (goto t p (w\<lparr>sw_entry := Some (h, so')\<rparr>)))) (f so))"

text \<open>
  The stream part of \<^verbatim>\<open>read\<close> and \<^verbatim>\<open>write\<close>. gRPC asserts that nothing is written after \<^verbatim>\<open>WritesDone\<close>; reading blocks until an
  answer arrives or the stream fails.
\<close>

fun stream_call_step :: "nat \<Rightarrow> 'q \<Rightarrow> 'r pc \<Rightarrow> ('q, 'r, 'o) stream_object \<Rightarrow> (('q, 'r, 'o) stream_object \<times> 'r pc) res option" where
  "stream_call_step t q (Lock_write h) so =
     (if so_mtx_write so \<noteq> None then None else Some (Inr (so\<lparr>so_mtx_write := Some t\<rparr>, Send h)))"
| "stream_call_step t q (Send h) so =
     (if so_closed so then Some (Inl Assertion)
      else if so_broken so then Some (Inr (so, Send_failed h))
      else Some (Inr (so\<lparr>so_requests := so_requests so @ [(t, q)]\<rparr>, Lock_read h)))"
| "stream_call_step t q (Send_failed h) so = Some (Inr (so\<lparr>so_mtx_write := None\<rparr>, Remove True))"
| "stream_call_step t q (Lock_read h) so =
     (if so_mtx_read so \<noteq> None then None else Some (Inr (so\<lparr>so_mtx_read := Some t\<rparr>, Unlock_write h)))"
| "stream_call_step t q (Unlock_write h) so = Some (Inr (so\<lparr>so_mtx_write := None\<rparr>, Receive h))"
| "stream_call_step t q (Receive h) so =
     (case so_replies so of
        (_, r) # rs \<Rightarrow> Some (Inr (so\<lparr>so_replies := rs\<rparr>, Unlock_read h r))
      | [] \<Rightarrow> if so_broken so then Some (Inr (so, Receive_failed h)) else None)"
| "stream_call_step t q (Unlock_read h r) so = Some (Inr (so\<lparr>so_mtx_read := None\<rparr>, Return r))"
| "stream_call_step t q (Receive_failed h) so = Some (Inr (so\<lparr>so_mtx_read := None\<rparr>, Remove True))"
| "stream_call_step t q _ so = None"

definition after_remove :: "bool \<Rightarrow> 'r pc" where
  "after_remove back = (if back then Call else Released)"

text \<open>\<^verbatim>\<open>remove_streams\<close>: the scoped lock takes both mutexes or waits; the entry is erased after they are released.\<close>

definition remove_begin :: "nat \<Rightarrow> bool \<Rightarrow> ('q, 'r, 'o, 's) stream_world \<Rightarrow> ('q, 'r, 'o, 's) stream_world option" where
  "remove_begin t back w =
     (if sw_mtx w \<noteq> None then None
      else Some (case sw_entry w of
                   None \<Rightarrow> goto t (after_remove back) w
                 | Some (h, _) \<Rightarrow> goto t (Close back h) (w\<lparr>sw_mtx := Some t\<rparr>)))"

definition remove_close :: "bool \<Rightarrow> nat \<Rightarrow> ('q, 'r, 'o) stream_object
    \<Rightarrow> (('q, 'r, 'o) stream_object \<times> 'r pc) res option" where
  "remove_close back h so =
     (if so_mtx_write so \<noteq> None \<or> so_mtx_read so \<noteq> None then None
      else Some (Inr (so\<lparr>so_closed := True\<rparr>, Erase back h)))"

definition remove_erase :: "nat \<Rightarrow> bool \<Rightarrow> ('q, 'r, 'o, 's) stream_world \<Rightarrow> ('q, 'r, 'o, 's) stream_world" where
  "remove_erase t back w = goto t (after_remove back) (w\<lparr>sw_entry := None, sw_mtx := None\<rparr>)"

text \<open>The label \<^verbatim>\<open>sync_request\<close>: a plain call, then \<^verbatim>\<open>create_streams\<close>, which keeps an entry that is there.\<close>

definition plain_call :: "('q \<Rightarrow> ('s, 'r) action) \<Rightarrow> nat \<Rightarrow> 'q \<Rightarrow> ('q, 'r, 'o, 's) stream_world
    \<Rightarrow> ('q, 'r, 'o, 's) stream_world" where
  "plain_call body t q w =
     (case body q (sw_srv w) of
        Inl _ \<Rightarrow> goto t Give_up w
      | Inr (r, s) \<Rightarrow> goto t (Create r) (w\<lparr>sw_srv := s, sw_log := sw_log w @ [(t, q, r)]\<rparr>))"

definition create_stream :: "'o \<Rightarrow> nat \<Rightarrow> 'r \<Rightarrow> ('q, 'r, 'o, 's) stream_world
    \<Rightarrow> ('q, 'r, 'o, 's) stream_world option" where
  "create_stream obj t r w =
     (if sw_mtx w \<noteq> None then None
      else Some (goto t (Return r)
        (case sw_entry w of
           None \<Rightarrow> w\<lparr>sw_entry := Some (sw_next w, stream_object_new obj), sw_next := Suc (sw_next w)\<rparr>
         | Some _ \<Rightarrow> w)))"

definition find_stream :: "nat \<Rightarrow> ('q, 'r, 'o, 's) stream_world \<Rightarrow> ('q, 'r, 'o, 's) stream_world option" where
  "find_stream t w =
     (if sw_mtx w \<noteq> None then None
      else Some (goto t (case sw_entry w of None \<Rightarrow> Call | Some (h, _) \<Rightarrow> Lock_write h) w))"

fun refers :: "'r pc \<Rightarrow> nat option" where
  "refers (Lock_write h) = Some h"
| "refers (Send h) = Some h"
| "refers (Lock_read h) = Some h"
| "refers (Unlock_write h) = Some h"
| "refers (Receive h) = Some h"
| "refers (Unlock_read h r) = Some h"
| "refers (Send_failed h) = Some h"
| "refers (Receive_failed h) = Some h"
| "refers _ = None"

definition thread_step :: "('q \<Rightarrow> ('s, 'r) action) \<Rightarrow> 'o \<Rightarrow> (nat \<Rightarrow> 'q) \<Rightarrow> nat \<Rightarrow> ('q, 'r, 'o, 's) stream_world
    \<Rightarrow> ('q, 'r, 'o, 's) stream_world res option" where
  "thread_step body obj req t w =
     (case sw_pc w t of
        Find \<Rightarrow> map_option Inr (find_stream t w)
      | Remove back \<Rightarrow> map_option Inr (remove_begin t back w)
      | Close back h \<Rightarrow> through h w (remove_close back h) t
      | Erase back h \<Rightarrow> Some (Inr (remove_erase t back w))
      | Call \<Rightarrow> Some (Inr (plain_call body t (req t) w))
      | Create r \<Rightarrow> map_option Inr (create_stream obj t r w)
      | p \<Rightarrow> (case refers p of None \<Rightarrow> None | Some h \<Rightarrow> through h w (stream_call_step t (req t) p) t))"

section \<open>Steps of the server and of the network\<close>

text \<open>The call object of the server reads the first request and answers it; a stream it cannot serve fails.\<close>

definition break_object :: "('q, 'r, 'o) stream_object \<Rightarrow> ('q, 'r, 'o) stream_object" where
  "break_object so = so\<lparr>so_broken := True, so_requests := [], so_replies := []\<rparr>"

definition server_turn :: "(bool \<Rightarrow> 'q \<Rightarrow> 'o \<Rightarrow> ('s, 'o option \<times> nat \<times> 'r stream_out) action)
    \<Rightarrow> ('q, 'r, 'o, 's) stream_world \<Rightarrow> ('q, 'r, 'o, 's) stream_world option" where
  "server_turn proceed w =
     (case sw_entry w of
        None \<Rightarrow> None
      | Some (h, so) \<Rightarrow>
          (case so_requests so of
             [] \<Rightarrow> None
           | (t, q) # qs \<Rightarrow>
               (case drive proceed [(True, q), (True, q)] (Some (so_server so)) (sw_srv w) of
                  Inr ((Some obj, _, [Issue_write r, Issue_read]), s) \<Rightarrow>
                    Some (w\<lparr>sw_entry := Some (h, so\<lparr>so_server := obj, so_requests := qs, so_replies := so_replies so @ [(t, r)]\<rparr>),
                            sw_srv := s, sw_log := sw_log w @ [(t, q, r)]\<rparr>)
                | _ \<Rightarrow> Some (w\<lparr>sw_entry := Some (h, break_object so), sw_broke := True\<rparr>))))"

text \<open>
  The connection of the stream is lost, with what is in transit; or a plain call fails, before the server has executed it or,
  with its answer on the way, after.
\<close>

definition stream_breaks :: "('q, 'r, 'o, 's) stream_world \<Rightarrow> ('q, 'r, 'o, 's) stream_world option" where
  "stream_breaks w =
     (case sw_entry w of
        Some (h, so) \<Rightarrow> if so_broken so then None else Some (w\<lparr>sw_entry := Some (h, break_object so), sw_broke := True\<rparr>)
      | None \<Rightarrow> None)"

definition call_lost :: "nat \<Rightarrow> ('q, 'r, 'o, 's) stream_world \<Rightarrow> ('q, 'r, 'o, 's) stream_world option" where
  "call_lost t w = (case sw_pc w t of Call \<Rightarrow> Some (goto t Give_up w) | Create r \<Rightarrow> Some (goto t Give_up w) | _ \<Rightarrow> None)"

lemma call_lost_cases:
  assumes "call_lost t w = Some w'"
  obtains "w' = goto t Give_up w" "sw_pc w t = Call" | r where "w' = goto t Give_up w" "sw_pc w t = Create r"
  using assms by (auto simp: call_lost_def split: pc.splits)

section \<open>Runs\<close>

text \<open>\<open>n\<close> threads; each performs a \<^verbatim>\<open>read\<close> (or \<^verbatim>\<open>write\<close>) with its request, or the \<^verbatim>\<open>remove_streams\<close> of a \<^verbatim>\<open>release\<close>.\<close>

inductive sw_step :: "(bool \<Rightarrow> 'q \<Rightarrow> 'o \<Rightarrow> ('s, 'o option \<times> nat \<times> 'r stream_out) action) \<Rightarrow> ('q \<Rightarrow> ('s, 'r) action)
    \<Rightarrow> 'o \<Rightarrow> (nat \<Rightarrow> 'q) \<Rightarrow> nat \<Rightarrow> ('q, 'r, 'o, 's) stream_world \<Rightarrow> ('q, 'r, 'o, 's) stream_world \<Rightarrow> bool"
  for proceed body obj req n where
  thread: "t < n \<Longrightarrow> thread_step body obj req t w = Some (Inr w') \<Longrightarrow> sw_step proceed body obj req n w w'"
| server: "server_turn proceed w = Some w' \<Longrightarrow> sw_step proceed body obj req n w w'"
| breaks: "stream_breaks w = Some w' \<Longrightarrow> sw_step proceed body obj req n w w'"
| lost: "t < n \<Longrightarrow> call_lost t w = Some w' \<Longrightarrow> sw_step proceed body obj req n w w'"

definition sw_start :: "'o \<Rightarrow> (nat \<Rightarrow> bool) \<Rightarrow> bool \<Rightarrow> 's \<Rightarrow> ('q, 'r, 'o, 's) stream_world" where
  "sw_start obj releases opened s =
     \<lparr>sw_mtx = None, sw_entry = (if opened then Some (0, stream_object_new obj) else None), sw_next = 1,
      sw_pc = (\<lambda>t. if releases t then Remove False else Find), sw_srv = s, sw_log = [], sw_broke = False\<rparr>"

inductive sw_reachable :: "(bool \<Rightarrow> 'q \<Rightarrow> 'o \<Rightarrow> ('s, 'o option \<times> nat \<times> 'r stream_out) action) \<Rightarrow> ('q \<Rightarrow> ('s, 'r) action)
    \<Rightarrow> 'o \<Rightarrow> (nat \<Rightarrow> 'q) \<Rightarrow> (nat \<Rightarrow> bool) \<Rightarrow> nat \<Rightarrow> 's \<Rightarrow> ('q, 'r, 'o, 's) stream_world \<Rightarrow> bool"
  for proceed body obj req releases n s where
  start: "sw_reachable proceed body obj req releases n s (sw_start obj releases opened s)"
| step: "sw_reachable proceed body obj req releases n s w \<Longrightarrow> sw_step proceed body obj req n w w' \<Longrightarrow>
    sw_reachable proceed body obj req releases n s w'"

section \<open>The invariant\<close>

text \<open>What is true at each position of a thread; \<open>done u r\<close> says that the server answered \<open>r\<close> to thread \<open>u\<close>.\<close>

fun position_ok :: "(nat \<times> ('q, 'r, 'o) stream_object) option \<Rightarrow> nat option \<Rightarrow> (nat \<Rightarrow> 'r \<Rightarrow> bool) \<Rightarrow> nat \<Rightarrow> 'r pc \<Rightarrow> bool" where
  "position_ok e m done u (Send h) \<longleftrightarrow> (\<forall>so. e = Some (h, so) \<longrightarrow> so_mtx_write so = Some u)"
| "position_ok e m done u (Lock_read h) \<longleftrightarrow> (\<exists>so. e = Some (h, so) \<and> \<not> so_closed so \<and> so_mtx_write so = Some u)"
| "position_ok e m done u (Unlock_write h) \<longleftrightarrow>
     (\<exists>so. e = Some (h, so) \<and> \<not> so_closed so \<and> so_mtx_write so = Some u \<and> so_mtx_read so = Some u)"
| "position_ok e m done u (Receive h) \<longleftrightarrow> (\<exists>so. e = Some (h, so) \<and> \<not> so_closed so \<and> so_mtx_read so = Some u)"
| "position_ok e m done u (Unlock_read h r) \<longleftrightarrow>
     (\<exists>so. e = Some (h, so) \<and> \<not> so_closed so \<and> so_mtx_read so = Some u) \<and> done u r"
| "position_ok e m done u (Send_failed h) \<longleftrightarrow> (\<exists>so. e = Some (h, so) \<and> \<not> so_closed so \<and> so_mtx_write so = Some u)"
| "position_ok e m done u (Receive_failed h) \<longleftrightarrow> (\<exists>so. e = Some (h, so) \<and> \<not> so_closed so \<and> so_mtx_read so = Some u)"
| "position_ok e m done u (Close b h) \<longleftrightarrow> (\<exists>so. e = Some (h, so) \<and> \<not> so_closed so) \<and> m = Some u"
| "position_ok e m done u (Erase b h) \<longleftrightarrow> (\<exists>so. e = Some (h, so) \<and> so_closed so) \<and> m = Some u"
| "position_ok e m done u (Create r) \<longleftrightarrow> done u r"
| "position_ok e m done u (Return r) \<longleftrightarrow> done u r"
| "position_ok e m done u _ \<longleftrightarrow> True"

text \<open>
  The threads whose answers are outstanding, in the order of their requests: the owner of \<^verbatim>\<open>mtx_read_\<close> until it has read,
  then the owner of \<^verbatim>\<open>mtx_write_\<close> once it has written. There are at most two.
\<close>

definition awaiting_replies :: "(nat \<Rightarrow> 'r pc) \<Rightarrow> nat \<Rightarrow> ('q, 'r, 'o) stream_object \<Rightarrow> nat list" where
  "awaiting_replies pc h so =
     (case so_mtx_read so of Some t \<Rightarrow> if pc t = Unlock_write h \<or> pc t = Receive h then [t] else [] | None \<Rightarrow> []) @
     (case so_mtx_write so of Some t \<Rightarrow> if pc t = Lock_read h then [t] else [] | None \<Rightarrow> [])"

definition answered :: "(nat \<Rightarrow> 'q) \<Rightarrow> (nat \<times> 'q \<times> 'r) list \<Rightarrow> nat \<Rightarrow> 'r \<Rightarrow> bool" where
  "answered req log t r \<longleftrightarrow> (t, req t, r) \<in> set log"

definition object_ok :: "(nat \<Rightarrow> 'q) \<Rightarrow> (nat \<Rightarrow> 'r pc) \<Rightarrow> nat option \<Rightarrow> (nat \<times> 'q \<times> 'r) list \<Rightarrow> nat
    \<Rightarrow> ('q, 'r, 'o) stream_object \<Rightarrow> bool" where
  "object_ok req pc m log h so \<longleftrightarrow>
     (\<forall>u. so_mtx_write so = Some u \<longrightarrow> pc u \<in> {Send h, Lock_read h, Unlock_write h, Send_failed h}) \<and>
     (\<forall>u. so_mtx_read so = Some u \<longrightarrow> pc u \<in> {Unlock_write h, Receive h, Receive_failed h} \<union> range (Unlock_read h)) \<and>
     (so_closed so \<longrightarrow> (\<exists>u b. m = Some u \<and> pc u = Erase b h)) \<and>
     (if so_broken so then so_replies so = [] \<and> so_requests so = []
      else map fst (so_replies so) @ map fst (so_requests so) = awaiting_replies pc h so) \<and>
     (\<forall>(u, q) \<in> set (so_requests so). q = req u) \<and>
     (\<forall>(u, r) \<in> set (so_replies so). answered req log u r)"

definition sw_inv :: "(nat \<Rightarrow> 'q) \<Rightarrow> ('q, 'r, 'o, 's) stream_world \<Rightarrow> bool" where
  "sw_inv req w \<longleftrightarrow>
     (\<forall>u. position_ok (sw_entry w) (sw_mtx w) (answered req (sw_log w)) u (sw_pc w u)) \<and>
     (\<forall>u h. refers (sw_pc w u) = Some h \<longrightarrow> h < sw_next w) \<and>
     (\<forall>u. sw_mtx w = Some u \<longrightarrow> (\<exists>b h. sw_pc w u = Close b h \<or> sw_pc w u = Erase b h)) \<and>
     (\<forall>h so. sw_entry w = Some (h, so) \<longrightarrow> h < sw_next w \<and> object_ok req (sw_pc w) (sw_mtx w) (sw_log w) h so)"

text \<open>What a thread relies on: which changes of the shared state by others keep its position sound.\<close>

definition relies :: "nat \<Rightarrow> nat \<Rightarrow> (nat \<times> ('q, 'r, 'o) stream_object) option \<times> nat option
    \<Rightarrow> (nat \<times> ('q, 'r, 'o) stream_object) option \<times> nat option \<Rightarrow> bool" where
  "relies k u = (\<lambda>(e, m) (e', m').
     (m = Some u \<longrightarrow> m' = Some u) \<and>
     (case e of
        None \<Rightarrow> (\<forall>h so. e' = Some (h, so) \<longrightarrow> k \<le> h)
      | Some (h, so) \<Rightarrow>
          (case e' of
             None \<Rightarrow> so_closed so \<and> m \<noteq> Some u
           | Some (h', so') \<Rightarrow> h' = h \<and>
               (so_mtx_write so = Some u \<longrightarrow> so_mtx_write so' = Some u) \<and>
               (so_mtx_read so = Some u \<longrightarrow> so_mtx_read so' = Some u) \<and>
               (so_closed so \<longrightarrow> so_closed so') \<and>
               (so_closed so' \<longrightarrow> so_closed so \<or> so_mtx_write so = None \<and> so_mtx_read so = None \<and> m \<noteq> Some u))))"

lemma position_stable:
  assumes "position_ok e m d u p" "relies k u (e, m) (e', m')" "\<And>h. refers p = Some h \<Longrightarrow> h < k"
    and "\<And>r. d u r \<Longrightarrow> d' u r"
  shows "position_ok e' m' d' u p"
  using assms
  by (cases p; cases e; cases e') (auto simp: relies_def split: prod.splits)

lemma sw_inv_moveI:
  assumes inv: "sw_inv req w"
    and pc: "sw_pc w' = (sw_pc w)(t := p)"
    and rely: "\<And>u. u \<noteq> t \<Longrightarrow> relies (sw_next w) u (sw_entry w, sw_mtx w) (sw_entry w', sw_mtx w')"
    and log: "set (sw_log w) \<subseteq> set (sw_log w')" and nx: "sw_next w \<le> sw_next w'"
    and pos: "position_ok (sw_entry w') (sw_mtx w') (answered req (sw_log w')) t p"
    and ref: "\<And>h. refers p = Some h \<Longrightarrow> h < sw_next w'"
    and mtx: "\<And>u. sw_mtx w' = Some u \<Longrightarrow> \<exists>b h. sw_pc w' u = Close b h \<or> sw_pc w' u = Erase b h"
    and obj: "\<And>h so. sw_entry w' = Some (h, so) \<Longrightarrow> h < sw_next w' \<and> object_ok req (sw_pc w') (sw_mtx w') (sw_log w') h so"
  shows "sw_inv req w'"
proof -
  have "position_ok (sw_entry w') (sw_mtx w') (answered req (sw_log w')) u (sw_pc w' u)" for u
  proof (cases "u = t")
    case False
    then show ?thesis
      using inv log by (auto simp: pc sw_inv_def answered_def intro!: position_stable [OF _ rely])
  qed (simp add: pc pos)
  moreover have "refers (sw_pc w' u) = Some h \<Longrightarrow> h < sw_next w'" for u h
    using inv ref nx by (cases "u = t") (fastforce simp: pc sw_inv_def)+
  ultimately show ?thesis
    using mtx obj by (simp add: sw_inv_def)
qed

lemmas sw_invD =
  sw_inv_def [THEN iffD1, THEN conjunct1, rule_format]
  sw_inv_def [THEN iffD1, THEN conjunct2, THEN conjunct1, rule_format]
  sw_inv_def [THEN iffD1, THEN conjunct2, THEN conjunct2, THEN conjunct1, rule_format]
  sw_inv_def [THEN iffD1, THEN conjunct2, THEN conjunct2, THEN conjunct2, rule_format]

text \<open>How a step changes which answers are outstanding.\<close>

lemma awaiting_replies_update:
  assumes "object_ok req pc m log h so" "position_ok (Some (h, so)) m d t (pc t)" "refers (pc t) = Some h"
    and "stream_call_step t q (pc t) so = Some (Inr (so', p'))"
  shows "awaiting_replies (pc(t := p')) h so' =
     (case p' of Lock_read _ \<Rightarrow> awaiting_replies pc h so @ [t]
               | Unlock_read _ _ \<Rightarrow> tl (awaiting_replies pc h so)
               | Receive_failed _ \<Rightarrow> tl (awaiting_replies pc h so)
               | _ \<Rightarrow> awaiting_replies pc h so)"
proof -
  have wr: "so_mtx_write so = Some u \<Longrightarrow> pc u \<in> {Send h, Lock_read h, Unlock_write h, Send_failed h}" for u
    using assms(1) by (simp add: object_ok_def)
  have rd: "so_mtx_read so = Some u \<Longrightarrow> pc u \<in> {Unlock_write h, Receive h, Receive_failed h} \<union> range (Unlock_read h)" for u
    using assms(1) by (simp add: object_ok_def)
  show ?thesis
    using assms(2,3,4) wr rd
    by (cases "pc t"; cases "so_mtx_write so"; cases "so_mtx_read so")
       (auto simp: awaiting_replies_def split: if_splits list.splits)
qed

lemma stream_call_step_object:
  assumes ob: "object_ok req pc m log h so" and pos: "position_ok (Some (h, so)) m d t (pc t)"
    and p: "refers (pc t) = Some h" and m: "m \<noteq> Some t"
    and s: "stream_call_step t (req t) (pc t) so = Some (Inr (so', p'))"
  shows "object_ok req (pc(t := p')) m log h so'"
proof -
  note a = awaiting_replies_update [OF ob pos p s]
  have "so_mtx_write so' = Some u \<Longrightarrow> (pc(t := p')) u \<in> {Send h, Lock_read h, Unlock_write h, Send_failed h}" for u
    using ob pos p s by (cases "pc t") (auto simp: object_ok_def split: if_splits list.splits)
  moreover have "so_mtx_read so' = Some u \<Longrightarrow>
      (pc(t := p')) u \<in> {Unlock_write h, Receive h, Receive_failed h} \<union> range (Unlock_read h)" for u
    using ob pos p s by (cases "pc t") (auto simp: object_ok_def split: if_splits list.splits)
  moreover have "so_closed so' \<longrightarrow> (\<exists>u b. m = Some u \<and> (pc(t := p')) u = Erase b h)"
  proof -
    have "so_closed so' = so_closed so"
      using s by (cases "pc t") (auto split: if_splits list.splits)
    then show ?thesis using ob m by (auto simp: object_ok_def)
  qed
  moreover have "if so_broken so' then so_replies so' = [] \<and> so_requests so' = []
      else map fst (so_replies so') @ map fst (so_requests so') = awaiting_replies (pc(t := p')) h so'"
  proof -
    have q: "if so_broken so then so_replies so = [] \<and> so_requests so = []
        else awaiting_replies pc h so = map fst (so_replies so) @ map fst (so_requests so)"
      using ob by (auto simp: object_ok_def split: if_splits)
    show ?thesis unfolding a using q p s by (cases "pc t") (auto split: if_splits list.splits)
  qed
  moreover have "(\<forall>(u, q) \<in> set (so_requests so'). q = req u) \<and> (\<forall>(u, r) \<in> set (so_replies so'). answered req log u r)"
    using ob s by (cases "pc t") (auto simp: object_ok_def split: if_splits list.splits)
  ultimately show ?thesis by (simp add: object_ok_def)
qed

text \<open>The stream part of a thread, position by position.\<close>

lemma stream_call_step_inv:
  assumes inv: "sw_inv req w" and e: "sw_entry w = Some (h, so)" and p: "refers (sw_pc w t) = Some h"
    and s: "stream_call_step t (req t) (sw_pc w t) so = Some (Inr (so', p'))"
  shows "sw_inv req (goto t p' (w\<lparr>sw_entry := Some (h, so')\<rparr>))"
proof -
  have pos: "position_ok (Some (h, so)) (sw_mtx w) (answered req (sw_log w)) t (sw_pc w t)"
    using sw_invD(1) [OF inv, of t] e by simp
  have ob: "h < sw_next w" "object_ok req (sw_pc w) (sw_mtx w) (sw_log w) h so"
    using sw_invD(4) [OF inv e] by auto
  have m: "sw_mtx w \<noteq> Some t"
    using sw_invD(3) [OF inv, of t] p by auto
  have m': "sw_mtx w = Some u \<Longrightarrow> u \<noteq> t \<and> (\<exists>b h. sw_pc w u = Close b h \<or> sw_pc w u = Erase b h)" for u
    using sw_invD(3) [OF inv, of u] m by auto
  have own: "so_replies so = (u, r) # rs \<Longrightarrow> sw_pc w t = Receive h \<Longrightarrow> answered req (sw_log w) t r" for u r rs
    using pos ob(2) by (auto simp: object_ok_def awaiting_replies_def split: if_splits)
  let ?w = "goto t p' (w\<lparr>sw_entry := Some (h, so')\<rparr>)"
  show ?thesis
  proof (rule sw_inv_moveI [OF inv, where t = t and p = p'])
    show "sw_pc ?w = (sw_pc w)(t := p')" by (simp add: goto_def)
    show "relies (sw_next w) u (sw_entry w, sw_mtx w)
        (sw_entry ?w, sw_mtx ?w)"
      if "u \<noteq> t" for u
      using that e pos p s by (cases "sw_pc w t") (auto simp: relies_def goto_def split: if_splits list.splits)
    show "set (sw_log w) \<subseteq> set (sw_log ?w)" by (simp add: goto_def)
    show "sw_next w \<le> sw_next ?w" by (simp add: goto_def)
    show "position_ok (sw_entry ?w) (sw_mtx ?w)
        (answered req (sw_log ?w)) t p'"
      using pos p s own by (cases "sw_pc w t") (auto simp: goto_def split: if_splits list.splits)
    show "k < sw_next ?w" if "refers p' = Some k" for k
      using that p s ob(1) by (cases "sw_pc w t") (auto simp: goto_def split: if_splits list.splits)
    show "\<exists>b h. sw_pc ?w u = Close b h \<or> sw_pc ?w u = Erase b h"
      if "sw_mtx ?w = Some u" for u
      using m' [of u] that by (auto simp: goto_def)
    show "k < sw_next ?w \<and> object_ok req (sw_pc ?w)
        (sw_mtx ?w) (sw_log ?w) k so''"
      if "sw_entry ?w = Some (k, so'')" for k so''
      using that ob(1) stream_call_step_object [OF ob(2) pos p m s] by (auto simp: goto_def)
  qed
qed

text \<open>A thread without a reference owns neither mutex of the stream.\<close>

lemma not_owner:
  assumes "object_ok req pc m log h so" "refers (pc t) = None"
  shows "so_mtx_write so \<noteq> Some t" "so_mtx_read so \<noteq> Some t"
  using assms by (auto simp: object_ok_def)

lemma object_ok_goto:
  assumes "object_ok req pc m log h so" "refers (pc t) = None" "m' = Some t \<or> m' = m" "so_closed so \<Longrightarrow> m \<noteq> Some t \<and> m' = m"
    and "set log \<subseteq> set log'"
  shows "object_ok req (pc(t := p)) m' log' h so"
proof -
  note no = not_owner [OF assms(1,2)]
  have a: "awaiting_replies (pc(t := p)) h so = awaiting_replies pc h so"
    using no by (auto simp: awaiting_replies_def split: option.splits)
  show ?thesis
    using assms no by (auto simp: object_ok_def a answered_def split: if_splits)
qed

lemma relies_same: "relies k u (e, m) (e, m)"
  by (auto simp: relies_def split: option.splits)

lemma find_stream_inv:
  assumes inv: "sw_inv req w" and p: "sw_pc w t = Find" and s: "find_stream t w = Some w'"
  shows "sw_inv req w'"
proof -
  have w: "sw_mtx w = None" "w' = goto t (case sw_entry w of None \<Rightarrow> Call | Some (h, _) \<Rightarrow> Lock_write h) w"
    using s by (auto simp: find_stream_def split: if_splits)
  show ?thesis
    by (rule sw_inv_moveI [OF inv])
       (use w p sw_invD(4) [OF inv] in \<open>auto simp: goto_def relies_same intro!: object_ok_goto split: option.splits\<close>)
qed

lemma remove_begin_inv:
  assumes inv: "sw_inv req w" and p: "sw_pc w t = Remove b" and s: "remove_begin t b w = Some w'"
  shows "sw_inv req w'"
proof (cases "sw_entry w")
  case None
  then have w: "w' = goto t (after_remove b) w" "sw_mtx w = None"
    using s by (auto simp: remove_begin_def split: if_splits)
  show ?thesis
    by (rule sw_inv_moveI [OF inv, where t = t and p = "after_remove b"])
       (use w None in \<open>auto simp: goto_def relies_same after_remove_def split: if_splits\<close>)
next
  case (Some e)
  then obtain h so where e: "sw_entry w = Some (h, so)" by (cases e) auto
  then have w: "w' = goto t (Close b h) (w\<lparr>sw_mtx := Some t\<rparr>)" "sw_mtx w = None"
    using s by (auto simp: remove_begin_def split: if_splits)
  have "\<not> so_closed so" using sw_invD(4) [OF inv e] w by (simp add: object_ok_def)
  then show ?thesis
    by (intro sw_inv_moveI [OF inv, where t = t and p = "Close b h"])
       (use w e p sw_invD(4) [OF inv e] in \<open>auto simp: goto_def relies_def intro!: object_ok_goto\<close>)
qed

lemma remove_close_inv:
  assumes inv: "sw_inv req w" and e: "sw_entry w = Some (h, so)" and p: "sw_pc w t = Close b h"
    and s: "remove_close b h so = Some (Inr (so', p'))"
  shows "sw_inv req (goto t p' (w\<lparr>sw_entry := Some (h, so')\<rparr>))"
proof -
  have o': "so' = so\<lparr>so_closed := True\<rparr>" "p' = Erase b h" "so_mtx_write so = None" "so_mtx_read so = None"
    using s by (auto simp: remove_close_def split: if_splits)
  have m: "sw_mtx w = Some t" using sw_invD(1) [OF inv, of t] p by simp
  have "object_ok req ((sw_pc w)(t := p')) (sw_mtx w) (sw_log w) h so'"
    using sw_invD(4) [OF inv e] o' m by (auto simp: object_ok_def awaiting_replies_def)
  then show ?thesis
    by (intro sw_inv_moveI [OF inv, where t = t and p = p'])
       (use o' e m sw_invD(4) [OF inv e] in \<open>auto simp: goto_def relies_def\<close>)
qed

lemma remove_erase_inv:
  assumes inv: "sw_inv req w" and p: "sw_pc w t = Erase b h"
  shows "sw_inv req (remove_erase t b w)"
proof -
  obtain so where e: "sw_entry w = Some (h, so)" "so_closed so" "sw_mtx w = Some t"
    using sw_invD(1) [OF inv, of t] p by auto
  show ?thesis
    by (rule sw_inv_moveI [OF inv, where t = t and p = "after_remove b"])
       (use e in \<open>auto simp: remove_erase_def goto_def relies_def after_remove_def split: if_splits\<close>)
qed

lemma plain_call_inv:
  assumes inv: "sw_inv req w" and p: "sw_pc w t = Call"
  shows "sw_inv req (plain_call body t (req t) w)"
proof -
  have m: "sw_mtx w \<noteq> Some t" using sw_invD(3) [OF inv, of t] p by auto
  show ?thesis
  proof (cases "body (req t) (sw_srv w)")
    case (Inl x)
    then show ?thesis
      by (intro sw_inv_moveI [OF inv, where t = t and p = Give_up])
         (use m p sw_invD(3,4) [OF inv] in \<open>auto simp: plain_call_def goto_def relies_same intro!: object_ok_goto\<close>)
  next
    case (Inr x)
    then obtain r s where "body (req t) (sw_srv w) = Inr (r, s)" by (cases x) auto
    then show ?thesis
      by (intro sw_inv_moveI [OF inv, where t = t and p = "Create r"])
         (use m p sw_invD(3,4) [OF inv] in \<open>auto simp: plain_call_def goto_def relies_same answered_def intro!: object_ok_goto\<close>)
  qed
qed

lemma object_new_ok: "object_ok req pc m log h (stream_object_new obj)"
  by (simp add: object_ok_def stream_object_new_def awaiting_replies_def)

lemma create_stream_inv:
  assumes inv: "sw_inv req w" and p: "sw_pc w t = Create r" and s: "create_stream obj t r w = Some w'"
  shows "sw_inv req w'"
proof -
  have a: "answered req (sw_log w) t r" using sw_invD(1) [OF inv, of t] p by simp
  have m: "sw_mtx w = None" using s by (auto simp: create_stream_def split: if_splits)
  show ?thesis
    by (rule sw_inv_moveI [OF inv, where t = t and p = "Return r"])
       (use s a m p sw_invD(4) [OF inv] in \<open>auto simp: create_stream_def goto_def relies_def object_new_ok
          intro!: object_ok_goto split: option.splits\<close>)
qed

lemma thread_step_inv:
  assumes inv: "sw_inv req w" and s: "thread_step body obj req t w = Some (Inr w')"
  shows "sw_inv req w'"
proof (cases "refers (sw_pc w t)")
  case None
  then show ?thesis
    using s find_stream_inv [OF inv] remove_begin_inv [OF inv] remove_close_inv [OF inv] remove_erase_inv [OF inv]
      plain_call_inv [OF inv] create_stream_inv [OF inv]
    by (cases "sw_pc w t") (fastforce simp: thread_step_def through_def rbind_eq_Inr_conv split: option.splits if_splits)+
next
  case (Some h)
  then have "through h w (stream_call_step t (req t) (sw_pc w t)) t = Some (Inr w')"
    using s by (cases "sw_pc w t") (simp_all add: thread_step_def)
  then show ?thesis
    using stream_call_step_inv [OF inv _ Some] by (auto simp: through_def rbind_eq_Inr_conv split: option.splits if_splits)
qed

lemma sw_inv_objectI:
  fixes w w' :: "('q, 'r, 'o, 's) stream_world"
  assumes inv: "sw_inv req w" and e: "sw_entry w = Some (h, so)"
    and w': "sw_entry w' = Some (h, so')" "sw_pc w' = sw_pc w" "sw_mtx w' = sw_mtx w" "sw_next w' = sw_next w"
    and so: "so_mtx_write so' = so_mtx_write so" "so_mtx_read so' = so_mtx_read so" "so_closed so' = so_closed so"
    and log: "set (sw_log w) \<subseteq> set (sw_log w')"
    and ob: "object_ok req (sw_pc w) (sw_mtx w) (sw_log w') h so'"
  shows "sw_inv req w'"
proof -
  have r: "relies (sw_next w) u (sw_entry w, sw_mtx w) (sw_entry w', sw_mtx w')" for u
    using e w' so by (auto simp: relies_def)
  have "position_ok (sw_entry w') (sw_mtx w') (answered req (sw_log w')) u (sw_pc w' u)" for u
    unfolding w'(2) by (rule position_stable [OF sw_invD(1) [OF inv] r sw_invD(2) [OF inv]]) (use log in \<open>auto simp: answered_def\<close>)
  then show ?thesis
    using inv e w' ob by (simp add: sw_inv_def)
qed

lemma break_object_simps [simp]:
  "so_mtx_write (break_object so) = so_mtx_write so" "so_mtx_read (break_object so) = so_mtx_read so"
  "so_closed (break_object so) = so_closed so" "so_broken (break_object so)" "so_server (break_object so) = so_server so"
  "so_requests (break_object so) = []" "so_replies (break_object so) = []"
  by (simp_all add: break_object_def)

lemma break_object_ok: "object_ok req pc m log h so \<Longrightarrow> object_ok req pc m log h (break_object so)"
  by (simp add: object_ok_def)

text \<open>The two outcomes of a turn of the server.\<close>

lemma server_turn_cases:
  assumes "server_turn proceed w = Some w'"
  obtains (served) h so t q qs obj k r s where "sw_entry w = Some (h, so)" "so_requests so = (t, q) # qs"
      "drive proceed [(True, q), (True, q)] (Some (so_server so)) (sw_srv w) = Inr ((Some obj, k, [Issue_write r, Issue_read]), s)"
      "w' = w\<lparr>sw_entry := Some (h, so\<lparr>so_server := obj, so_requests := qs, so_replies := so_replies so @ [(t, r)]\<rparr>),
              sw_srv := s, sw_log := sw_log w @ [(t, q, r)]\<rparr>"
    | (failed) h so where "sw_entry w = Some (h, so)" "so_requests so \<noteq> []" "w' = w\<lparr>sw_entry := Some (h, break_object so), sw_broke := True\<rparr>"
  using assms unfolding server_turn_def
  by (auto split: option.splits prod.splits list.splits sum.splits stream_out.splits)

lemma server_turn_inv:
  assumes inv: "sw_inv req w" and s: "server_turn proceed w = Some w'"
  shows "sw_inv req w'"
  using s
proof (cases rule: server_turn_cases)
  case (served h so t q qs obj k r s)
  note ob = sw_invD(4) [OF inv served(1), THEN conjunct2]
  have "q = req t" "\<not> so_broken so"
    using ob served(2) by (auto simp: object_ok_def split: if_splits)
  then have "object_ok req (sw_pc w) (sw_mtx w) (sw_log w') h
      (so\<lparr>so_server := obj, so_requests := qs, so_replies := so_replies so @ [(t, r)]\<rparr>)"
    using ob served(2,4) by (auto simp: object_ok_def awaiting_replies_def answered_def)
  then show ?thesis
    by (intro sw_inv_objectI [OF inv served(1)]) (use served in auto)
next
  case (failed h so)
  then show ?thesis
    by (intro sw_inv_objectI [OF inv failed(1), where so' = "break_object so"]) (use failed sw_invD(4) [OF inv failed(1)] break_object_ok in auto)
qed

lemma stream_breaks_cases:
  assumes "stream_breaks w = Some w'"
  obtains h so where "sw_entry w = Some (h, so)" "\<not> so_broken so" "w' = w\<lparr>sw_entry := Some (h, break_object so), sw_broke := True\<rparr>"
  using assms by (auto simp: stream_breaks_def split: option.splits if_splits)

lemma stream_breaks_inv:
  assumes inv: "sw_inv req w" and s: "stream_breaks w = Some w'"
  shows "sw_inv req w'"
  using s
proof (cases rule: stream_breaks_cases)
  case (1 h so)
  then show ?thesis
    by (intro sw_inv_objectI [OF inv 1(1), where so' = "break_object so"]) (use 1 sw_invD(4) [OF inv 1(1)] break_object_ok in auto)
qed

lemma call_lost_inv:
  assumes inv: "sw_inv req w" and s: "call_lost t w = Some w'"
  shows "sw_inv req w'"
proof -
  have w: "sw_pc w t = Call \<or> (\<exists>r. sw_pc w t = Create r)" "w' = goto t Give_up w" using s by (auto elim: call_lost_cases)
  then have "sw_mtx w \<noteq> Some t" using sw_invD(3) [OF inv, of t] by auto
  then show ?thesis
    by (intro sw_inv_moveI [OF inv, where t = t and p = Give_up])
       (use w sw_invD(3,4) [OF inv] in \<open>auto simp: goto_def relies_same intro!: object_ok_goto\<close>)
qed

lemma sw_step_inv: "sw_step proceed body obj req n w w' \<Longrightarrow> sw_inv req w \<Longrightarrow> sw_inv req w'"
  by (induction rule: sw_step.induct) (auto intro: thread_step_inv server_turn_inv stream_breaks_inv call_lost_inv)

lemma sw_reachable_inv: "sw_reachable proceed body obj req releases n s w \<Longrightarrow> sw_inv req w"
proof (induction rule: sw_reachable.induct)
  case (start opened)
  show ?case by (simp add: sw_inv_def sw_start_def object_new_ok)
qed (rule sw_step_inv)

section \<open>Every run ends, and only when all threads are done\<close>

fun finished :: "'r pc \<Rightarrow> bool" where
  "finished (Return r) = True"
| "finished Give_up = True"
| "finished Released = True"
| "finished _ = False"

text \<open>The work a thread has left. No position is visited twice: the \<^verbatim>\<open>goto\<close> of the code only jumps forward.\<close>

fun rank :: "'r pc \<Rightarrow> nat" where
  "rank Find = 17"
| "rank (Lock_write h) = 16"
| "rank (Send h) = 15"
| "rank (Lock_read h) = 11"
| "rank (Unlock_write h) = 10"
| "rank (Receive h) = 9"
| "rank (Unlock_read h r) = 1"
| "rank (Send_failed h) = 8"
| "rank (Receive_failed h) = 8"
| "rank (Remove b) = 7"
| "rank (Close b h) = 6"
| "rank (Erase b h) = 5"
| "rank Call = 4"
| "rank (Create r) = 3"
| "rank _ = 0"

definition potential :: "('q, 'r, 'o) stream_object \<Rightarrow> nat" where
  "potential so = length (so_requests so) + (if so_broken so then 0 else 1)"

definition transit :: "('q, 'r, 'o, 's) stream_world \<Rightarrow> nat" where
  "transit w = (case sw_entry w of None \<Rightarrow> 0 | Some (h, so) \<Rightarrow> potential so)"

definition sw_work :: "nat \<Rightarrow> ('q, 'r, 'o, 's) stream_world \<Rightarrow> nat" where
  "sw_work n w = (\<Sum>t<n. rank (sw_pc w t)) + transit w"

lemma sum_rank_goto:
  "t < n \<Longrightarrow> (\<Sum>u<n. rank (((pc :: nat \<Rightarrow> 'r pc)(t := p)) u)) + rank (pc t) = (\<Sum>u<n. rank (pc u)) + rank p"
proof -
  assume "t < n"
  then have r: "(\<Sum>u<n. f u) = f t + (\<Sum>u\<in>{..<n} - {t}. f u)" for f :: "nat \<Rightarrow> nat"
    by (intro sum.remove) auto
  have "(\<Sum>u\<in>{..<n} - {t}. rank ((pc(t := p)) u)) = (\<Sum>u\<in>{..<n} - {t}. rank (pc u))"
    by (rule sum.cong) auto
  then show ?thesis by (simp only: r fun_upd_same)
qed

lemma sw_work_goto:
  assumes "t < n" "sw_pc w' = (sw_pc w)(t := p)" "rank p + transit w' < rank (sw_pc w t) + transit w"
  shows "sw_work n w' < sw_work n w"
  using sum_rank_goto [OF assms(1), of "sw_pc w" p] assms(2,3) by (simp add: sw_work_def)

lemma stream_call_step_rank: "stream_call_step t q p so = Some (Inr (so', p')) \<Longrightarrow> rank p' + potential so' < rank p + potential so"
  by (cases p) (auto simp: potential_def split: if_splits list.splits)

lemma through_rank:
  assumes "through h w f t = Some (Inr w')" "sw_pc w t = p"
    and "\<And>so so' p'. f so = Some (Inr (so', p')) \<Longrightarrow> rank p' + potential so' < rank p + potential so"
  shows "\<exists>p'. sw_pc w' = (sw_pc w)(t := p') \<and> rank p' + transit w' < rank (sw_pc w t) + transit w"
  using assms by (fastforce simp: through_def goto_def transit_def rbind_eq_Inr_conv split: option.splits if_splits)

lemma thread_step_work:
  assumes "t < n" "thread_step body obj req t w = Some (Inr w')"
  shows "sw_work n w' < sw_work n w"
proof -
  have "\<exists>p. sw_pc w' = (sw_pc w)(t := p) \<and> rank p + transit w' < rank (sw_pc w t) + transit w"
  proof (cases "refers (sw_pc w t)")
    case (Some h)
    then have "through h w (stream_call_step t (req t) (sw_pc w t)) t = Some (Inr w')"
      using assms(2) by (cases "sw_pc w t") (simp_all add: thread_step_def)
    then show ?thesis by (rule through_rank [OF _ refl stream_call_step_rank])
  next
    case None
    show ?thesis
    proof (cases "\<exists>b h. sw_pc w t = Close b h")
      case True
      then obtain b h where "sw_pc w t = Close b h" by blast
      then show ?thesis
        using assms(2) by (intro through_rank [where f = "remove_close b h" and h = h])
          (auto simp: thread_step_def remove_close_def potential_def split: if_splits)
    next
      case False
      with None assms(2) show ?thesis
        by (cases "sw_pc w t")
           (auto simp: thread_step_def find_stream_def remove_begin_def remove_erase_def plain_call_def create_stream_def goto_def
              transit_def potential_def after_remove_def stream_object_new_def split: option.splits if_splits sum.splits)
    qed
  qed
  then show ?thesis using sw_work_goto [OF assms(1)] by blast
qed

lemma sw_step_work:
  assumes "sw_step proceed body obj req n w w'" "sw_inv req w"
  shows "sw_work n w' < sw_work n w"
  using assms(1)
proof cases
  case (server)
  then show ?thesis
  proof (cases rule: server_turn_cases)
    case (failed h so)
    then have "\<not> so_broken so" using sw_invD(4) [OF assms(2) failed(1)] by (auto simp: object_ok_def)
    with failed show ?thesis by (simp add: sw_work_def transit_def potential_def)
  qed (simp add: sw_work_def transit_def potential_def)
next
  case breaks
  then show ?thesis by (cases rule: stream_breaks_cases) (simp add: sw_work_def transit_def potential_def)
next
  case (lost t)
  then have "0 < rank (sw_pc w t)" "w' = goto t Give_up w" by (auto elim: call_lost_cases)
  then show ?thesis using lost(1) by (auto intro!: sw_work_goto [of t] simp: goto_def transit_def potential_def)
qed (rule thread_step_work)

text \<open>
  No deadlock: the owner of \<^verbatim>\<open>mtx_read_\<close> can go on or waits for the server; otherwise the owner of \<^verbatim>\<open>mtx_write_\<close> can; otherwise the
  owner of the map can; otherwise every thread that is not done can.
\<close>

lemma waiting_for_server:
  assumes "object_ok req (sw_pc w) m log h so" "so_mtx_read so = Some u" "sw_pc w u = Receive h"
    and "so_replies so = []" "\<not> so_broken so" "sw_entry w = Some (h, so)"
  shows "server_turn proceed w \<noteq> None"
proof -
  have "so_requests so \<noteq> []" using assms by (auto simp: object_ok_def awaiting_replies_def)
  then show ?thesis
    using assms(6) by (cases "so_requests so")
      (auto simp: server_turn_def split: sum.splits prod.splits option.splits list.splits stream_out.splits)
qed

definition started :: "'r pc \<Rightarrow> bool" where
  "started p \<longleftrightarrow> p \<noteq> Find \<and> (\<forall>b. p \<noteq> Remove b)"

lemma owner_moves:
  assumes inv: "sw_inv req w" and e: "sw_entry w = Some (h, so)"
    and o: "so_mtx_read so = Some u \<or> so_mtx_write so = Some u \<and> so_mtx_read so = None"
  shows "started (sw_pc w u) \<and> (thread_step body obj req u w \<noteq> None \<or> server_turn proceed w \<noteq> None)"
proof -
  note ob = sw_invD(4) [OF inv e, THEN conjunct2]
  have wr: "so_mtx_write so = Some u \<Longrightarrow> sw_pc w u \<in> {Send h, Lock_read h, Unlock_write h, Send_failed h}"
    and rd: "so_mtx_read so = Some u \<Longrightarrow> sw_pc w u \<in> {Unlock_write h, Receive h, Receive_failed h} \<union> range (Unlock_read h)"
    using ob by (simp_all add: object_ok_def)
  then have "started (sw_pc w u)" using o by (auto simp: started_def)
  moreover have "thread_step body obj req u w \<noteq> None \<or> server_turn proceed w \<noteq> None"
  proof (cases "sw_pc w u = Receive h")
    case True
    with o wr have "so_mtx_read so = Some u" by auto
    with waiting_for_server [OF ob this True _ _ e] True e show ?thesis
      by (cases "so_replies so") (auto simp: thread_step_def through_def)
  next
    case False
    with o wr rd e show ?thesis by (auto simp: thread_step_def through_def)
  qed
  ultimately show ?thesis by blast
qed

lemma someone_moves:
  assumes inv: "sw_inv req w" and t: "\<not> finished (sw_pc w t)"
  shows "(\<exists>u. (u = t \<or> started (sw_pc w u)) \<and> thread_step body obj req u w \<noteq> None) \<or> server_turn proceed w \<noteq> None"
proof (cases "\<exists>h so u. sw_entry w = Some (h, so) \<and> (so_mtx_read so = Some u \<or> so_mtx_write so = Some u \<and> so_mtx_read so = None)")
  case True
  then obtain h so u where "sw_entry w = Some (h, so)" "so_mtx_read so = Some u \<or> so_mtx_write so = Some u \<and> so_mtx_read so = None"
    by blast
  from owner_moves [OF inv this, of body obj proceed] show ?thesis by blast
next
  case False
  then have free: "sw_entry w = Some (h, so) \<Longrightarrow> so_mtx_read so = None \<and> so_mtx_write so = None" for h so
    by (meson not_None_eq)
  show ?thesis
  proof (cases "sw_mtx w")
    case (Some u)
    then obtain b h where p: "sw_pc w u = Close b h \<or> sw_pc w u = Erase b h" using sw_invD(3) [OF inv] by blast
    then have "thread_step body obj req u w \<noteq> None"
      using sw_invD(1) [OF inv, of u] free by (auto simp: thread_step_def through_def remove_close_def)
    moreover have "started (sw_pc w u)" using p by (auto simp: started_def)
    ultimately show ?thesis by blast
  next
    case None
    then have "thread_step body obj req t w \<noteq> None"
      using t sw_invD(1) [OF inv, of t] free
      by (cases "sw_pc w t") (auto simp: thread_step_def through_def find_stream_def remove_begin_def create_stream_def split: option.splits)
    then show ?thesis by blast
  qed
qed

text \<open>Only the \<open>n\<close> threads move.\<close>

lemma thread_step_pc: "thread_step body obj req t w = Some (Inr w') \<Longrightarrow> u \<noteq> t \<Longrightarrow> sw_pc w' u = sw_pc w u"
  by (cases "sw_pc w t")
     (auto simp: thread_step_def through_def find_stream_def remove_begin_def remove_erase_def plain_call_def create_stream_def
        goto_def rbind_eq_Inr_conv split: option.splits if_splits sum.splits)

lemma sw_step_pc:
  assumes "sw_step proceed body obj req n w w'" "n \<le> u"
  shows "sw_pc w' u = sw_pc w u"
  using assms(1)
proof cases
  case (thread t)
  then show ?thesis using assms(2) by (auto intro: thread_step_pc)
next
  case server
  then show ?thesis by (cases rule: server_turn_cases) simp_all
next
  case breaks
  then show ?thesis by (cases rule: stream_breaks_cases) simp
next
  case (lost t)
  then show ?thesis using assms(2) by (auto simp: goto_def elim: call_lost_cases)
qed

lemma sw_reachable_idle: "sw_reachable proceed body obj req releases n s w \<Longrightarrow> n \<le> u \<Longrightarrow> \<not> started (sw_pc w u)"
proof (induction rule: sw_reachable.induct)
  case (step w w')
  then show ?case using sw_step_pc by metis
qed (auto simp: sw_start_def started_def)

section \<open>The order in which the server executes\<close>

text \<open>
  What the threads need of the server: the call object of a stream answers each request like the plain procedure (up to
  \<open>same\<close>), and both keep the file system in \<open>I\<close>.
\<close>

locale stream_service =
  fixes proceed :: "bool \<Rightarrow> 'q \<Rightarrow> 'o \<Rightarrow> ('s, 'o option \<times> nat \<times> 'r stream_out) action"
    and body :: "'q \<Rightarrow> ('s, 'r) action"
    and obj :: 'o
    and ready :: "'o \<Rightarrow> bool"
    and same :: "'r \<Rightarrow> 'r \<Rightarrow> bool"
    and I :: "'s \<Rightarrow> bool"
  assumes new_ready: "ready obj"
    and turn: "ready ob \<Longrightarrow> I s \<Longrightarrow> drive proceed [(True, q), (True, q)] (Some ob) s = Inr ((Some ob', k, [Issue_write r, Issue_read]), s')
      \<Longrightarrow> ready ob' \<and> I s' \<and> (\<exists>r'. body q s = Inr (r', s') \<and> same r r')"
    and plain: "I s \<Longrightarrow> body q s = Inr (r, s') \<Longrightarrow> I s'"
    and same_refl: "same r r"
begin

text \<open>The replies are those of the plain procedure, request after request in the order of the log.\<close>

definition explained :: "'s \<Rightarrow> ('q, 'r, 'o, 's) stream_world \<Rightarrow> bool" where
  "explained s0 w \<longleftrightarrow> I (sw_srv w) \<and> (\<forall>h so. sw_entry w = Some (h, so) \<longrightarrow> ready (so_server so)) \<and>
     (\<exists>rs. run_all body (map (fst \<circ> snd) (sw_log w)) s0 = Inr (rs, sw_srv w) \<and> list_all2 same (map (snd \<circ> snd) (sw_log w)) rs)"

lemma explained_snoc:
  assumes "explained s0 w" "body q (sw_srv w) = Inr (r', s')" "same r r'" "I s'"
    and "sw_srv w' = s'" "sw_log w' = sw_log w @ [(t, q, r)]"
    and "\<And>h so. sw_entry w' = Some (h, so) \<Longrightarrow> ready (so_server so)"
  shows "explained s0 w'"
proof -
  obtain rs where rs: "run_all body (map (fst \<circ> snd) (sw_log w)) s0 = Inr (rs, sw_srv w)"
    "list_all2 same (map (snd \<circ> snd) (sw_log w)) rs"
    using assms(1) by (auto simp: explained_def)
  show ?thesis
    using run_all_snoc [OF rs(1) assms(2)] rs(2) assms(3-) by (auto simp: explained_def intro!: list_all2_appendI)
qed

lemma explained_quiet:
  assumes "explained s0 w" "sw_srv w' = sw_srv w" "sw_log w' = sw_log w"
    and "\<And>h so. sw_entry w' = Some (h, so) \<Longrightarrow> ready (so_server so)"
  shows "explained s0 w'"
  using assms by (simp add: explained_def)

lemma stream_call_step_server: "stream_call_step t q p so = Some (Inr (so', p')) \<Longrightarrow> so_server so' = so_server so"
  by (cases p) (auto split: if_splits list.splits)

lemma thread_step_explained:
  assumes e: "explained s0 w" and s: "thread_step body obj req t w = Some (Inr w')"
  shows "explained s0 w'"
proof -
  have ready: "sw_entry w = Some (h, so) \<Longrightarrow> ready (so_server so)" for h so using e by (auto simp: explained_def)
  show ?thesis
  proof (cases "sw_pc w t = Call \<and> (\<exists>r s. body (req t) (sw_srv w) = Inr (r, s))")
    case True
    then obtain r s1 where b: "body (req t) (sw_srv w) = Inr (r, s1)" "sw_pc w t = Call" by blast
    then have w': "w' = goto t (Create r) (w\<lparr>sw_srv := s1, sw_log := sw_log w @ [(t, req t, r)]\<rparr>)"
      using s by (simp add: thread_step_def plain_call_def)
    have "I s1" using plain b(1) e by (auto simp: explained_def)
    then show ?thesis
      by (intro explained_snoc [OF e b(1) same_refl]) (use w' ready in \<open>auto simp: goto_def\<close>)
  next
    case False
    have "sw_srv w' = sw_srv w \<and> sw_log w' = sw_log w \<and> (\<forall>h so. sw_entry w' = Some (h, so) \<longrightarrow> ready (so_server so))"
      using s False ready new_ready stream_call_step_server
      by (cases "sw_pc w t")
         (auto simp: thread_step_def through_def find_stream_def remove_begin_def remove_close_def remove_erase_def plain_call_def
            create_stream_def goto_def stream_object_new_def rbind_eq_Inr_conv
            split: option.splits if_splits sum.splits list.splits)
    then show ?thesis by (intro explained_quiet [OF e]) auto
  qed
qed

lemma reachable_explained:
  assumes "sw_reachable proceed body obj req releases n s0 w" "I s0"
  shows "explained s0 w"
  using assms
proof (induction rule: sw_reachable.induct)
  case (start opened)
  then show ?case by (auto simp: explained_def sw_start_def stream_object_new_def new_ready split: if_splits)
next
  case (step w w')
  then have e: "explained s0 w" by blast
  from step.hyps(2) show ?case
  proof cases
    case (thread t)
    then show ?thesis by (intro thread_step_explained [OF e])
  next
    case server
    then show ?thesis
    proof (cases rule: server_turn_cases)
      case (served h so t q qs ob' k r s)
      have "ready (so_server so)" "I (sw_srv w)" using e served(1) by (auto simp: explained_def)
      from turn [OF this served(3)] obtain r' where "ready ob'" "I s" "body q (sw_srv w) = Inr (r', s)" "same r r'"
        by blast
      then show ?thesis by (intro explained_snoc [OF e]) (use served in auto)
    next
      case (failed h so)
      then show ?thesis by (intro explained_quiet [OF e]) (use failed e in \<open>auto simp: explained_def\<close>)
    qed
  next
    case breaks
    then show ?thesis
      by (cases rule: stream_breaks_cases, intro explained_quiet [OF e]) (use e in \<open>auto simp: explained_def\<close>)
  next
    case (lost t)
    then show ?thesis
      by (intro explained_quiet [OF e]) (use e in \<open>auto simp: explained_def goto_def elim!: call_lost_cases\<close>)
  qed
qed

end

section \<open>Without a failure every request is executed once\<close>

fun sent :: "'r pc \<Rightarrow> bool" where
  "sent (Lock_read h) = True"
| "sent (Unlock_write h) = True"
| "sent (Receive h) = True"
| "sent (Unlock_read h r) = True"
| "sent (Create r) = True"
| "sent (Return r) = True"
| "sent Give_up = True"
| "sent _ = False"

definition pending :: "('q, 'r, 'o, 's) stream_world \<Rightarrow> nat list" where
  "pending w = (case sw_entry w of None \<Rightarrow> [] | Some (h, so) \<Rightarrow> map fst (so_requests so))"

definition once_inv :: "('q, 'r, 'o, 's) stream_world \<Rightarrow> bool" where
  "once_inv w \<longleftrightarrow> (\<forall>h so. sw_entry w = Some (h, so) \<longrightarrow> so_broken so \<longrightarrow> sw_broke w) \<and>
     (\<not> sw_broke w \<longrightarrow> (\<forall>t h. sw_pc w t \<noteq> Receive_failed h) \<and> distinct (map fst (sw_log w) @ pending w) \<and>
        (\<forall>t \<in> set (map fst (sw_log w) @ pending w). sent (sw_pc w t)))"

lemma once_invI:
  assumes "once_inv w" "sw_broke w' = sw_broke w" "sw_pc w' = (sw_pc w)(t := p)"
    and "\<And>h so. sw_entry w' = Some (h, so) \<Longrightarrow> so_broken so \<Longrightarrow> sw_broke w"
    and "\<And>h. \<not> sw_broke w \<Longrightarrow> p \<noteq> Receive_failed h"
    and "\<not> sw_broke w \<Longrightarrow> sent (sw_pc w t) \<Longrightarrow> sent p"
    and "\<not> sw_broke w \<Longrightarrow> map fst (sw_log w') @ pending w' = map fst (sw_log w) @ pending w \<or>
      \<not> sent (sw_pc w t) \<and> sent p \<and> mset (map fst (sw_log w') @ pending w') = mset (t # map fst (sw_log w) @ pending w) \<or>
      map fst (sw_log w') @ pending w' = map fst (sw_log w)"
  shows "once_inv w'"
proof (cases "sw_broke w")
  case False
  let ?old = "map fst (sw_log w) @ pending w" and ?new = "map fst (sw_log w') @ pending w'"
  have old: "distinct ?old" "u \<in> set ?old \<Longrightarrow> sent (sw_pc w u)" for u
    using assms(1) False by (auto simp: once_inv_def)
  have "distinct ?new \<and> (\<forall>u \<in> set ?new. sent (sw_pc w' u))"
    using assms(7) [OF False]
  proof (elim disjE conjE)
    assume a: "\<not> sent (sw_pc w t)" "sent p" "mset ?new = mset (t # ?old)"
    then have "set ?new = set (t # ?old)" "distinct ?new = distinct (t # ?old)"
      by (blast dest: mset_eq_setD, blast dest: mset_eq_imp_distinct_iff)
    then show ?thesis using a old assms(3) by (auto simp del: set_append set_map)
  qed (use old assms(3,6) False in auto)
  then show ?thesis using assms False by (auto simp: once_inv_def)
qed (use assms in \<open>auto simp: once_inv_def\<close>)

lemma stream_call_step_once:
  assumes e: "sw_entry w = Some (h, so)" and i: "once_inv w"
    and s: "stream_call_step t q (sw_pc w t) so = Some (Inr (so', p'))"
  shows "once_inv (goto t p' (w\<lparr>sw_entry := Some (h, so')\<rparr>))"
proof (rule once_invI [OF i, where t = t and p = p'])
  have b: "so_broken so \<longrightarrow> sw_broke w" using i e by (auto simp: once_inv_def)
  have f: "\<not> sw_broke w \<Longrightarrow> sw_pc w t \<noteq> Receive_failed k" for k using i by (auto simp: once_inv_def)
  let ?w = "goto t p' (w\<lparr>sw_entry := Some (h, so')\<rparr>)"
  show "so_broken so'' \<Longrightarrow> sw_broke w" if "sw_entry ?w = Some (k, so'')" for k so''
    using that b s by (cases "sw_pc w t") (auto simp: goto_def split: if_splits list.splits)
  show "p' \<noteq> Receive_failed k" if "\<not> sw_broke w" for k
    using that b s by (cases "sw_pc w t") (auto split: if_splits list.splits)
  show "sent p'" if "\<not> sw_broke w" "sent (sw_pc w t)"
    using that b s by (cases "sw_pc w t") (auto split: if_splits list.splits)
  show "map fst (sw_log ?w) @ pending ?w = map fst (sw_log w) @ pending w \<or>
      \<not> sent (sw_pc w t) \<and> sent p' \<and> mset (map fst (sw_log ?w) @ pending ?w) = mset (t # map fst (sw_log w) @ pending w) \<or>
      map fst (sw_log ?w) @ pending ?w = map fst (sw_log w)" if "\<not> sw_broke w"
    using that b e s by (cases "sw_pc w t") (auto simp: goto_def pending_def split: if_splits list.splits)
qed (simp_all add: goto_def)

lemma thread_step_broke: "thread_step body obj req t w = Some (Inr w') \<Longrightarrow> sw_broke w' = sw_broke w"
  by (cases "sw_pc w t") (auto simp: thread_step_def through_def find_stream_def remove_begin_def remove_close_def remove_erase_def
      plain_call_def create_stream_def goto_def rbind_eq_Inr_conv split: option.splits if_splits sum.splits)

lemma thread_step_once:
  assumes i: "once_inv w" and s: "thread_step body obj req t w = Some (Inr w')"
  shows "once_inv w'"
proof (cases "refers (sw_pc w t)")
  case (Some h)
  then have "through h w (stream_call_step t (req t) (sw_pc w t)) t = Some (Inr w')"
    using s by (cases "sw_pc w t") (simp_all add: thread_step_def)
  then show ?thesis
    using stream_call_step_once [OF _ i] by (auto simp: through_def rbind_eq_Inr_conv split: option.splits if_splits)
next
  case None
  have b: "so_broken so \<longrightarrow> sw_broke w" if "sw_entry w = Some (h, so)" for h so using i that by (auto simp: once_inv_def)
  have "sw_broke w' = sw_broke w" by (rule thread_step_broke [OF s])
  moreover have "sw_pc w' = (sw_pc w)(t := sw_pc w' t)"
    using thread_step_pc [OF s] by (auto simp: fun_eq_iff)
  moreover have "so_broken so \<Longrightarrow> sw_broke w" if "sw_entry w' = Some (h, so)" for h so
    using s None that b
    by (cases "sw_pc w t") (auto simp: thread_step_def through_def find_stream_def remove_begin_def remove_close_def remove_erase_def
        plain_call_def create_stream_def stream_object_new_def goto_def rbind_eq_Inr_conv split: option.splits if_splits sum.splits)
  moreover have "sw_pc w' t \<noteq> Receive_failed h" for h
    using s None
    by (cases "sw_pc w t") (auto simp: thread_step_def through_def find_stream_def remove_begin_def remove_close_def remove_erase_def
        plain_call_def create_stream_def after_remove_def goto_def rbind_eq_Inr_conv split: option.splits if_splits sum.splits)
  moreover have "sent (sw_pc w t) \<Longrightarrow> sent (sw_pc w' t)"
    using s None by (cases "sw_pc w t") (auto simp: thread_step_def create_stream_def goto_def split: option.splits if_splits)
  moreover have "map fst (sw_log w') @ pending w' = map fst (sw_log w) @ pending w \<or>
      \<not> sent (sw_pc w t) \<and> sent (sw_pc w' t) \<and> mset (map fst (sw_log w') @ pending w') = mset (t # map fst (sw_log w) @ pending w) \<or>
      map fst (sw_log w') @ pending w' = map fst (sw_log w)"
    using s None
    by (cases "sw_pc w t") (auto simp: thread_step_def through_def find_stream_def remove_begin_def remove_close_def remove_erase_def
        plain_call_def create_stream_def stream_object_new_def pending_def goto_def rbind_eq_Inr_conv
        split: option.splits if_splits sum.splits)
  ultimately show ?thesis by (intro once_invI [OF i]) auto
qed

lemma reachable_once: "sw_reachable proceed body obj req releases n s w \<Longrightarrow> once_inv w"
proof (induction rule: sw_reachable.induct)
  case (start opened)
  show ?case by (auto simp: once_inv_def sw_start_def pending_def stream_object_new_def)
next
  case (step w w')
  from step.hyps(2) show ?case
  proof cases
    case (thread t)
    with step.IH show ?thesis by (metis thread_step_once)
  next
    case server
    then show ?thesis
      by (cases rule: server_turn_cases) (use step.IH in \<open>auto simp: once_inv_def pending_def\<close>)
  next
    case breaks
    then show ?thesis by (cases rule: stream_breaks_cases) (simp add: once_inv_def)
  next
    case (lost t)
    then show ?thesis
      using step.IH by (intro once_invI [OF step.IH, where t = t and p = Give_up])
        (auto simp: goto_def once_inv_def pending_def elim!: call_lost_cases)
  qed
qed

section \<open>Readers and writers alone\<close>

text \<open>Positions of a thread that neither fails nor removes the stream; its reference is to the open entry.\<close>

fun undisturbed :: "(nat \<times> ('q, 'r, 'o) stream_object) option \<Rightarrow> 'r pc \<Rightarrow> bool" where
  "undisturbed e (Send_failed h) = False"
| "undisturbed e (Receive_failed h) = False"
| "undisturbed e (Remove b) = False"
| "undisturbed e (Close b h) = False"
| "undisturbed e (Erase b h) = False"
| "undisturbed e p = (case refers p of None \<Rightarrow> True | Some h \<Rightarrow> (\<exists>so. e = Some (h, so) \<and> \<not> so_closed so))"

definition undisturbed_inv :: "('q, 'r, 'o, 's) stream_world \<Rightarrow> bool" where
  "undisturbed_inv w \<longleftrightarrow> (\<forall>t. undisturbed (sw_entry w) (sw_pc w t)) \<and> (\<forall>h so. sw_entry w = Some (h, so) \<longrightarrow> \<not> so_closed so \<and> \<not> so_broken so)"

lemma undisturbed_stable:
  "undisturbed e p \<Longrightarrow> (\<And>h so. e = Some (h, so) \<Longrightarrow> \<exists>so'. e' = Some (h, so') \<and> \<not> so_closed so') \<Longrightarrow> undisturbed e' p"
  by (cases p) auto

lemma undisturbed_step:
  assumes i: "undisturbed_inv w" and s: "thread_step body obj req t w = Some (Inr w')"
  shows "undisturbed_inv w'"
proof -
  have t: "undisturbed (sw_entry w) (sw_pc w t)" and e: "sw_entry w = Some (h, so) \<Longrightarrow> \<not> so_closed so \<and> \<not> so_broken so" for h so
    using i by (auto simp: undisturbed_inv_def)
  have k: "\<exists>so'. sw_entry w' = Some (h, so') \<and> \<not> so_closed so'" if "sw_entry w = Some (h, so)" for h so
    using s t e [OF that] that
    by (cases "sw_pc w t") (auto simp: thread_step_def through_def find_stream_def plain_call_def create_stream_def goto_def
        rbind_eq_Inr_conv split: option.splits if_splits sum.splits list.splits)
  have "undisturbed (sw_entry w') (sw_pc w' t)"
    using s t e
    by (cases "sw_pc w t") (auto simp: thread_step_def through_def find_stream_def plain_call_def create_stream_def goto_def
        rbind_eq_Inr_conv split: option.splits if_splits sum.splits list.splits)
  moreover have "undisturbed (sw_entry w') (sw_pc w' u)" if "u \<noteq> t" for u
    using thread_step_pc [OF s that] i k by (auto simp: undisturbed_inv_def intro: undisturbed_stable)
  moreover have "\<not> so_closed so \<and> \<not> so_broken so" if "sw_entry w' = Some (h, so)" for h so
    using s t e that
    by (cases "sw_pc w t") (auto simp: thread_step_def through_def find_stream_def plain_call_def create_stream_def goto_def
        stream_object_new_def rbind_eq_Inr_conv split: option.splits if_splits sum.splits list.splits)
  ultimately show ?thesis by (metis undisturbed_inv_def)
qed

lemma reachable_undisturbed:
  "sw_reachable proceed body obj req releases n s w \<Longrightarrow> (\<And>t. \<not> releases t) \<Longrightarrow> \<not> sw_broke w \<Longrightarrow> undisturbed_inv w"
proof (induction rule: sw_reachable.induct)
  case (start opened)
  then show ?case by (auto simp: undisturbed_inv_def sw_start_def stream_object_new_def)
next
  case (step w w')
  from step.hyps(2) show ?case
  proof cases
    case (thread t)
    with step show ?thesis by (metis undisturbed_step thread_step_broke)
  next
    case server
    then show ?thesis
    proof (cases rule: server_turn_cases)
      case (served h so t q qs ob k r s)
      then have "undisturbed_inv w" using step by simp
      then show ?thesis using served by (auto simp: undisturbed_inv_def intro: undisturbed_stable)
    qed (use step.prems in simp)
  next
    case breaks
    then show ?thesis using step.prems by (cases rule: stream_breaks_cases) simp
  next
    case (lost t)
    then have w: "w' = goto t Give_up w" by (auto elim: call_lost_cases)
    with step have "undisturbed_inv w" by (simp add: goto_def)
    then show ?thesis using w by (simp add: undisturbed_inv_def goto_def)
  qed
qed

lemma undisturbed_safe: "undisturbed_inv w \<Longrightarrow> thread_step body obj req t w \<noteq> Some (Inl e)"
  by (cases "sw_pc w t")
     (auto simp: undisturbed_inv_def thread_step_def through_def split: option.splits if_splits list.splits
        dest!: spec [of _ t])

section \<open>The two streams\<close>

interpretation write_threads: stream_service "stream_write_proceed ops" "write_process ops" "\<lparr>swd_status = S_READ\<rparr>"
  "\<lambda>ob. swd_status ob = S_READ" "(=)" "\<lambda>_. True" for ops
  by unfold_locales (auto simp: stream_write_proceed_def write_process_eq rbind_eq_Inr_conv)

lemma same_read_refl: "same_read r r"
  by (cases r) simp

lemma read_threads:
  assumes "op_read ops = Some rd" "reads_prefix rd I"
  shows "stream_service (stream_read_proceed ops) (read_process ops) \<lparr>srd_status = S_READ, srd_reply_buf = []\<rparr>
     (\<lambda>ob. srd_status ob = S_READ) same_read I"
proof
  fix ob s q ob' k r s'
  assume "srd_status ob = S_READ" "I s" and d: "drive (stream_read_proceed ops) [(True, q), (True, q)] (Some ob) s =
    Inr ((Some ob', k, [Issue_write r, Issue_read]), s')"
  then have "read_into ops q (srd_reply_buf ob) s = Inr (r, s')" "srd_status ob' = S_READ"
    by (auto simp: stream_read_proceed_def rbind_eq_Inr_conv)
  moreover obtain r1 r' s1 where "read_into ops q (srd_reply_buf ob) s = Inr (r1, s1)" "read_into ops q [] s = Inr (r', s1)"
    "same_read r1 r'" "I s1"
    using read_into_blind [OF assms \<open>I s\<close>] by metis
  ultimately show "srd_status ob' = S_READ \<and> I s' \<and> (\<exists>r'. read_process ops q s = Inr (r', s') \<and> same_read r r')"
    by (simp add: read_process_def)
next
  fix s q r s'
  assume "I s" "read_process ops q s = Inr (r, s')"
  then show "I s'" using read_into_blind [OF assms \<open>I s\<close>, of q "[]" "[]"] by (auto simp: read_process_def)
qed (simp_all add: same_read_refl)

lemma returned_logged: "sw_reachable proceed body obj req releases n s w \<Longrightarrow> sw_pc w t = Return r \<Longrightarrow> (t, req t, r) \<in> set (sw_log w)"
  using sw_invD(1) [OF sw_reachable_inv, where u = t] by (fastforce simp: answered_def)

lemma logged_once: "sw_reachable proceed body obj req releases n s w \<Longrightarrow> \<not> sw_broke w \<Longrightarrow> distinct (map fst (sw_log w))"
  using reachable_once by (fastforce simp: once_inv_def)

section \<open>Schedules\<close>

text \<open>A run given by who moves next.\<close>

datatype mover = Thread nat | Server | Network | Lost nat

fun move :: "(bool \<Rightarrow> 'q \<Rightarrow> 'o \<Rightarrow> ('s, 'o option \<times> nat \<times> 'r stream_out) action) \<Rightarrow> ('q \<Rightarrow> ('s, 'r) action)
    \<Rightarrow> 'o \<Rightarrow> (nat \<Rightarrow> 'q) \<Rightarrow> mover \<Rightarrow> ('q, 'r, 'o, 's) stream_world \<Rightarrow> ('q, 'r, 'o, 's) stream_world option" where
  "move proceed body obj req (Thread t) w = (case thread_step body obj req t w of Some (Inr w') \<Rightarrow> Some w' | _ \<Rightarrow> None)"
| "move proceed body obj req Server w = server_turn proceed w"
| "move proceed body obj req Network w = stream_breaks w"
| "move proceed body obj req (Lost t) w = call_lost t w"

fun schedule :: "(bool \<Rightarrow> 'q \<Rightarrow> 'o \<Rightarrow> ('s, 'o option \<times> nat \<times> 'r stream_out) action) \<Rightarrow> ('q \<Rightarrow> ('s, 'r) action)
    \<Rightarrow> 'o \<Rightarrow> (nat \<Rightarrow> 'q) \<Rightarrow> mover list \<Rightarrow> ('q, 'r, 'o, 's) stream_world \<Rightarrow> ('q, 'r, 'o, 's) stream_world option" where
  "schedule proceed body obj req [] w = Some w"
| "schedule proceed body obj req (m # ms) w =
     (case move proceed body obj req m w of None \<Rightarrow> None | Some w' \<Rightarrow> schedule proceed body obj req ms w')"

fun mover_below :: "nat \<Rightarrow> mover \<Rightarrow> bool" where
  "mover_below n (Thread t) = (t < n)"
| "mover_below n (Lost t) = (t < n)"
| "mover_below n _ = True"

lemma move_step: "move proceed body obj req m w = Some w' \<Longrightarrow> mover_below n m \<Longrightarrow> sw_step proceed body obj req n w w'"
  by (cases m) (auto intro: sw_step.intros split: option.splits sum.splits)

lemma schedule_reachable:
  assumes "schedule proceed body obj req ms w = Some w'" "list_all (mover_below n) ms"
    and "sw_reachable proceed body obj req releases n s w"
  shows "sw_reachable proceed body obj req releases n s w'"
  using assms
proof (induction ms arbitrary: w)
  case (Cons m ms)
  then obtain w1 where w1: "move proceed body obj req m w = Some w1" "schedule proceed body obj req ms w1 = Some w'"
    by (auto split: option.splits)
  have m: "mover_below n m" "list_all (mover_below n) ms" using Cons.prems(2) by simp_all
  from Cons.IH [OF w1(2) m(2) sw_reachable.step [OF Cons.prems(3) move_step [OF w1(1) m(1)]]] show ?case .
qed simp

lemmas schedule_simps = thread_step_def through_def find_stream_def remove_begin_def remove_close_def remove_erase_def
  create_stream_def stream_breaks_def break_object_def goto_def after_remove_def sw_start_def stream_object_new_def

section \<open>Properties\<close>

text \<open>
  C7. Concurrent writes through one stream are linearizable. In every interleaving of the threads, the server and the network,
  with failing streams and threads that remove the stream in between, the file system and all answers are those of the requests
  executed one after the other in one order; a write that has returned got the answer to its own request, although any
  thread may read any message from the stream; and as long as no stream has failed, no request is executed twice.
\<close>

theorem write_threads_linearizable:
  assumes "sw_reachable (stream_write_proceed ops) (write_process ops) \<lparr>swd_status = S_READ\<rparr> req releases n s w"
  shows "run_all (write_process ops) (map (fst \<circ> snd) (sw_log w)) s = Inr (map (snd \<circ> snd) (sw_log w), sw_srv w) \<and>
     (\<forall>t r. sw_pc w t = Return r \<longrightarrow> (t, req t, r) \<in> set (sw_log w)) \<and>
     (\<not> sw_broke w \<longrightarrow> distinct (map fst (sw_log w)))"
  using write_threads.reachable_explained [OF assms] returned_logged [OF assms] logged_once [OF assms]
  by (auto simp: write_threads.explained_def list.rel_eq)

text \<open>
  Two writers on one stream: thread 1 sends before thread 0 has its answer, and the server answers both before either reads.
\<close>

definition pipelined :: "mover list" where
  "pipelined = map Thread [0, 0, 0, 0, 0, 1, 1, 1] @ [Server, Server] @ map Thread [0, 0, 1, 1, 1, 1]"

definition adding_ops :: "(nat, unit) fuse_operations" where
  "adding_ops = null_operations\<lparr>op_write := Some (\<lambda>path buf sz off fi s. Inr ((int sz, fi), s + sz))\<rparr>"

definition two_writes :: "nat \<Rightarrow> WriteRequest" where
  "two_writes t = WriteRequest ''/f'' (Suc t) 0 (replicate (Suc t) CHR ''x'') default_FuseFileInfo"

theorem write_threads_linearizable_witness:
  "\<exists>w. sw_reachable (stream_write_proceed adding_ops) (write_process adding_ops) \<lparr>swd_status = S_READ\<rparr> two_writes (\<lambda>_. False) 2 0 w \<and>
     sw_srv w = 3 \<and> (\<exists>r. sw_pc w 1 = Return r \<and> (1, two_writes 1, r) \<in> set (sw_log w)) \<and>
     run_all (write_process adding_ops) (map (fst \<circ> snd) (sw_log w)) 0 = Inr (map (snd \<circ> snd) (sw_log w), 3)"
proof -
  obtain w r where w: "schedule (stream_write_proceed adding_ops) (write_process adding_ops) \<lparr>swd_status = S_READ\<rparr> two_writes pipelined
      (sw_start \<lparr>swd_status = S_READ\<rparr> (\<lambda>_. False) True 0) = Some w" "sw_srv w = 3" "sw_pc w 1 = Return r"
    by (simp add: pipelined_def schedule_simps server_turn_def stream_write_proceed_def two_writes_def adding_ops_def with_info_def Let_def)
  have "sw_reachable (stream_write_proceed adding_ops) (write_process adding_ops) \<lparr>swd_status = S_READ\<rparr> two_writes (\<lambda>_. False) 2 0 w"
    by (rule schedule_reachable [OF w(1) _ sw_reachable.start]) (simp add: pipelined_def)
  with write_threads_linearizable [OF this] w show ?thesis by auto
qed

text \<open>
  Concurrent reads through one stream are linearizable in the same sense: over an operation that fills a prefix of its buffer,
  the answers agree with those of the plain procedure, request after request in one order, in the result, the file
  information and the bytes read, and a read that has returned got the answer to its own request.
\<close>

theorem read_threads_linearizable:
  assumes "op_read ops = Some rd" "reads_prefix rd I" "I s"
    and "sw_reachable (stream_read_proceed ops) (read_process ops) \<lparr>srd_status = S_READ, srd_reply_buf = []\<rparr> req releases n s w"
  shows "(\<exists>rs. run_all (read_process ops) (map (fst \<circ> snd) (sw_log w)) s = Inr (rs, sw_srv w) \<and>
            list_all2 same_read (map (snd \<circ> snd) (sw_log w)) rs) \<and>
     (\<forall>t r. sw_pc w t = Return r \<longrightarrow> (t, req t, r) \<in> set (sw_log w)) \<and>
     (\<not> sw_broke w \<longrightarrow> distinct (map fst (sw_log w)))"
  using stream_service.reachable_explained [OF read_threads [OF assms(1,2)] assms(4,3)] returned_logged [OF assms(4)]
    logged_once [OF assms(4)]
  by (auto simp: stream_service.explained_def [OF read_threads [OF assms(1,2)]])

definition two_reads :: "nat \<Rightarrow> ReadRequest" where
  "two_reads t = ReadRequest ''/f'' 3 (int t) default_FuseFileInfo"

theorem read_threads_linearizable_witness:
  "\<exists>w rs. sw_reachable (stream_read_proceed hello_ops) (read_process hello_ops) \<lparr>srd_status = S_READ, srd_reply_buf = []\<rparr>
       two_reads (\<lambda>_. False) 2 () w \<and>
     run_all (read_process hello_ops) (map (fst \<circ> snd) (sw_log w)) () = Inr (rs, sw_srv w) \<and>
     list_all2 same_read (map (snd \<circ> snd) (sw_log w)) rs \<and> map fst (sw_log w) = [0, 1] \<and>
     (\<exists>info. sw_pc w 1 = Return (ReadReply 3 ''ell'' info) \<and> (1, two_reads 1, ReadReply 3 ''ell'' info) \<in> set (sw_log w))"
proof -
  obtain w info where w: "schedule (stream_read_proceed hello_ops) (read_process hello_ops) \<lparr>srd_status = S_READ, srd_reply_buf = []\<rparr>
      two_reads pipelined (sw_start \<lparr>srd_status = S_READ, srd_reply_buf = []\<rparr> (\<lambda>_. False) True ()) = Some w"
    "map fst (sw_log w) = [0, 1]" "sw_pc w 1 = Return (ReadReply 3 ''ell'' info)"
    by (simp add: pipelined_def schedule_simps server_turn_def stream_read_proceed_def two_reads_def hello_ops_def const_read_def fslice_def
        with_info_def resize_def Let_def)
  have r: "sw_reachable (stream_read_proceed hello_ops) (read_process hello_ops) \<lparr>srd_status = S_READ, srd_reply_buf = []\<rparr>
       two_reads (\<lambda>_. False) 2 () w"
    by (rule schedule_reachable [OF w(1) _ sw_reachable.start]) (simp add: pipelined_def)
  have "op_read hello_ops = Some (const_read ''hello'')" by (simp add: hello_ops_def)
  from read_threads_linearizable [OF this const_read_reads_prefix [where I = "\<lambda>_. True"] TrueI r] w(2,3) r show ?thesis
    by (intro exI [of _ w]) auto
qed

text \<open>
  C12. No schedule of the threads deadlocks or runs forever: whatever stream they share, every step - of a thread, the server
  or the network - leaves less work, at most 17 steps per thread and one more from the start; and where nothing can move any more,
  every thread has returned, given up or released the stream, unless one of them has run into undefined behaviour. When no
  thread releases the path and no stream fails, that never happens.
\<close>

theorem stream_threads_finish:
  assumes "sw_reachable proceed body obj req releases n s w"
  shows "(\<forall>w'. sw_step proceed body obj req n w w' \<longrightarrow> sw_work n w' < sw_work n w) \<and>
     sw_work n (sw_start obj releases opened s :: ('q, 'r, 'o, 's) stream_world) \<le> 17 * n + 1 \<and>
     ((\<forall>t<n. thread_step body obj req t w = None) \<and> server_turn proceed w = None \<longrightarrow> (\<forall>t<n. finished (sw_pc w t))) \<and>
     ((\<forall>t. \<not> releases t) \<and> \<not> sw_broke w \<longrightarrow> (\<forall>t e. thread_step body obj req t w \<noteq> Some (Inl e)))"
proof -
  note inv = sw_reachable_inv [OF assms]
  have "(\<Sum>t<n. rank (if releases t then Remove False else Find :: 'r pc)) \<le> (\<Sum>t<n. 17)"
    by (rule sum_mono) simp
  then have "sw_work n (sw_start obj releases opened s :: ('q, 'r, 'o, 's) stream_world) \<le> 17 * n + 1"
    by (simp add: sw_work_def sw_start_def transit_def potential_def stream_object_new_def)
  moreover have "\<forall>t<n. finished (sw_pc w t)"
    if "\<forall>t<n. thread_step body obj req t w = None" "server_turn proceed w = None"
    using someone_moves [OF inv, of _ body obj proceed] that sw_reachable_idle [OF assms] by (metis linorder_not_le)
  ultimately show ?thesis
    using sw_step_work [OF _ inv] undisturbed_safe [OF reachable_undisturbed [OF assms]] by blast
qed

theorem stream_threads_finish_witness:
  "\<exists>w. schedule (stream_write_proceed adding_ops) (write_process adding_ops) \<lparr>swd_status = S_READ\<rparr> two_writes pipelined
       (sw_start \<lparr>swd_status = S_READ\<rparr> (\<lambda>_. False) True 0) = Some w \<and>
     \<not> sw_broke w \<and> finished (sw_pc w 0) \<and> finished (sw_pc w 1) \<and>
     (\<forall>t e. thread_step (write_process adding_ops) \<lparr>swd_status = S_READ\<rparr> two_writes t w \<noteq> Some (Inl e))"
proof -
  obtain w where w: "schedule (stream_write_proceed adding_ops) (write_process adding_ops) \<lparr>swd_status = S_READ\<rparr> two_writes pipelined
      (sw_start \<lparr>swd_status = S_READ\<rparr> (\<lambda>_. False) True 0) = Some w" "\<not> sw_broke w"
    "\<forall>t<2. thread_step (write_process adding_ops) \<lparr>swd_status = S_READ\<rparr> two_writes t w = None"
    "server_turn (stream_write_proceed adding_ops) w = None"
    by (simp add: pipelined_def schedule_simps server_turn_def stream_write_proceed_def two_writes_def adding_ops_def with_info_def
        Let_def less_2_cases_iff)
  have "sw_reachable (stream_write_proceed adding_ops) (write_process adding_ops) \<lparr>swd_status = S_READ\<rparr> two_writes (\<lambda>_. False) 2 0 w"
    by (rule schedule_reachable [OF w(1) _ sw_reachable.start]) (simp add: pipelined_def)
  from stream_threads_finish [OF this, of True] w show ?thesis by auto
qed

text \<open>
  C17. Removing a stream is not safe. A thread that has found the stream of a path uses a reference into the map without its lock.
  Whatever the requests and the server do, there are two runs of two threads in which the next step of thread 0 touches a destroyed
  stream: thread 1 releases the path through another handle; or thread 1 also reads, its stream breaks, and it removes the
  stream before it falls back to a plain call.
\<close>

theorem stream_removal_dangles:
  "(\<exists>w. sw_reachable proceed body obj req (\<lambda>t. t = 1) 2 s w \<and> thread_step body obj req 0 w = Some (Inl Dangling)) \<and>
   (\<exists>w. sw_reachable proceed body obj req (\<lambda>_. False) 2 s w \<and> thread_step body obj req 0 w = Some (Inl Dangling))"
proof
  let ?released = "map Thread [0, 1, 1, 1]"
  obtain w where "schedule proceed body obj req ?released (sw_start obj (\<lambda>t. t = 1) True s) = Some w"
    "thread_step body obj req 0 w = Some (Inl Dangling)"
    by (simp add: schedule_simps)
  with schedule_reachable [OF this(1) _ sw_reachable.start, of 2]
  show "\<exists>w. sw_reachable proceed body obj req (\<lambda>t. t = 1) 2 s w \<and> thread_step body obj req 0 w = Some (Inl Dangling)"
    by auto
next
  let ?failed = "map Thread [0, 1, 1] @ Network # map Thread [1, 1, 1, 1, 1]"
  obtain w where "schedule proceed body obj req ?failed (sw_start obj (\<lambda>_. False) True s) = Some w"
    "thread_step body obj req 0 w = Some (Inl Dangling)"
    by (simp add: schedule_simps)
  with schedule_reachable [OF this(1) _ sw_reachable.start, of 2]
  show "\<exists>w. sw_reachable proceed body obj req (\<lambda>_. False) 2 s w \<and> thread_step body obj req 0 w = Some (Inl Dangling)"
    by auto
qed

end
