(* ===== verification/Data_Cache_Threads.thy ===== *)
theory Data_Cache_Threads
  imports Data_Cache
begin

text \<open>
  Concurrent reads through the data cache (\<^verbatim>\<open>lib/layers/data_cache/cache.cpp\<close>). The blocks are protected by a shared mutex of
  the cache and one of each block, the byte counter is atomic and the policy has a lock of its own; \<^verbatim>\<open>read\<close> takes them
  one after the other, and between two critical sections anything may happen. Here every critical section is one step.

  The properties: while the file does not change, concurrent reads that do not start past its end return what a direct read returns, in every
  interleaving; the byte counter counts the cached blocks in every interleaving; and a refresh that fails leaves a block
  that another thread takes for valid.
\<close>

section \<open>State\<close>

text \<open>
  Where a thread is in \<^verbatim>\<open>read\<close>. From \<open>P_check\<close> to \<open>P_unshare\<close> it holds \<^verbatim>\<open>cache_mtx_\<close> shared.
\<close>

datatype dc_pos =
    P_start
  | P_loop
  | P_check dc_key
  | P_refresh dc_key
  | P_copy dc_key
  | P_unshare dc_key int
  | P_drop dc_key int
  | P_forget dc_key int
  | P_room dc_key
  | P_pick dc_key
  | P_evict dc_key dc_key
  | P_fetch dc_key
  | P_insert dc_key bytes int
  | P_account dc_key bool
  | P_touch dc_key
  | P_done int

text \<open>The arguments and the local variables of a call; \<open>dt_buf0\<close> keeps what the caller's buffer held at the call.\<close>

record dc_thread =
  dt_path :: path
  dt_size :: nat
  dt_offset :: int
  dt_buf0 :: bytes
  dt_buf :: bytes
  dt_readed :: nat
  dt_seeker :: int
  dt_fi :: fi_ptr
  dt_mtime :: timespec
  dt_pos :: dc_pos

definition dc_call :: "path \<Rightarrow> bytes \<Rightarrow> nat \<Rightarrow> int \<Rightarrow> fi_ptr \<Rightarrow> dc_thread" where
  "dc_call path buf sz offset fi = \<lparr>dt_path = path, dt_size = sz, dt_offset = offset, dt_buf0 = buf, dt_buf = buf,
     dt_readed = 0, dt_seeker = offset, dt_fi = fi, dt_mtime = zero_timespec, dt_pos = P_start\<rparr>"

record ('p, 's) dc_world =
  dw_cache :: "'p dcache"
  dw_below :: 's
  dw_threads :: "dc_thread list"

fun holds_shared :: "dc_pos \<Rightarrow> bool" where
  "holds_shared (P_check k) = True"
| "holds_shared (P_refresh k) = True"
| "holds_shared (P_copy k) = True"
| "holds_shared (P_unshare k res) = True"
| "holds_shared _ = False"

definition dw_shared :: "('p, 's) dc_world \<Rightarrow> bool" where
  "dw_shared w = list_ex (\<lambda>th. holds_shared (dt_pos th)) (dw_threads w)"

section \<open>Steps\<close>

text \<open>The copy from a block under its shared lock, which ends the turn of the loop.\<close>

definition copy_from :: "dc_key \<Rightarrow> block \<Rightarrow> dc_thread \<Rightarrow> dc_thread res" where
  "copy_from key b th =
     (let offset_in_the_block = dt_seeker th - b_offset b;
          n_bytes_to_copy = min (dt_size th - dt_readed th) (size_sub (b_size b) (size_of_int offset_in_the_block))
      in if n_bytes_to_copy = 0 then Inr (th\<lparr>dt_pos := P_done (int_of_size (dt_readed th))\<rparr>)
         else rbind (mem_copy (dt_buf th) (dt_readed th) (b_buf b) (nat offset_in_the_block) n_bytes_to_copy) (\<lambda>buf1.
           Inr (th\<lparr>dt_buf := buf1, dt_readed := dt_readed th + n_bytes_to_copy,
                   dt_seeker := off_plus (dt_seeker th) n_bytes_to_copy, dt_pos := P_touch key\<rparr>)))"

text \<open>The reference to a block stays valid under the shared lock of the cache.\<close>

definition the_block :: "dc_key \<Rightarrow> 'p dcache \<Rightarrow> block res" where
  "the_block key c = (case fmlookup (dc_cache c) key of None \<Rightarrow> Inl Dangling | Some b \<Rightarrow> Inr b)"

text \<open>One step of a thread; \<open>None\<close> means that it waits for \<^verbatim>\<open>cache_mtx_\<close>.\<close>

fun dc_step :: "(dc_key, 'p) cache_manager \<Rightarrow> dc_config \<Rightarrow> ('s \<Rightarrow> int) \<Rightarrow> ('s, 'd) fuse_operations \<Rightarrow> bool
    \<Rightarrow> dc_pos \<Rightarrow> dc_thread \<Rightarrow> 'p dcache \<Rightarrow> 's \<Rightarrow> (dc_thread \<times> 'p dcache \<times> 's) res option" where
  "dc_step ep cfg clk ops shared P_start th c s =
     (case fmlookup (dc_mtimes c) (dt_path th) of
        Some mt \<Rightarrow> Some (Inr (th\<lparr>dt_mtime := mt, dt_pos := P_loop\<rparr>, c, s))
      | None \<Rightarrow> Some (rbind (fn (op_read ops)) (\<lambda>read.
          rbind (read (dt_path th) (dt_buf th) (dt_size th) (dt_offset th) (dt_fi th) s) (\<lambda>((res, buf, fi), s1).
            Inr (th\<lparr>dt_buf := buf, dt_fi := fi, dt_pos := P_done res\<rparr>, c, s1)))))"
| "dc_step ep cfg clk ops shared P_loop th c s =
     (if dt_readed th = dt_size th then Some (Inr (th\<lparr>dt_pos := P_done (int_of_size (dt_readed th))\<rparr>, c, s))
      else if dc_block_size cfg = 0 then Some (Inl Div_by_zero)
      else let key = (dt_path th, size_of_int (dt_seeker th) div dc_block_size cfg)
           in Some (Inr (th\<lparr>dt_pos := (case fmlookup (dc_cache c) key of Some _ \<Rightarrow> P_check key | None \<Rightarrow> P_room key)\<rparr>, c, s)))"
| "dc_step ep cfg clk ops shared (P_check key) th c s =
     Some (rbind (the_block key c) (\<lambda>b.
       if block_is_valid (dc_time_out cfg) (clk s) (dt_mtime th) b
       then rbind (copy_from key b th) (\<lambda>th1. Inr (th1, c, s))
       else Inr (th\<lparr>dt_pos := P_refresh key\<rparr>, c, s)))"
| "dc_step ep cfg clk ops shared (P_refresh key) th c s =
     Some (rbind (the_block key c) (\<lambda>b.
       rbind (dc_refresh_block cfg clk ops (dt_path th) (dt_mtime th) b (dt_fi th) s) (\<lambda>(res, b1, fi1, s1).
         Inr (th\<lparr>dt_fi := fi1, dt_pos := (if res < 0 then P_unshare key res else P_copy key)\<rparr>,
              c\<lparr>dc_cache := fmupd key b1 (dc_cache c)\<rparr>, s1))))"
| "dc_step ep cfg clk ops shared (P_copy key) th c s =
     Some (rbind (the_block key c) (\<lambda>b. rbind (copy_from key b th) (\<lambda>th1. Inr (th1, c, s))))"
| "dc_step ep cfg clk ops shared (P_unshare key res) th c s = Some (Inr (th\<lparr>dt_pos := P_drop key res\<rparr>, c, s))"
| "dc_step ep cfg clk ops shared (P_drop key res) th c s =
     (if shared then None else Some (Inr (th\<lparr>dt_pos := P_forget key res\<rparr>, dc_remove_block cfg key c, s)))"
| "dc_step ep cfg clk ops shared (P_forget key res) th c s =
     Some (Inr (th\<lparr>dt_pos := P_done res\<rparr>, c\<lparr>dc_policy := remove ep key (dc_policy c)\<rparr>, s))"
| "dc_step ep cfg clk ops shared (P_room key) th c s =
     Some (Inr (th\<lparr>dt_pos := (if dc_cache_size c > dc_size cfg then P_pick key else P_fetch key)\<rparr>, c, s))"
| "dc_step ep cfg clk ops shared (P_pick key) th c s =
     (case evict ep (dc_policy c) of
        (selected_key, p) \<Rightarrow>
          Some (Inr (th\<lparr>dt_pos := (case selected_key of None \<Rightarrow> P_fetch key | Some k \<Rightarrow> P_evict key k)\<rparr>, c\<lparr>dc_policy := p\<rparr>, s)))"
| "dc_step ep cfg clk ops shared (P_evict key k) th c s =
     (if shared then None else Some (Inr (th\<lparr>dt_pos := P_fetch key\<rparr>, dc_remove_block cfg k c, s)))"
| "dc_step ep cfg clk ops shared (P_fetch key) th c s =
     Some (rbind (fn (op_read ops)) (\<lambda>read.
       rbind (read (dt_path th) (replicate (dc_block_size cfg) (CHR 0x00)) (dc_block_size cfg)
                (off_of_size ((snd key * dc_block_size cfg) mod 2 ^ 64)) (dt_fi th) s)
         (\<lambda>((block_size, new_buf, fi1), s1).
            Inr (th\<lparr>dt_fi := fi1,
                    dt_pos := (if block_size < 0 then P_done block_size
                               else if block_size = 0 then P_done (int_of_size (dt_readed th))
                               else P_insert key new_buf block_size)\<rparr>, c, s1))))"
| "dc_step ep cfg clk ops shared (P_insert key new_buf block_size) th c s =
     (if shared then None
      else Some (Inr (case fmlookup (dc_cache c) key of
           Some _ \<Rightarrow> (th\<lparr>dt_pos := P_account key False\<rparr>, c, s)
         | None \<Rightarrow> (th\<lparr>dt_pos := P_account key True\<rparr>,
             c\<lparr>dc_cache := fmupd key (block_new (clk s) new_buf (size_of_int block_size)
                 (off_of_size ((snd key * dc_block_size cfg) mod 2 ^ 64)) (dt_mtime th)) (dc_cache c)\<rparr>, s))))"
| "dc_step ep cfg clk ops shared (P_account key inserted) th c s =
     Some (Inr (th\<lparr>dt_pos := P_touch key\<rparr>,
       if inserted then c\<lparr>dc_cache_size := size_add (dc_cache_size c) (dc_block_size cfg)\<rparr> else c, s))"
| "dc_step ep cfg clk ops shared (P_touch key) th c s =
     Some (Inr (th\<lparr>dt_pos := P_loop\<rparr>, c\<lparr>dc_policy := touch ep key (dc_policy c)\<rparr>, s))"
| "dc_step ep cfg clk ops shared (P_done res) th c s = None"

definition dw_move :: "(dc_key, 'p) cache_manager \<Rightarrow> dc_config \<Rightarrow> ('s \<Rightarrow> int) \<Rightarrow> ('s, 'd) fuse_operations \<Rightarrow> nat
    \<Rightarrow> ('p, 's) dc_world \<Rightarrow> ('p, 's) dc_world res option" where
  "dw_move ep cfg clk ops i w =
     (let th = dw_threads w ! i
      in map_option (\<lambda>r. rbind r (\<lambda>(th1, c1, s1). Inr (w\<lparr>dw_cache := c1, dw_below := s1, dw_threads := (dw_threads w)[i := th1]\<rparr>)))
           (dc_step ep cfg clk ops (dw_shared w) (dt_pos th) th (dw_cache w) (dw_below w)))"

text \<open>
  Reads are called at any time, with arguments in \<open>A\<close>. Around them, files are opened, which records a modification time in
  \<open>M\<close>, and released, and the layers below move within \<open>R\<close>.
\<close>

inductive dw_reachable :: "(dc_key, 'p) cache_manager \<Rightarrow> dc_config \<Rightarrow> ('s \<Rightarrow> int) \<Rightarrow> ('s, 'd) fuse_operations
    \<Rightarrow> (dc_thread \<Rightarrow> bool) \<Rightarrow> (path \<Rightarrow> timespec \<Rightarrow> bool) \<Rightarrow> ('s \<Rightarrow> 's \<Rightarrow> bool) \<Rightarrow> ('p, 's) dc_world \<Rightarrow> ('p, 's) dc_world \<Rightarrow> bool"
  for ep cfg clk ops A M R w0 where
  start: "dw_reachable ep cfg clk ops A M R w0 w0"
| thread: "dw_reachable ep cfg clk ops A M R w0 w \<Longrightarrow> i < length (dw_threads w) \<Longrightarrow>
    dw_move ep cfg clk ops i w = Some (Inr w') \<Longrightarrow> dw_reachable ep cfg clk ops A M R w0 w'"
| opened: "dw_reachable ep cfg clk ops A M R w0 w \<Longrightarrow> M path mt \<Longrightarrow>
    dw_reachable ep cfg clk ops A M R w0 (w\<lparr>dw_cache := (dw_cache w)\<lparr>dc_mtimes := fmupd path mt (dc_mtimes (dw_cache w))\<rparr>\<rparr>)"
| released: "dw_reachable ep cfg clk ops A M R w0 w \<Longrightarrow>
    dw_reachable ep cfg clk ops A M R w0 (w\<lparr>dw_cache := (dw_cache w)\<lparr>dc_mtimes := fmdrop path (dc_mtimes (dw_cache w))\<rparr>\<rparr>)"
| below: "dw_reachable ep cfg clk ops A M R w0 w \<Longrightarrow> R (dw_below w) s \<Longrightarrow>
    dw_reachable ep cfg clk ops A M R w0 (w\<lparr>dw_below := s\<rparr>)"
| called: "dw_reachable ep cfg clk ops A M R w0 w \<Longrightarrow> A (dc_call path buf sz offset fi) \<Longrightarrow>
    dw_reachable ep cfg clk ops A M R w0 (w\<lparr>dw_threads := dw_threads w @ [dc_call path buf sz offset fi]\<rparr>)"

section \<open>The sequential read, step by step\<close>

text \<open>The result of a copy: the turn is over, or the read is.\<close>

lemma copy_from_cases:
  assumes "copy_from key b th = Inr th'"
  obtains (eof) "th' = th\<lparr>dt_pos := P_done (int_of_size (dt_readed th))\<rparr>"
    | (copied) buf n where "th' = th\<lparr>dt_buf := buf, dt_readed := dt_readed th + n, dt_seeker := off_plus (dt_seeker th) n, dt_pos := P_touch key\<rparr>"
  using assms by (auto simp: copy_from_def Let_def rbind_eq_Inr_conv split: if_splits)

text \<open>A turn of the sequential loop that finds a valid block is the copy.\<close>

lemma read_hit_copy:
  assumes "block_is_valid (dc_time_out cfg) (clk s) (dt_mtime th) b"
  shows "dc_read_hit ep cfg clk ops (dt_path th) (dt_size th) (dt_mtime th) key b
       (dt_buf th, dt_readed th, dt_seeker th, dt_fi th, c, s) =
     rbind (copy_from key b th) (\<lambda>th'.
       let c1 = c\<lparr>dc_cache := fmupd key b (dc_cache c)\<rparr>
       in Inr (case dt_pos th' of
                 P_done r \<Rightarrow> Leave ((r, dt_buf th', dt_fi th'), c1, s)
               | _ \<Rightarrow> Go_on (dt_buf th', dt_readed th', dt_seeker th', dt_fi th', c1\<lparr>dc_policy := touch ep key (dc_policy c1)\<rparr>, s)))"
  using assms by (auto simp: dc_read_hit_def copy_from_def Let_def rbind_assoc)

section \<open>Transparency under concurrency\<close>

text \<open>\<open>F\<close> gives the contents of the files and \<open>mt\<close> their modification times.\<close>

definition dt_admissible :: "(path \<Rightarrow> bytes) \<Rightarrow> dc_thread \<Rightarrow> bool" where
  "dt_admissible F th \<longleftrightarrow> 0 \<le> dt_offset th \<and> nat (dt_offset th) \<le> length (F (dt_path th)) \<and>
     dt_size th \<le> length (dt_buf0 th) \<and> dt_size th < 2 ^ 31"

lemma dt_admissible_eta:
  "dt_admissible F = (\<lambda>th. 0 \<le> dt_offset th \<and> nat (dt_offset th) \<le> length (F (dt_path th)) \<and>
     dt_size th \<le> length (dt_buf0 th) \<and> dt_size th < 2 ^ 31)"
  by (simp add: fun_eq_iff dt_admissible_def)

definition dt_local :: "(path \<Rightarrow> bytes) \<Rightarrow> dc_thread \<Rightarrow> bool" where
  "dt_local F th \<longleftrightarrow> (let off = nat (dt_offset th) in
     dt_readed th \<le> dt_size th \<and> off + dt_readed th \<le> length (F (dt_path th)) \<and> dt_seeker th = int (off + dt_readed th) \<and>
     dt_buf th = fslice (F (dt_path th)) off (dt_readed th) @ drop (dt_readed th) (dt_buf0 th))"

definition turn_key :: "dc_config \<Rightarrow> dc_thread \<Rightarrow> dc_key \<Rightarrow> bool" where
  "turn_key cfg th key \<longleftrightarrow> dt_readed th \<noteq> dt_size th \<and>
     key = (dt_path th, (nat (dt_offset th) + dt_readed th) div dc_block_size cfg)"

definition dt_result :: "(path \<Rightarrow> bytes) \<Rightarrow> dc_thread \<Rightarrow> int \<Rightarrow> bool" where
  "dt_result F th res \<longleftrightarrow> (let d = fslice (F (dt_path th)) (nat (dt_offset th)) (dt_size th)
     in res = int (length d) \<and> dt_buf th = d @ drop (length d) (dt_buf0 th))"

fun pos_ok :: "dc_config \<Rightarrow> (path \<Rightarrow> bytes) \<Rightarrow> (path \<Rightarrow> timespec) \<Rightarrow> 'p dcache \<Rightarrow> dc_thread \<Rightarrow> dc_pos \<Rightarrow> bool" where
  "pos_ok cfg F mt c th P_start \<longleftrightarrow> dt_readed th = 0 \<and> dt_seeker th = dt_offset th \<and> dt_buf th = dt_buf0 th"
| "pos_ok cfg F mt c th (P_check key) \<longleftrightarrow> turn_key cfg th key \<and> fmlookup (dc_cache c) key \<noteq> None"
| "pos_ok cfg F mt c th (P_refresh key) \<longleftrightarrow> turn_key cfg th key \<and> fmlookup (dc_cache c) key \<noteq> None"
| "pos_ok cfg F mt c th (P_copy key) \<longleftrightarrow> turn_key cfg th key \<and>
     (\<exists>b. fmlookup (dc_cache c) key = Some b \<and> b_mtime b = mt (fst key))"
| "pos_ok cfg F mt c th (P_unshare key res) \<longleftrightarrow> False"
| "pos_ok cfg F mt c th (P_drop key res) \<longleftrightarrow> False"
| "pos_ok cfg F mt c th (P_forget key res) \<longleftrightarrow> False"
| "pos_ok cfg F mt c th (P_room key) \<longleftrightarrow> turn_key cfg th key"
| "pos_ok cfg F mt c th (P_pick key) \<longleftrightarrow> turn_key cfg th key"
| "pos_ok cfg F mt c th (P_evict key k) \<longleftrightarrow> turn_key cfg th key"
| "pos_ok cfg F mt c th (P_fetch key) \<longleftrightarrow> turn_key cfg th key"
| "pos_ok cfg F mt c th (P_insert key new_buf n) \<longleftrightarrow> turn_key cfg th key \<and>
     (let d = fslice (F (dt_path th)) (snd key * dc_block_size cfg) (dc_block_size cfg)
      in n = int (length d) \<and> new_buf = d @ replicate (dc_block_size cfg - length d) (CHR 0x00))"
| "pos_ok cfg F mt c th (P_done res) \<longleftrightarrow> dt_result F th res"
| "pos_ok cfg F mt c th _ \<longleftrightarrow> True"

definition in_loop :: "dc_pos \<Rightarrow> bool" where
  "in_loop p \<longleftrightarrow> p \<noteq> P_start \<and> (\<forall>res. p \<noteq> P_done res)"

definition thread_inv :: "dc_config \<Rightarrow> (path \<Rightarrow> bytes) \<Rightarrow> (path \<Rightarrow> timespec) \<Rightarrow> 'p dcache \<Rightarrow> dc_thread \<Rightarrow> bool" where
  "thread_inv cfg F mt c th \<longleftrightarrow> dt_admissible F th \<and> pos_ok cfg F mt c th (dt_pos th) \<and>
     (in_loop (dt_pos th) \<longrightarrow> dt_mtime th = mt (dt_path th) \<and> dt_local F th)"

definition cache_inv :: "dc_config \<Rightarrow> (path \<Rightarrow> bytes) \<Rightarrow> (path \<Rightarrow> timespec) \<Rightarrow> 'p dcache \<Rightarrow> bool" where
  "cache_inv cfg F mt c \<longleftrightarrow> (\<forall>p. dc_coherent cfg p (F p) (mt p) c) \<and> (\<forall>p m. fmlookup (dc_mtimes c) p = Some m \<longrightarrow> m = mt p)"

text \<open>What the threads that hold the cache shared rely on: no block goes away, and a current block stays current.\<close>

definition keeps_blocks :: "(path \<Rightarrow> timespec) \<Rightarrow> 'p dcache \<Rightarrow> 'p dcache \<Rightarrow> bool" where
  "keeps_blocks mt c c' \<longleftrightarrow> (\<forall>k b. fmlookup (dc_cache c) k = Some b \<longrightarrow>
     (\<exists>b'. fmlookup (dc_cache c') k = Some b' \<and> (b_mtime b = mt (fst k) \<longrightarrow> b_mtime b' = mt (fst k))))"

lemma thread_inv_stable:
  assumes "thread_inv cfg F mt c th" "holds_shared (dt_pos th) \<Longrightarrow> keeps_blocks mt c c'"
  shows "thread_inv cfg F mt c' th"
  using assms by (cases "dt_pos th") (fastforce simp: thread_inv_def keeps_blocks_def)+

lemma thread_local_inv:
  assumes "I s" "cache_inv cfg F mt c" "dt_local F th"
  shows "read_inv cfg (dt_path th) (F (dt_path th)) (mt (dt_path th)) I (dt_size th) (nat (dt_offset th)) (dt_buf0 th)
     (dt_buf th, dt_readed th, dt_seeker th, dt_fi th, c, s)"
  using assms by (simp add: read_inv_def cache_inv_def dt_local_def Let_def)

text \<open>The lower layer serves the files.\<close>

definition serves_files :: "dc_config \<Rightarrow> ('s, 'd) fuse_operations \<Rightarrow> ('s \<Rightarrow> bool) \<Rightarrow> (path \<Rightarrow> bytes) \<Rightarrow> bool" where
  "serves_files cfg ops I F \<longleftrightarrow> (\<exists>rd. op_read ops = Some rd \<and> (\<forall>p. serves_file rd I p (F p))) \<and>
     0 < dc_block_size cfg \<and> (\<forall>p. length (F p) + dc_block_size cfg < 2 ^ 63)"

lemma serves_setting:
  "serves_files cfg ops I F \<Longrightarrow> dt_admissible F th \<Longrightarrow>
   read_setting (cfg\<lparr>dc_time_out := n\<rparr>) ops I (dt_path th) (F (dt_path th)) (dt_size th) (dt_buf0 th)"
  by (auto simp: serves_files_def read_setting_def dt_admissible_def)

lemma dc_coherent_time_out [simp]: "dc_coherent (cfg\<lparr>dc_time_out := n\<rparr>) = dc_coherent cfg"
  by (simp add: dc_coherent_def block_holds_def fun_eq_iff)

lemma read_inv_time_out [simp]: "read_inv (cfg\<lparr>dc_time_out := n\<rparr>) = read_inv cfg"
  by (simp add: read_inv_def fun_eq_iff)

lemma read_post_time_out [simp]: "read_post (cfg\<lparr>dc_time_out := n\<rparr>) = read_post cfg"
  by (simp add: read_post_def fun_eq_iff)

lemma copy_correct:
  assumes sf: "serves_files cfg ops I F" and I: "I s" and c: "cache_inv cfg F mt c"
    and th: "dt_admissible F th" "dt_local F th" "turn_key cfg th key" "dt_mtime th = mt (dt_path th)"
    and b: "fmlookup (dc_cache c) key = Some b" "b_mtime b = mt (dt_path th)"
  shows "\<exists>th'. copy_from key b th = Inr th' \<and> thread_inv cfg F mt c th'"
proof -
  let ?cfg = "cfg\<lparr>dc_time_out := 0\<rparr>" and ?p = "dt_path th" and ?i = "(nat (dt_offset th) + dt_readed th) div dc_block_size cfg"
  have key: "key = (?p, ?i)" "dt_readed th \<noteq> dt_size th" using th(3) by (simp_all add: turn_key_def)
  have "read_inv ?cfg ?p (F ?p) (mt ?p) I (dt_size th) (nat (dt_offset th)) (dt_buf0 th)
      (dt_buf th, dt_readed th, dt_seeker th, dt_fi th, c, s)"
    using thread_local_inv [of I s cfg F mt c th] I c th(2) by (simp add: read_inv_time_out)
  from read_hit_correct [OF serves_setting [OF sf th(1)] this key(2) b(1) [unfolded key(1)], where ep = undefined and clk = "\<lambda>_. 0"]
  obtain t where t: "dc_read_hit undefined ?cfg (\<lambda>_. 0) ops ?p (dt_size th) (dt_mtime th) key b
      (dt_buf th, dt_readed th, dt_seeker th, dt_fi th, c, s) = Inr t"
    "case t of Go_on v \<Rightarrow> read_inv cfg ?p (F ?p) (mt ?p) I (dt_size th) (nat (dt_offset th)) (dt_buf0 th) v
     | Leave r \<Rightarrow> read_post cfg ?p (F ?p) (mt ?p) I (dt_size th) (nat (dt_offset th)) (dt_buf0 th) r"
    unfolding th(4) key(1) read_inv_time_out read_post_time_out by auto
  have "block_is_valid (dc_time_out ?cfg) 0 (dt_mtime th) b" using b(2) th(4) by (simp add: block_is_valid_def)
  note t(1) [unfolded read_hit_copy [where cfg = ?cfg and clk = "\<lambda>_. 0", OF this]]
  then obtain th' p where th': "copy_from key b th = Inr th'"
    and eq: "t = (case dt_pos th' of
                 P_done r \<Rightarrow> Leave ((r, dt_buf th', dt_fi th'), c\<lparr>dc_cache := fmupd key b (dc_cache c)\<rparr>, s)
               | _ \<Rightarrow> Go_on (dt_buf th', dt_readed th', dt_seeker th', dt_fi th',
                   c\<lparr>dc_cache := fmupd key b (dc_cache c), dc_policy := p\<rparr>, s))"
    unfolding rbind_eq_Inr_conv Let_def by blast
  from th' have "thread_inv cfg F mt c th'"
  proof (cases rule: copy_from_cases)
    case eof
    with t(2) eq th(1) show ?thesis
      by (simp add: thread_inv_def in_loop_def dt_admissible_def dt_result_def read_post_def Let_def)
  next
    case (copied buf n)
    with t(2) eq th show ?thesis
      by (simp add: thread_inv_def in_loop_def dt_admissible_def dt_local_def read_inv_def Let_def)
  qed
  with th' show ?thesis by blast
qed

text \<open>The steps of one thread: it never runs into undefined behaviour and keeps its own invariant and that of the others.\<close>

definition step_ok :: "dc_config \<Rightarrow> (path \<Rightarrow> bytes) \<Rightarrow> (path \<Rightarrow> timespec) \<Rightarrow> ('s \<Rightarrow> bool) \<Rightarrow> bool \<Rightarrow> 'p dcache
    \<Rightarrow> (dc_thread \<times> 'p dcache \<times> 's) res option \<Rightarrow> bool" where
  "step_ok cfg F mt I shared c r \<longleftrightarrow> (\<forall>x. r = Some x \<longrightarrow> (\<exists>th' c' s'. x = Inr (th', c', s') \<and>
     thread_inv cfg F mt c' th' \<and> cache_inv cfg F mt c' \<and> I s' \<and> (shared \<longrightarrow> keeps_blocks mt c c')))"

lemma step_okI [intro]:
  "thread_inv cfg F mt c' th' \<Longrightarrow> cache_inv cfg F mt c' \<Longrightarrow> I s' \<Longrightarrow> (shared \<Longrightarrow> keeps_blocks mt c c') \<Longrightarrow>
   step_ok cfg F mt I shared c (Some (Inr (th', c', s')))"
  by (simp add: step_ok_def)

lemma step_ok_None [simp]: "step_ok cfg F mt I shared c None"
  by (simp add: step_ok_def)

lemma keeps_blocks_refl [simp]: "dc_cache c' = dc_cache c \<Longrightarrow> keeps_blocks mt c c'"
  by (simp add: keeps_blocks_def)

lemma cache_inv_policy [simp]: "cache_inv cfg F mt (c\<lparr>dc_policy := p\<rparr>) = cache_inv cfg F mt c"
  by (simp add: cache_inv_def dc_coherent_def)

lemma cache_inv_size [simp]: "cache_inv cfg F mt (c\<lparr>dc_cache_size := n\<rparr>) = cache_inv cfg F mt c"
  by (simp add: cache_inv_def dc_coherent_def)

lemma cache_inv_remove: "cache_inv cfg F mt c \<Longrightarrow> cache_inv cfg F mt (dc_remove_block cfg k c)"
  unfolding cache_inv_def
proof (elim conjE, intro conjI allI)
  fix p assume "\<forall>p. dc_coherent cfg p (F p) (mt p) c"
  then have "dc_coherent cfg p (F p) (mt p) c" ..
  then show "dc_coherent cfg p (F p) (mt p) (dc_remove_block cfg k c)"
    by (rule dc_coherent_less) (auto simp: dc_remove_block_def split: option.splits)
qed (auto simp: dc_remove_block_def split: option.splits)

lemma cache_inv_upd:
  assumes "cache_inv cfg F mt c" "b_offset b = int (i * dc_block_size cfg)" "length (b_buf b) = dc_block_size cfg"
    and "block_holds cfg (F p) i b"
  shows "cache_inv cfg F mt (c\<lparr>dc_cache := fmupd (p, i) b (dc_cache c)\<rparr>)"
proof -
  have "dc_coherent cfg q (F q) (mt q) (c\<lparr>dc_cache := fmupd (p, i) b (dc_cache c)\<rparr>)" for q
  proof (cases "q = p")
    case True
    with assms show ?thesis by (simp add: cache_inv_def dc_coherent_update [where c = c and i = i and b = b])
  next
    case False
    moreover have "dc_coherent cfg q (F q) (mt q) c" using assms(1) by (simp add: cache_inv_def)
    ultimately show ?thesis by (simp add: dc_coherent_def)
  qed
  then show ?thesis using assms(1) by (simp add: cache_inv_def)
qed

lemma start_step:
  assumes sf: "serves_files cfg ops I F" and I: "I s" and c: "cache_inv cfg F mt c"
    and th: "thread_inv cfg F mt c th" "dt_pos th = P_start"
  shows "step_ok cfg F mt I sh c (dc_step ep cfg clk ops sh P_start th c s)"
proof (cases "fmlookup (dc_mtimes c) (dt_path th)")
  case (Some m)
  then have "m = mt (dt_path th)" using c by (simp add: cache_inv_def)
  with Some th show ?thesis
    by (auto simp: I c thread_inv_def in_loop_def dt_admissible_def dt_local_def fslice_def)
next
  case None
  obtain rd where rd: "op_read ops = Some rd" "serves_file rd I (dt_path th) (F (dt_path th))"
    using sf by (auto simp: serves_files_def)
  have a: "dt_admissible F th" "dt_buf th = dt_buf0 th" using th by (simp_all add: thread_inv_def)
  obtain fi' s' where "rd (dt_path th) (dt_buf th) (dt_size th) (int (nat (dt_offset th))) (dt_fi th) s =
      Inr ((int (length (fslice (F (dt_path th)) (nat (dt_offset th)) (dt_size th))),
        fslice (F (dt_path th)) (nat (dt_offset th)) (dt_size th) @
          drop (length (fslice (F (dt_path th)) (nat (dt_offset th)) (dt_size th))) (dt_buf th), fi'), s')" "I s'"
    by (rule serves_fileD [OF rd(2) I, of "dt_size th" "dt_buf th" "nat (dt_offset th)" "dt_fi th"]) (use a in \<open>auto simp: dt_admissible_def\<close>)
  with None rd(1) a c show ?thesis
    by (auto simp: dt_admissible_def thread_inv_def in_loop_def dt_result_def Let_def)
qed

lemma loop_step:
  assumes sf: "serves_files cfg ops I F" and I: "I s" and c: "cache_inv cfg F mt c"
    and th: "thread_inv cfg F mt c th" "dt_pos th = P_loop"
  shows "step_ok cfg F mt I sh c (dc_step ep cfg clk ops sh P_loop th c s)"
proof (cases "dt_readed th = dt_size th")
  case True
  have "dt_result F (th\<lparr>dt_pos := P_done (int_of_size (dt_readed th))\<rparr>) (int_of_size (dt_readed th))"
    using th True by (auto simp: thread_inv_def in_loop_def dt_local_def dt_result_def dt_admissible_def int_of_size_exact Let_def)
  with True th c I show ?thesis by (auto simp: thread_inv_def in_loop_def dt_admissible_def)
next
  case False
  have "dt_seeker th = int (nat (dt_offset th) + dt_readed th)" "nat (dt_offset th) + dt_readed th \<le> length (F (dt_path th))"
    using th by (auto simp: thread_inv_def in_loop_def dt_local_def Let_def)
  moreover have "length (F (dt_path th)) < 2 ^ 63" "0 < dc_block_size cfg"
    using sf by (auto simp: serves_files_def intro: le_less_trans [OF le_add1])
  ultimately have "size_of_int (dt_seeker th) = nat (dt_offset th) + dt_readed th" "0 < dc_block_size cfg"
    using size_of_int_nat [of "nat (dt_offset th) + dt_readed th"] by simp_all
  with False th c I show ?thesis
    by (auto simp: thread_inv_def in_loop_def dt_admissible_def dt_local_def turn_key_def Let_def split: option.splits)
qed

lemma check_step:
  assumes sf: "serves_files cfg ops I F" and I: "I s" and c: "cache_inv cfg F mt c"
    and th: "thread_inv cfg F mt c th" "dt_pos th = P_check key"
  shows "step_ok cfg F mt I sh c (dc_step ep cfg clk ops sh (P_check key) th c s)"
proof -
  obtain b where b: "fmlookup (dc_cache c) key = Some b" using th by (auto simp: thread_inv_def)
  have t: "dt_admissible F th" "dt_local F th" "turn_key cfg th key" "dt_mtime th = mt (dt_path th)"
    using th by (auto simp: thread_inv_def in_loop_def)
  show ?thesis
  proof (cases "block_is_valid (dc_time_out cfg) (clk s) (dt_mtime th) b")
    case True
    then have "b_mtime b = mt (dt_path th)"
      using t(4) by (auto simp: block_is_valid_def split: if_splits intro: timespec.equality)
    then obtain th' where "copy_from key b th = Inr th'" "thread_inv cfg F mt c th'"
      using copy_correct [OF sf I c t b] by blast
    then show ?thesis using True b c I by (auto simp: the_block_def)
  next
    case False
    then show ?thesis
      using b c I t by (auto simp: the_block_def thread_inv_def in_loop_def dt_admissible_def dt_local_def turn_key_def)
  qed
qed

lemma copy_step:
  assumes sf: "serves_files cfg ops I F" and I: "I s" and c: "cache_inv cfg F mt c"
    and th: "thread_inv cfg F mt c th" "dt_pos th = P_copy key"
  shows "step_ok cfg F mt I sh c (dc_step ep cfg clk ops sh (P_copy key) th c s)"
proof -
  obtain b where b: "fmlookup (dc_cache c) key = Some b" "b_mtime b = mt (dt_path th)"
    using th by (auto simp: thread_inv_def turn_key_def)
  have t: "dt_admissible F th" "dt_local F th" "turn_key cfg th key" "dt_mtime th = mt (dt_path th)"
    using th by (auto simp: thread_inv_def in_loop_def)
  obtain th' where "copy_from key b th = Inr th'" "thread_inv cfg F mt c th'"
    using copy_correct [OF sf I c t b] by blast
  then show ?thesis using b c I by (auto simp: the_block_def)
qed

lemma refresh_step:
  assumes sf: "serves_files cfg ops I F" and I: "I s" and c: "cache_inv cfg F mt c"
    and th: "thread_inv cfg F mt c th" "dt_pos th = P_refresh key"
  shows "step_ok cfg F mt I sh c (dc_step ep cfg clk ops sh (P_refresh key) th c s)"
proof -
  let ?p = "dt_path th" and ?i = "(nat (dt_offset th) + dt_readed th) div dc_block_size cfg" and ?bs = "dc_block_size cfg"
  have t: "dt_admissible F th" "dt_local F th" "turn_key cfg th key" "dt_mtime th = mt ?p" "in_loop (P_copy key)"
    using th by (auto simp: thread_inv_def in_loop_def)
  then have key: "key = (?p, ?i)" by (simp add: turn_key_def)
  obtain b where b: "fmlookup (dc_cache c) key = Some b" using th by (auto simp: thread_inv_def)
  have b': "b_offset b = int (?i * ?bs)" "length (b_buf b) = ?bs"
    using c b key by (auto simp: cache_inv_def dc_coherent_def)
  obtain rd where rd: "op_read ops = Some rd" "serves_file rd I ?p (F ?p)" and bs: "length (F ?p) + ?bs < 2 ^ 63"
    using sf by (auto simp: serves_files_def)
  let ?d = "fslice (F ?p) (?i * ?bs) ?bs"
  obtain fi' s' where r: "rd ?p (b_buf b) ?bs (int (?i * ?bs)) (dt_fi th) s =
      Inr ((int (length ?d), ?d @ drop (length ?d) (b_buf b), fi'), s')" "I s'"
    by (rule serves_fileD [OF rd(2) I, of ?bs "b_buf b" "?i * ?bs" "dt_fi th"]) (use b' in auto)
  let ?b1 = "b\<lparr>b_buf := ?d @ drop (length ?d) (b_buf b), b_size := size_of_int (int (length ?d)), b_timestamp := clk s', b_mtime := mt ?p\<rparr>"
  have "size_of_int (int (length ?d)) = length ?d" by (rule size_of_int_nat) (use bs in simp)
  then have "block_holds cfg (F ?p) ?i ?b1" by (simp add: block_holds_def)
  then have c1: "cache_inv cfg F mt (c\<lparr>dc_cache := fmupd key ?b1 (dc_cache c)\<rparr>)"
    unfolding key by (intro cache_inv_upd [OF c]) (use b' in auto)
  have k: "keeps_blocks mt c (c\<lparr>dc_cache := fmupd key ?b1 (dc_cache c)\<rparr>)"
    by (auto simp: keeps_blocks_def key)
  have "thread_inv cfg F mt (c\<lparr>dc_cache := fmupd key ?b1 (dc_cache c)\<rparr>) (th\<lparr>dt_fi := fi', dt_pos := P_copy key\<rparr>)"
    using t key by (auto simp: thread_inv_def dt_admissible_def dt_local_def turn_key_def)
  moreover have "dc_step ep cfg clk ops sh (P_refresh key) th c s =
      Some (Inr (th\<lparr>dt_fi := fi', dt_pos := P_copy key\<rparr>, c\<lparr>dc_cache := fmupd key ?b1 (dc_cache c)\<rparr>, s'))"
    using r(1) rd(1) b b' t(4) by (simp add: the_block_def dc_refresh_block_def)
  ultimately show ?thesis using step_okI [where c = c and c' = "c\<lparr>dc_cache := fmupd key ?b1 (dc_cache c)\<rparr>"] c1 r(2) k by metis
qed

lemma block_place:
  assumes "n \<le> m" "m + k < 2 ^ 63"
  shows "off_of_size (n mod 2 ^ 64) = int n"
  using assms off_of_size_exact [of n] by simp

lemma fetch_step:
  assumes sf: "serves_files cfg ops I F" and I: "I s" and c: "cache_inv cfg F mt c"
    and th: "thread_inv cfg F mt c th" "dt_pos th = P_fetch key"
  shows "step_ok cfg F mt I sh c (dc_step ep cfg clk ops sh (P_fetch key) th c s)"
proof -
  let ?p = "dt_path th" and ?pos = "nat (dt_offset th) + dt_readed th" and ?bs = "dc_block_size cfg"
  let ?i = "?pos div ?bs"
  let ?d = "fslice (F ?p) (?i * ?bs) ?bs" and ?zero = "replicate ?bs (CHR 0x00)"
  have t: "dt_admissible F th" "dt_local F th" "turn_key cfg th key" "dt_mtime th = mt ?p"
    using th by (auto simp: thread_inv_def in_loop_def)
  then have key: "key = (?p, ?i)" by (simp add: turn_key_def)
  obtain rd where rd: "op_read ops = Some rd" "serves_file rd I ?p (F ?p)" and bs: "length (F ?p) + ?bs < 2 ^ 63" "0 < ?bs"
    using sf by (auto simp: serves_files_def)
  have le: "?i * ?bs \<le> ?pos" "?pos \<le> length (F ?p)" using t(2) by (simp_all add: dt_local_def Let_def)
  then have place: "off_of_size ((snd key * ?bs) mod 2 ^ 64) = int (?i * ?bs)"
    unfolding key snd_conv by (intro block_place [OF le_trans bs(1)])
  obtain fi' s' where r: "rd ?p ?zero ?bs (int (?i * ?bs)) (dt_fi th) s =
      Inr ((int (length ?d), ?d @ drop (length ?d) ?zero, fi'), s')" "I s'"
    by (rule serves_fileD [OF rd(2) I, of ?bs ?zero "?i * ?bs" "dt_fi th"]) simp
  let ?th = "\<lambda>p. th\<lparr>dt_fi := fi', dt_pos := p\<rparr>"
  have s: "dc_step ep cfg clk ops sh (P_fetch key) th c s =
      Some (Inr (?th (if length ?d = 0 then P_done (int_of_size (dt_readed th))
                      else P_insert key (?d @ replicate (?bs - length ?d) (CHR 0x00)) (int (length ?d))), c, s'))"
    using r(1) rd(1) place by (simp del: length_fslice)
  show ?thesis
  proof (cases "length ?d = 0")
    case True
    with bs(2) have "length (F ?p) \<le> ?i * ?bs" by simp
    with le have "?pos = length (F ?p)" by linarith
    then have "fslice (F ?p) (nat (dt_offset th)) (dt_size th) = fslice (F ?p) (nat (dt_offset th)) (dt_readed th)"
      "length (fslice (F ?p) (nat (dt_offset th)) (dt_readed th)) = dt_readed th"
      using t(2) by (auto simp: dt_local_def fslice_def Let_def)
    then have "dt_result F (?th (P_done (int_of_size (dt_readed th)))) (int_of_size (dt_readed th))"
      using t(1,2) by (auto simp: dt_result_def dt_local_def dt_admissible_def int_of_size_exact Let_def)
    then have "thread_inv cfg F mt c (?th (P_done (int_of_size (dt_readed th))))"
      using t(1) by (simp add: thread_inv_def in_loop_def dt_admissible_def)
    then show ?thesis unfolding s using True c r(2) by auto
  next
    case False
    have "thread_inv cfg F mt c (?th (P_insert key (?d @ replicate (?bs - length ?d) (CHR 0x00)) (int (length ?d))))"
      using t key by (simp add: thread_inv_def in_loop_def dt_admissible_def dt_local_def turn_key_def Let_def)
    then show ?thesis unfolding s using False c r(2) by auto
  qed
qed

lemma insert_step:
  assumes sf: "serves_files cfg ops I F" and I: "I s" and c: "cache_inv cfg F mt c"
    and th: "thread_inv cfg F mt c th" "dt_pos th = P_insert key new_buf n"
  shows "step_ok cfg F mt I sh c (dc_step ep cfg clk ops sh (P_insert key new_buf n) th c s)"
proof -
  let ?p = "dt_path th" and ?pos = "nat (dt_offset th) + dt_readed th" and ?bs = "dc_block_size cfg"
  let ?i = "?pos div ?bs"
  let ?d = "fslice (F ?p) (?i * ?bs) ?bs"
  have t: "dt_admissible F th" "dt_local F th" "turn_key cfg th key" "dt_mtime th = mt ?p"
    "n = int (length ?d)" "new_buf = ?d @ replicate (?bs - length ?d) (CHR 0x00)" and key: "key = (?p, ?i)"
    using th by (auto simp: thread_inv_def in_loop_def turn_key_def Let_def)
  have bs: "length (F ?p) + ?bs < 2 ^ 63" using sf by (simp add: serves_files_def)
  have le: "?i * ?bs \<le> ?pos" "?pos \<le> length (F ?p)" using t(2) by (simp_all add: dt_local_def Let_def)
  then have place: "off_of_size ((snd key * ?bs) mod 2 ^ 64) = int (?i * ?bs)"
    unfolding key snd_conv by (intro block_place [OF le_trans bs])
  let ?b = "block_new (clk s) new_buf (size_of_int n) (int (?i * ?bs)) (mt ?p)"
  have "size_of_int n = length ?d" unfolding t(5) by (rule size_of_int_nat) (use bs in simp)
  then have "block_holds cfg (F ?p) ?i ?b" using t(6) by (simp add: block_holds_def)
  then have "cache_inv cfg F mt (c\<lparr>dc_cache := fmupd key ?b (dc_cache c)\<rparr>)"
    unfolding key by (intro cache_inv_upd [OF c]) (use t(6) in auto)
  then show ?thesis
    using t(1,2,4) place c I by (auto simp: thread_inv_def in_loop_def dt_admissible_def dt_local_def split: option.splits)
qed

lemma thread_step_ok:
  assumes sf: "serves_files cfg ops I F" and I: "I s" and c: "cache_inv cfg F mt c" and th: "thread_inv cfg F mt c th"
  shows "step_ok cfg F mt I sh c (dc_step ep cfg clk ops sh (dt_pos th) th c s)"
proof -
  have move: "thread_inv cfg F mt c' (th\<lparr>dt_pos := p\<rparr>)" if "in_loop (dt_pos th)" "in_loop p" "pos_ok cfg F mt c' (th\<lparr>dt_pos := p\<rparr>) p"
    for p and c' :: "'p dcache"
    using th that by (auto simp: thread_inv_def dt_admissible_def dt_local_def)
  show ?thesis
  proof (cases "dt_pos th")
    case (P_evict key k)
    with th have "turn_key cfg th key" by (simp add: thread_inv_def)
    with P_evict show ?thesis
      by (auto simp: I cache_inv_remove [OF c] in_loop_def turn_key_def intro!: move)
  next
    case (P_pick key)
    with th have "turn_key cfg th key" by (simp add: thread_inv_def)
    with P_pick show ?thesis
      by (auto simp: I c in_loop_def turn_key_def split: prod.splits option.splits intro!: move)
  next
    case (P_room key)
    with th have "turn_key cfg th key" by (simp add: thread_inv_def)
    with P_room show ?thesis by (auto simp: I c in_loop_def turn_key_def intro!: move)
  next
    case (P_account key ins)
    then show ?thesis by (auto simp: I c in_loop_def intro!: move)
  next
    case (P_touch key)
    then show ?thesis by (auto simp: I c in_loop_def intro!: move)
  qed (use th start_step [OF sf I c th] loop_step [OF sf I c th] check_step [OF sf I c th] copy_step [OF sf I c th]
      refresh_step [OF sf I c th] fetch_step [OF sf I c th] insert_step [OF sf I c th] in \<open>simp_all add: thread_inv_def\<close>)
qed

definition dw_inv :: "dc_config \<Rightarrow> (path \<Rightarrow> bytes) \<Rightarrow> (path \<Rightarrow> timespec) \<Rightarrow> ('s \<Rightarrow> bool) \<Rightarrow> ('p, 's) dc_world \<Rightarrow> bool" where
  "dw_inv cfg F mt I w \<longleftrightarrow> I (dw_below w) \<and> cache_inv cfg F mt (dw_cache w) \<and>
     (\<forall>th \<in> set (dw_threads w). thread_inv cfg F mt (dw_cache w) th)"

lemma dw_move_ok:
  assumes sf: "serves_files cfg ops I F" and inv: "dw_inv cfg F mt I w" and i: "i < length (dw_threads w)"
    and m: "dw_move ep cfg clk ops i w = Some r"
  shows "\<exists>w'. r = Inr w' \<and> dw_inv cfg F mt I w'"
proof -
  let ?th = "dw_threads w ! i"
  have th: "thread_inv cfg F mt (dw_cache w) ?th" using inv i by (simp add: dw_inv_def)
  obtain x where x: "dc_step ep cfg clk ops (dw_shared w) (dt_pos ?th) ?th (dw_cache w) (dw_below w) = Some x"
    "r = rbind x (\<lambda>(th1, c1, s1). Inr (w\<lparr>dw_cache := c1, dw_below := s1, dw_threads := (dw_threads w)[i := th1]\<rparr>))"
    using m by (auto simp: dw_move_def Let_def)
  have I: "I (dw_below w)" and c: "cache_inv cfg F mt (dw_cache w)" using inv by (simp_all add: dw_inv_def)
  from thread_step_ok [OF sf I c th, of "dw_shared w" ep clk] x(1)
  obtain th' c' s' where st: "x = Inr (th', c', s')" "thread_inv cfg F mt c' th'" "cache_inv cfg F mt c'" "I s'"
    "dw_shared w \<longrightarrow> keeps_blocks mt (dw_cache w) c'"
    by (auto simp: step_ok_def)
  have "thread_inv cfg F mt c' u" if "u \<in> set (dw_threads w)" for u
  proof (rule thread_inv_stable)
    show "thread_inv cfg F mt (dw_cache w) u" using inv that by (simp add: dw_inv_def)
    show "keeps_blocks mt (dw_cache w) c'" if "holds_shared (dt_pos u)"
      using st(5) that \<open>u \<in> set (dw_threads w)\<close> by (auto simp: dw_shared_def list_ex_iff)
  qed
  then have "\<forall>u \<in> set ((dw_threads w)[i := th']). thread_inv cfg F mt c' u"
    using st(2) set_update_subset_insert by fastforce
  then show ?thesis using x(2) st by (simp add: dw_inv_def)
qed

lemma thread_inv_mtimes [simp]: "thread_inv cfg F mt (c\<lparr>dc_mtimes := m\<rparr>) th = thread_inv cfg F mt c th"
  by (cases "dt_pos th") (auto simp: thread_inv_def)

lemma cache_inv_mtimes:
  "cache_inv cfg F mt c \<Longrightarrow> (\<And>p t. fmlookup m p = Some t \<Longrightarrow> t = mt p) \<Longrightarrow> cache_inv cfg F mt (c\<lparr>dc_mtimes := m\<rparr>)"
  by (simp add: cache_inv_def dc_coherent_def)

lemma dw_reachable_inv:
  assumes sf: "serves_files cfg ops I F" and w0: "dw_inv cfg F mt I w0"
    and r: "dw_reachable ep cfg clk ops (dt_admissible F) (\<lambda>p m. m = mt p) (\<lambda>_. I) w0 w"
  shows "dw_inv cfg F mt I w"
  using r
proof (induction rule: dw_reachable.induct)
  case start
  show ?case by (rule w0)
next
  case (thread w i w')
  then show ?case using dw_move_ok [OF sf] by blast
next
  case (opened w path m)
  then have "cache_inv cfg F mt ((dw_cache w)\<lparr>dc_mtimes := fmupd path m (dc_mtimes (dw_cache w))\<rparr>)"
    by (intro cache_inv_mtimes) (auto simp: dw_inv_def cache_inv_def split: if_splits)
  with opened show ?case by (simp add: dw_inv_def)
next
  case (released w path)
  then have "cache_inv cfg F mt ((dw_cache w)\<lparr>dc_mtimes := fmdrop path (dc_mtimes (dw_cache w))\<rparr>)"
    by (intro cache_inv_mtimes) (auto simp: dw_inv_def cache_inv_def split: if_splits)
  with released show ?case by (simp add: dw_inv_def)
next
  case (below w s)
  then show ?case by (simp add: dw_inv_def)
next
  case (called w path buf sz offset fi)
  then show ?case by (auto simp: dw_inv_def thread_inv_def in_loop_def dc_call_def)
qed

section \<open>Accounting under concurrency\<close>

text \<open>
  Between \<^verbatim>\<open>try_emplace\<close> and the addition to the counter a thread owes the counter one block.
\<close>

fun owes :: "dc_pos \<Rightarrow> bool" where
  "owes (P_account key inserted) = inserted"
| "owes _ = False"

definition owed :: "('p, 's) dc_world \<Rightarrow> nat" where
  "owed w = length (filter (\<lambda>th. owes (dt_pos th)) (dw_threads w))"

definition balance :: "dc_config \<Rightarrow> 'p dcache \<Rightarrow> int" where
  "balance cfg c = int (dc_cache_size c) - int (dc_block_size cfg * map_size (dc_cache c))"

lemma length_filter_update:
  "i < length xs \<Longrightarrow>
   int (length (filter P (xs[i := x]))) = int (length (filter P xs)) + of_bool (P x) - of_bool (P (xs ! i))"
  by (subst (2) id_take_nth_drop [of i xs], assumption) (simp add: upd_conv_take_nth_drop)

lemma map_size_drop: "fmlookup m k \<noteq> None \<Longrightarrow> map_size m = Suc (map_size (fmdrop k m))"
  using card_Suc_Diff1 [of "fmdom' m" k] by (simp add: map_size_card fmdom'_notI fmdom'_notD flip: fmlookup_dom'_iff)

lemma map_size_upd: "map_size (fmupd k v m) = (if fmlookup m k = None then Suc (map_size m) else map_size m)"
  by (auto simp: map_size_card insert_absorb fmdom'_notI fmdom'I)

lemma balance_policy [simp]: "balance cfg (c\<lparr>dc_policy := p\<rparr>) = balance cfg c"
  by (simp add: balance_def)

lemma balance_upd [simp]:
  "fmlookup (dc_cache c) k = Some b \<Longrightarrow> balance cfg (c\<lparr>dc_cache := fmupd k v (dc_cache c)\<rparr>) = balance cfg c"
  by (simp add: balance_def map_size_upd)

lemma balance_remove: "balance cfg (dc_remove_block cfg key c) mod 2 ^ 64 = balance cfg c mod 2 ^ 64"
proof (cases "fmlookup (dc_cache c) key")
  case None
  then show ?thesis by (simp add: dc_remove_block_def)
next
  case (Some b)
  then have "map_size (dc_cache c) = Suc (map_size (fmdrop key (dc_cache c)))"
    by (intro map_size_drop) simp
  with Some show ?thesis
    by (simp add: dc_remove_block_def balance_def size_sub_def mod_diff_left_eq algebra_simps)
qed

lemma remove_block_size: "dc_cache_size c < 2 ^ 64 \<Longrightarrow> dc_cache_size (dc_remove_block cfg key c) < 2 ^ 64"
  by (auto simp: dc_remove_block_def size_sub_def nat_less_iff split: option.splits)

text \<open>The steps that neither insert a block, nor remove one, nor change the counter.\<close>

fun quiet_pos :: "dc_pos \<Rightarrow> bool" where
  "quiet_pos (P_drop key res) = False"
| "quiet_pos (P_evict key k) = False"
| "quiet_pos (P_insert key buf n) = False"
| "quiet_pos (P_account key ins) = False"
| "quiet_pos _ = True"

lemma quiet_pos_step:
  assumes "dc_step ep cfg clk ops sh p th c s = Some (Inr (th', c', s'))" "quiet_pos p"
  shows "balance cfg c' = balance cfg c \<and> dc_cache_size c' = dc_cache_size c \<and> \<not> owes (dt_pos th') \<and> \<not> owes p"
proof (cases p)
  case (P_check key)
  with assms show ?thesis
    by (auto simp: rbind_eq_Inr_conv the_block_def split: if_splits option.splits elim!: copy_from_cases)
next
  case (P_copy key)
  with assms show ?thesis
    by (auto simp: rbind_eq_Inr_conv the_block_def split: option.splits elim!: copy_from_cases)
qed (use assms in \<open>auto simp: rbind_eq_Inr_conv the_block_def Let_def split: if_splits option.splits prod.splits\<close>)

lemma dc_step_balance:
  assumes st: "dc_step ep cfg clk ops sh p th c s = Some (Inr (th', c', s'))" and lt: "dc_cache_size c < 2 ^ 64"
  shows "(balance cfg c' + int (dc_block_size cfg) * of_bool (owes (dt_pos th'))) mod 2 ^ 64 =
      (balance cfg c + int (dc_block_size cfg) * of_bool (owes p)) mod 2 ^ 64 \<and> dc_cache_size c' < 2 ^ 64"
proof (cases "quiet_pos p")
  case True
  with quiet_pos_step [OF st] lt show ?thesis by simp
next
  case False
  then show ?thesis
  proof (cases p)
    case (P_drop key res)
    with st have "c' = dc_remove_block cfg key c" "\<not> owes (dt_pos th')" by (auto split: if_splits)
    with P_drop show ?thesis using balance_remove [of cfg key c] remove_block_size [OF lt, of cfg key] by simp
  next
    case (P_evict key k)
    with st have "c' = dc_remove_block cfg k c" "\<not> owes (dt_pos th')" by (auto split: if_splits)
    with P_evict show ?thesis using balance_remove [of cfg k c] remove_block_size [OF lt, of cfg k] by simp
  next
    case (P_account key ins)
    with st lt show ?thesis by (auto simp: balance_def size_add_def zmod_int mod_diff_left_eq algebra_simps)
  next
    case (P_insert key buf n)
    with st lt show ?thesis by (auto simp: balance_def map_size_upd algebra_simps split: if_splits option.splits)
  qed simp_all
qed

definition dw_accounted :: "dc_config \<Rightarrow> ('p, 's) dc_world \<Rightarrow> bool" where
  "dw_accounted cfg w \<longleftrightarrow> (balance cfg (dw_cache w) + int (dc_block_size cfg) * int (owed w)) mod 2 ^ 64 = 0 \<and>
     dc_cache_size (dw_cache w) < 2 ^ 64"

lemma dw_move_accounted:
  assumes m: "dw_move ep cfg clk ops i w = Some (Inr w')" and i: "i < length (dw_threads w)" and acc: "dw_accounted cfg w"
  shows "dw_accounted cfg w'"
proof -
  let ?th = "dw_threads w ! i" and ?bs = "int (dc_block_size cfg)"
  obtain th' c' s' where st: "dc_step ep cfg clk ops (dw_shared w) (dt_pos ?th) ?th (dw_cache w) (dw_below w) = Some (Inr (th', c', s'))"
    "w' = w\<lparr>dw_cache := c', dw_below := s', dw_threads := (dw_threads w)[i := th']\<rparr>"
    using m by (auto simp: dw_move_def Let_def rbind_eq_Inr_conv)
  note b = dc_step_balance [OF st(1)]
  have "int (owed w') = of_bool (owes (dt_pos th')) + (int (owed w) - of_bool (owes (dt_pos ?th)))"
    using length_filter_update [OF i, of "\<lambda>th. owes (dt_pos th)" th'] unfolding st(2) owed_def by simp
  then have "?bs * int (owed w') = ?bs * of_bool (owes (dt_pos th')) + ?bs * (int (owed w) - of_bool (owes (dt_pos ?th)))"
    by (simp only: distrib_left)
  then have "(balance cfg c' + ?bs * int (owed w')) mod 2 ^ 64 =
      ((balance cfg c' + ?bs * of_bool (owes (dt_pos th'))) mod 2 ^ 64 + ?bs * (int (owed w) - of_bool (owes (dt_pos ?th)))) mod 2 ^ 64"
    by (simp add: mod_add_left_eq add.assoc)
  also have "\<dots> = ((balance cfg (dw_cache w) + ?bs * of_bool (owes (dt_pos ?th))) mod 2 ^ 64 +
      ?bs * (int (owed w) - of_bool (owes (dt_pos ?th)))) mod 2 ^ 64"
    using b acc by (simp add: dw_accounted_def)
  also have "\<dots> = (balance cfg (dw_cache w) + ?bs * int (owed w)) mod 2 ^ 64"
    by (simp add: mod_add_left_eq right_diff_distrib)
  finally show ?thesis using b acc st(2) by (simp add: dw_accounted_def)
qed

lemma dw_reachable_accounted:
  "dw_reachable ep cfg clk ops A M R w0 w \<Longrightarrow> dw_accounted cfg w0 \<Longrightarrow> dw_accounted cfg w"
proof (induction rule: dw_reachable.induct)
  case (thread w i w')
  then show ?case using dw_move_accounted by blast
qed (simp_all add: dw_accounted_def balance_def owed_def dc_call_def)

lemma dw_accounted_size:
  assumes "dw_accounted cfg w"
  shows "dc_cache_size (dw_cache w) = size_sub (dc_block_size cfg * map_size (dc_cache (dw_cache w))) (dc_block_size cfg * owed w)"
proof -
  let ?x = "int (dc_block_size cfg * map_size (dc_cache (dw_cache w))) - int (dc_block_size cfg * owed w)"
  have "(int (dc_cache_size (dw_cache w)) - ?x) mod 2 ^ 64 = 0"
    using assms by (simp add: dw_accounted_def balance_def algebra_simps)
  then have "int (dc_cache_size (dw_cache w)) mod 2 ^ 64 = ?x mod 2 ^ 64"
    by (simp add: mod_eq_dvd_iff dvd_eq_mod_eq_0)
  then show ?thesis using assms by (simp add: dw_accounted_def size_sub_def)
qed

section \<open>Progress\<close>

text \<open>A thread waits only for \<^verbatim>\<open>cache_mtx_\<close>, and those that hold it shared do not wait.\<close>

lemma dc_step_waits:
  "dc_step ep cfg clk ops sh p th c s = None \<Longrightarrow> \<not> (\<exists>res. p = P_done res) \<Longrightarrow> sh \<and> \<not> holds_shared p"
  by (cases p) (auto simp: Let_def split: option.splits if_splits prod.splits)

lemma dw_someone_moves:
  assumes th: "th \<in> set (dw_threads w)" "\<not> (\<exists>res. dt_pos th = P_done res)"
  shows "\<exists>i < length (dw_threads w). dw_move ep cfg clk ops i w \<noteq> None"
proof -
  let ?step = "\<lambda>u. dc_step ep cfg clk ops (dw_shared w) (dt_pos u) u (dw_cache w) (dw_below w)"
  have "\<exists>u \<in> set (dw_threads w). ?step u \<noteq> None"
  proof (cases "?step th")
    case None
    then have "dw_shared w" using dc_step_waits [OF None] th(2) by simp
    then obtain u where u: "u \<in> set (dw_threads w)" "holds_shared (dt_pos u)"
      by (auto simp: dw_shared_def list_ex_iff)
    moreover from u(2) have "\<not> (\<exists>res. dt_pos u = P_done res)" by auto
    ultimately have "?step u \<noteq> None" using dc_step_waits [of ep cfg clk ops "dw_shared w" "dt_pos u"] by blast
    with u(1) show ?thesis ..
  qed (use th in auto)
  then obtain i where "i < length (dw_threads w)" "?step (dw_threads w ! i) \<noteq> None" by (auto simp: in_set_conv_nth)
  then show ?thesis by (intro exI [of _ i]) (simp add: dw_move_def Let_def)
qed

section \<open>Schedules\<close>

text \<open>The moves of the threads in the order of a schedule, each of which must be possible.\<close>

fun dw_run :: "(dc_key, 'p) cache_manager \<Rightarrow> dc_config \<Rightarrow> ('s \<Rightarrow> int) \<Rightarrow> ('s, 'd) fuse_operations \<Rightarrow> nat list
    \<Rightarrow> ('p, 's) dc_world \<Rightarrow> ('p, 's) dc_world option" where
  "dw_run ep cfg clk ops [] w = Some w"
| "dw_run ep cfg clk ops (i # is) w =
     (if i < length (dw_threads w)
      then (case dw_move ep cfg clk ops i w of Some (Inr w') \<Rightarrow> dw_run ep cfg clk ops is w' | _ \<Rightarrow> None)
      else None)"

lemma dw_run_reachable:
  "dw_reachable ep cfg clk ops A M R w0 w \<Longrightarrow> dw_run ep cfg clk ops is w = Some w' \<Longrightarrow>
   dw_reachable ep cfg clk ops A M R w0 w'"
  by (induction "is" arbitrary: w) (auto split: if_splits option.splits sum.splits intro: dw_reachable.thread)

definition dw_start :: "'p dcache \<Rightarrow> 's \<Rightarrow> ('p, 's) dc_world" where
  "dw_start c s = \<lparr>dw_cache = c, dw_below = s, dw_threads = []\<rparr>"

lemmas dw_eval = dw_move_def dw_shared_def dc_call_def dw_start_def dc_new_def copy_from_def the_block_def block_is_valid_def
  elapsed_seconds_def dc_refresh_block_def mem_copy_def size_of_int_def int_of_size_def off_of_size_def off_plus_def size_add_def
  size_sub_def lru_eviction_def lru_touch_def lru_empty_def const_read_def fslice_def Let_def

text \<open>Two reads of \<^verbatim>\<open>/f\<close>, which holds \<^verbatim>\<open>abcd\<close>, and a layer below that fails with \<^verbatim>\<open>EIO\<close> while it is down.\<close>

definition two_cached_reads :: "(dc_key lru_cache_manager, unit) dc_world" where
  "two_cached_reads = \<lparr>dw_cache = (dc_new lru_empty)\<lparr>dc_mtimes := fmupd ''/f'' zero_timespec fmempty\<rparr>, dw_below = (),
     dw_threads = [dc_call ''/f'' ''....'' 3 2 None, dc_call ''/f'' ''..'' 2 0 None]\<rparr>"

definition flaky_read :: "bytes \<Rightarrow> bool read_op" where
  "flaky_read F path buf n off fi up = (if up then const_read F path buf n off fi up else Inr ((-5, buf, fi), up))"

lemma two_cached_reads_reachable:
  assumes "A (dc_call ''/f'' ''....'' 3 2 None)" "A (dc_call ''/f'' ''..'' 2 0 None)" "M ''/f'' zero_timespec"
  shows "dw_reachable ep cfg clk ops A M R (dw_start (dc_new lru_empty) ()) two_cached_reads"
proof -
  let ?w0 = "dw_start (dc_new lru_empty) () :: (dc_key lru_cache_manager, unit) dc_world"
  let ?w1 = "?w0\<lparr>dw_cache := (dw_cache ?w0)\<lparr>dc_mtimes := fmupd ''/f'' zero_timespec (dc_mtimes (dw_cache ?w0))\<rparr>\<rparr>"
  let ?w2 = "?w1\<lparr>dw_threads := dw_threads ?w1 @ [dc_call ''/f'' ''....'' 3 2 None]\<rparr>"
  have "dw_reachable ep cfg clk ops A M R ?w0
      (?w2\<lparr>dw_threads := dw_threads ?w2 @ [dc_call ''/f'' ''..'' 2 0 None]\<rparr>)"
    by (intro dw_reachable.called dw_reachable.opened dw_reachable.start assms)
  then show ?thesis by (simp add: two_cached_reads_def dw_start_def dc_new_def)
qed

section \<open>Properties\<close>

text \<open>
  C6. Concurrent reads that start within the file, or at its end, are transparent. Let the layers below serve fixed files, let the opens
  record the modification times the cached blocks were read under, and let every read start at an offset from 0 up to the
  length of its file, with a buffer of at least its size. Then in every interleaving of any number of reads, opens and
  releases, on any policy: no read is undefined; one that returned gave the bytes, the count and the untouched rest of the
  buffer of a direct read; and while a read has not returned, some thread can move. The condition on the offset is needed: one
  read past the end, inside the last block, copies from outside the block.
\<close>

theorem concurrent_reads_transparent:
  assumes "serves_files cfg ops I F" "I s" "cache_inv cfg F mt c"
    and "dw_reachable ep cfg clk ops
       (\<lambda>th. 0 \<le> dt_offset th \<and> nat (dt_offset th) \<le> length (F (dt_path th)) \<and>
          dt_size th \<le> length (dt_buf0 th) \<and> dt_size th < 2 ^ 31)
       (\<lambda>p m. m = mt p) (\<lambda>_. I) (dw_start c s) w"
  shows "(\<forall>i < length (dw_threads w). \<forall>e. dw_move ep cfg clk ops i w \<noteq> Some (Inl e)) \<and>
    (\<forall>th \<in> set (dw_threads w). \<forall>res. dt_pos th = P_done res \<longrightarrow>
       (let d = fslice (F (dt_path th)) (nat (dt_offset th)) (dt_size th)
        in res = int (length d) \<and> dt_buf th = d @ drop (length d) (dt_buf0 th))) \<and>
    ((\<exists>th \<in> set (dw_threads w). \<forall>res. dt_pos th \<noteq> P_done res) \<longrightarrow>
       (\<exists>i < length (dw_threads w). \<exists>w'. dw_move ep cfg clk ops i w = Some (Inr w')))"
proof -
  have "dw_inv cfg F mt I (dw_start c s)" using assms(2,3) by (simp add: dw_inv_def dw_start_def)
  note inv = dw_reachable_inv [OF assms(1) this assms(4) [folded dt_admissible_eta]]
  note ok = dw_move_ok [OF assms(1) inv, where ep = ep and clk = clk]
  have "dw_move ep cfg clk ops i w \<noteq> Some (Inl e)" if "i < length (dw_threads w)" for i e
    using ok [OF that] by auto
  moreover have "dt_result F th res" if "th \<in> set (dw_threads w)" "dt_pos th = P_done res" for th res
    using inv that by (auto simp: dw_inv_def thread_inv_def)
  moreover have "\<exists>i < length (dw_threads w). \<exists>w'. dw_move ep cfg clk ops i w = Some (Inr w')"
    if "th \<in> set (dw_threads w)" "\<forall>res. dt_pos th \<noteq> P_done res" for th
    using dw_someone_moves [OF that(1), of ep cfg clk ops] that(2) ok by (metis not_None_eq)
  ultimately show ?thesis by (auto simp: dt_result_def)
qed

theorem concurrent_reads_transparent_witness:
  "\<exists>w. dw_run lru_eviction \<lparr>dc_size = 8, dc_block_size = 4, dc_time_out = 30\<rparr> (\<lambda>_. 0)
       ((null_operations :: (unit, unit) fuse_operations)\<lparr>op_read := Some (const_read ''abcd'')\<rparr>)
       [0, 1, 0, 1, 0, 1, 0, 1, 0, 1, 0, 1, 0, 1, 0, 1, 0, 1, 0, 1, 0, 1, 0, 0] two_cached_reads = Some w \<and>
     map dt_pos (dw_threads w) = [P_done 2, P_done 2] \<and> map dt_buf (dw_threads w) = [''cd..'', ''ab'']"
proof -
  let ?cfg = "\<lparr>dc_size = 8, dc_block_size = 4, dc_time_out = 30\<rparr>"
  let ?ops = "(null_operations :: (unit, unit) fuse_operations)\<lparr>op_read := Some (const_read ''abcd'')\<rparr>"
  let ?run = "dw_run lru_eviction ?cfg (\<lambda>_. 0) ?ops [0, 1, 0, 1, 0, 1, 0, 1, 0, 1, 0, 1, 0, 1, 0, 1, 0, 1, 0, 1, 0, 1, 0, 0] two_cached_reads"
  obtain w where w: "?run = Some w" "map dt_pos (dw_threads w) = [P_done 2, P_done 2]"
    "map (\<lambda>th. (dt_path th, dt_size th, dt_offset th, dt_buf0 th)) (dw_threads w) = [(''/f'', 3, 2, ''....''), (''/f'', 2, 0, ''..'')]"
    by (simp add: two_cached_reads_def dw_eval)
  have "serves_files ?cfg ?ops (\<lambda>_. True) (\<lambda>_. ''abcd'')" by (simp add: serves_files_def const_read_serves)
  moreover have "cache_inv ?cfg (\<lambda>_. ''abcd'') (\<lambda>_. zero_timespec) (dc_new lru_empty)"
    by (simp add: cache_inv_def dc_coherent_def dc_new_def)
  moreover have "dw_reachable lru_eviction ?cfg (\<lambda>_. 0) ?ops
      (\<lambda>th. 0 \<le> dt_offset th \<and> nat (dt_offset th) \<le> length ''abcd'' \<and> dt_size th \<le> length (dt_buf0 th) \<and> dt_size th < 2 ^ 31) (\<lambda>p m. m = zero_timespec) (\<lambda>_ _. True)
      (dw_start (dc_new lru_empty) ()) w"
    by (rule dw_run_reachable [OF two_cached_reads_reachable w(1)]) (simp_all add: dc_call_def)
  ultimately have "\<forall>th \<in> set (dw_threads w). \<forall>res. dt_pos th = P_done res \<longrightarrow>
       (let d = fslice ''abcd'' (nat (dt_offset th)) (dt_size th)
        in res = int (length d) \<and> dt_buf th = d @ drop (length d) (dt_buf0 th))"
    using concurrent_reads_transparent [of ?cfg ?ops "\<lambda>_. True" "\<lambda>_. ''abcd''" "()" "\<lambda>_. zero_timespec" "dc_new lru_empty"
      lru_eviction "\<lambda>_. 0" w] by blast
  with w show ?thesis by (auto simp: fslice_def map_eq_Cons_conv)
qed

text \<open>
  A read of 4 bytes at offset 2 of a file of one byte, which the theorem excludes, ends outside the block.
\<close>

theorem read_past_end_undefined:
  "\<exists>w. dw_run lru_eviction \<lparr>dc_size = 8, dc_block_size = 4, dc_time_out = 30\<rparr> (\<lambda>_. 0)
       ((null_operations :: (unit, unit) fuse_operations)\<lparr>op_read := Some (const_read ''x'')\<rparr>) [0, 0, 0, 0, 0, 0, 0, 0]
       \<lparr>dw_cache = (dc_new lru_empty)\<lparr>dc_mtimes := fmupd ''/f'' zero_timespec fmempty\<rparr>, dw_below = (),
        dw_threads = [dc_call ''/f'' ''....'' 4 2 None]\<rparr> = Some w \<and>
     dw_move lru_eviction \<lparr>dc_size = 8, dc_block_size = 4, dc_time_out = 30\<rparr> (\<lambda>_. 0)
       ((null_operations :: (unit, unit) fuse_operations)\<lparr>op_read := Some (const_read ''x'')\<rparr>) 0 w = Some (Inl Out_of_bounds)"
  by (simp add: dw_eval)

text \<open>
  C13. The byte counter counts in every interleaving: whatever the policy, the lower layer and its failures do, the
  counter is the block size times the number of cached blocks, less one block for each thread that has inserted its block
  and not yet added it, in the arithmetic of \<^verbatim>\<open>size_t\<close>.
\<close>

theorem concurrent_accounting:
  assumes "dw_reachable ep cfg clk ops A M R (dw_start (dc_new p) s) w"
  shows "dc_cache_size (dw_cache w) =
    size_sub (dc_block_size cfg * map_size (dc_cache (dw_cache w)))
      (dc_block_size cfg * length (filter (\<lambda>th. \<exists>key. dt_pos th = P_account key True) (dw_threads w)))"
proof -
  have "dw_accounted cfg (dw_start (dc_new p) s)"
    by (simp add: dw_accounted_def dw_start_def dc_new_def balance_def owed_def)
  from dw_accounted_size [OF dw_reachable_accounted [OF assms this]]
  have "dc_cache_size (dw_cache w) = size_sub (dc_block_size cfg * map_size (dc_cache (dw_cache w))) (dc_block_size cfg * owed w)" .
  moreover have "owes p' \<longleftrightarrow> (\<exists>key. p' = P_account key True)" for p' by (cases p') auto
  ultimately show ?thesis by (simp add: owed_def)
qed

theorem concurrent_accounting_witness:
  "\<exists>w. dw_run lru_eviction \<lparr>dc_size = 8, dc_block_size = 4, dc_time_out = 30\<rparr> (\<lambda>_. 0)
       ((null_operations :: (unit, unit) fuse_operations)\<lparr>op_read := Some (const_read ''abcd'')\<rparr>)
       [0, 1, 0, 1, 0, 1, 0, 1, 0, 1] two_cached_reads = Some w \<and>
     map dt_pos (dw_threads w) = [P_account (''/f'', 0) True, P_account (''/f'', 0) False] \<and>
     map_size (dc_cache (dw_cache w)) = 1 \<and> dc_cache_size (dw_cache w) = 0"
proof -
  let ?cfg = "\<lparr>dc_size = 8, dc_block_size = 4, dc_time_out = 30\<rparr>"
  let ?ops = "(null_operations :: (unit, unit) fuse_operations)\<lparr>op_read := Some (const_read ''abcd'')\<rparr>"
  obtain w where w: "dw_run lru_eviction ?cfg (\<lambda>_. 0) ?ops [0, 1, 0, 1, 0, 1, 0, 1, 0, 1] two_cached_reads = Some w"
    "map dt_pos (dw_threads w) = [P_account (''/f'', 0) True, P_account (''/f'', 0) False]"
    "map_size (dc_cache (dw_cache w)) = 1"
    by (simp add: two_cached_reads_def dw_eval map_size_upd)
  have "dw_reachable lru_eviction ?cfg (\<lambda>_. 0) ?ops (\<lambda>_. True) (\<lambda>_ _. True) (\<lambda>_ _. True) (dw_start (dc_new lru_empty) ()) w"
    by (rule dw_run_reachable [OF two_cached_reads_reachable w(1)]) simp_all
  from concurrent_accounting [OF this] w show ?thesis by (auto simp: map_eq_Cons_conv size_sub_def)
qed

text \<open>
  C18. A refresh that fails is visible to the other threads. The size, the time stamp and the modification time of the
  block are assigned before the result is tested, and the block goes only after its lock is released. A thread that comes
  in between finds a valid block whose size is the error code read as a \<^verbatim>\<open>size_t\<close>: here the file has changed, every
  read of the layer below fails with \<^verbatim>\<open>EIO\<close>, and yet one read returns the old bytes as the contents under the new
  modification time, while the other copies from outside the block.
\<close>

theorem failed_refresh_is_visible:
  "\<exists>w. dw_reachable lru_eviction \<lparr>dc_size = 8, dc_block_size = 4, dc_time_out = 0\<rparr> (\<lambda>_. 0)
       ((null_operations :: (bool, unit) fuse_operations)\<lparr>op_read := Some (flaky_read ''old!'')\<rparr>)
       (dt_admissible (\<lambda>_. ''old!'')) (\<lambda>_ _. True) (\<lambda>_ _. True) (dw_start (dc_new lru_empty) True) w \<and>
     \<not> dw_below w \<and>
     map dt_pos (dw_threads w) = [P_done 4, P_unshare (''/f'', 0) (-5), P_done 4, P_check (''/f'', 0)] \<and>
     dt_buf (dw_threads w ! 2) = ''old!'' \<and> dt_mtime (dw_threads w ! 2) = \<lparr>tv_sec = 1, tv_nsec = 0\<rparr> \<and>
     dw_move lru_eviction \<lparr>dc_size = 8, dc_block_size = 4, dc_time_out = 0\<rparr> (\<lambda>_. 0)
       ((null_operations :: (bool, unit) fuse_operations)\<lparr>op_read := Some (flaky_read ''old!'')\<rparr>) 3 w = Some (Inl Out_of_bounds)"
proof -
  let ?cfg = "\<lparr>dc_size = 8, dc_block_size = 4, dc_time_out = 0\<rparr>"
  let ?ops = "(null_operations :: (bool, unit) fuse_operations)\<lparr>op_read := Some (flaky_read ''old!'')\<rparr>"
  let ?reach = "dw_reachable lru_eviction ?cfg (\<lambda>_. 0) ?ops (dt_admissible (\<lambda>_. ''old!'')) (\<lambda>_ _. True) (\<lambda>_ _. True)
     (dw_start (dc_new lru_empty) True)"
  let ?run = "dw_run lru_eviction ?cfg (\<lambda>_. 0) ?ops"
  let ?opened = "\<lambda>t w. w\<lparr>dw_cache := (dw_cache w)\<lparr>dc_mtimes := fmupd ''/f'' \<lparr>tv_sec = t, tv_nsec = 0\<rparr> (dc_mtimes (dw_cache w))\<rparr>\<rparr>"
  let ?called = "\<lambda>buf sz w. w\<lparr>dw_threads := dw_threads w @ [dc_call ''/f'' buf sz 0 None]\<rparr>"
  let ?w1 = "?called ''....'' 4 (?opened 0 (dw_start (dc_new lru_empty) True))"
  have called: "?reach (?called buf sz w)" if "?reach w" "sz \<le> length buf" "sz < 9" for buf sz and w :: "(dc_key lru_cache_manager, bool) dc_world"
    using that by (intro dw_reachable.called) (auto simp: dt_admissible_def dc_call_def)
  have w1: "?reach ?w1" by (intro called dw_reachable.opened dw_reachable.start) simp_all
  obtain w2 where w2: "?run [0, 0, 0, 0, 0, 0, 0, 0, 0, 0, 0] ?w1 = Some w2"
    and w3: "\<exists>w3. ?run [1, 1, 1, 1, 2, 2, 2, 2, 2, 3, 3] (?called ''........'' 8 (?called ''....'' 4 (?called ''....'' 4 (?opened 1 w2)))\<lparr>dw_below := False\<rparr>) = Some w3 \<and>
       \<not> dw_below w3 \<and>
       map dt_pos (dw_threads w3) = [P_done 4, P_unshare (''/f'', 0) (-5), P_done 4, P_check (''/f'', 0)] \<and>
       dt_buf (dw_threads w3 ! 2) = ''old!'' \<and> dt_mtime (dw_threads w3 ! 2) = \<lparr>tv_sec = 1, tv_nsec = 0\<rparr> \<and>
       dw_move lru_eviction ?cfg (\<lambda>_. 0) ?ops 3 w3 = Some (Inl Out_of_bounds)"
    by (simp add: dw_eval flaky_read_def)
  have "?reach w2" by (rule dw_run_reachable [OF w1 w2])
  then have r3: "?reach (?called ''........'' 8 (?called ''....'' 4 (?called ''....'' 4 (?opened 1 w2)))\<lparr>dw_below := False\<rparr>)"
    by (intro dw_reachable.below called dw_reachable.opened) simp_all
  show ?thesis
    by (rule ex_forward [OF w3], elim conjE, intro conjI, rule dw_run_reachable [OF r3], assumption+)
qed

end
