(* ===== verification/Spec2Isabelle.thy ===== *)
theory Spec2Isabelle
  imports Metadata_Cache Data_Cache Read_Ahead Remote Async_Lifecycle Server_Lifecycle Table_Types Startup
    Stream_Threads Data_Cache_Threads
begin

text \<open>
  Verification of RSafeFS, a FUSE file system that is put together from stackable layers and exports
  a directory over gRPC.

  \<^bold>\<open>The program.\<close> A process reads a YAML file that lists layers, builds one table of FUSE operations
  from them and runs it either under FUSE (a client) or behind a gRPC server (a server). The bottom
  of a stack is the local layer, which calls the kernel, or the RPC client layer, which calls a
  server; caching layers for data, attributes and read-ahead go on top. A client's operation
  thus passes the client's layers, the client class, the network, a call object of the server,
  the server's table, and the local layer of the server.

  \<^bold>\<open>Theories, from the bottom\<close> (paths are below \<^verbatim>\<open>src/\<close>).
  \<^item> \<^verbatim>\<open>Prelude\<close>: undefined behaviour as a value (\<open>ub\<close>) and the error monad it lives in, \<^verbatim>\<open>size_t\<close> and
    \<^verbatim>\<open>off_t\<close> arithmetic with wrap-around, \<^verbatim>\<open>memcpy\<close>, finite maps, \<^verbatim>\<open>std::filesystem::path\<close>.
    \<^verbatim>\<open>Fuse_Types\<close>: the C structures of the FUSE interface and the table \<open>fuse_operations\<close>; a null function
    pointer is \<open>None\<close>, a pointer argument the callee may write is passed and handed back.
  \<^item> \<^verbatim>\<open>Cache_Manager\<close> (\<^verbatim>\<open>include/rsafefs/common/cache\<close>): the two replacement managers; the locale
    \<open>eviction_policy\<close> is what the caches rely on. The LRU manager refines a recency list; the random one
    evicts tracked keys only.
  \<^item> \<^verbatim>\<open>Metadata_Cache\<close>, \<^verbatim>\<open>Data_Cache\<close>, \<^verbatim>\<open>Read_Ahead\<close> (\<^verbatim>\<open>lib/layers/*/cache.cpp\<close>, \<^verbatim>\<open>read_ahead_cache.cpp\<close>): the cache
    classes. Bounds under every interleaving, exact time-outs, transparency of cached reads, and the two
    inputs on which they leave their arrays. \<^verbatim>\<open>Data_Cache_Threads\<close>: reads of the data cache by many threads, one critical section
    at a time; transparency of the reads that do not start past the end and accounting in every interleaving, and the window after a
    failed refresh.
    \<^verbatim>\<open>Caching_Layers\<close> (\<^verbatim>\<open>metadata_cache.cpp\<close>, \<^verbatim>\<open>data_cache.cpp\<close>,
    \<^verbatim>\<open>read_ahead.cpp\<close>, \<^verbatim>\<open>utils.hpp\<close>): the static functions of the layers around them, their stacking, and which
    cached attributes are those of the layer below, as an invariant of interleaved runs with the ways past the layer.
  \<^item> \<^verbatim>\<open>Struct_Fillers\<close>, \<^verbatim>\<open>Proto_Messages\<close> (\<^verbatim>\<open>structs_fillers.hpp\<close>, \<^verbatim>\<open>protos/fuse_operations.proto\<close>): the messages and
    the conversions, with the locale \<open>codec\<close> for their round trips and where 32-bit fields break them.
  \<^item> \<^verbatim>\<open>Rpc_Server\<close> (\<^verbatim>\<open>fuse_rpc/grpc/server.cpp\<close>): one \<open>_process\<close> function per procedure, call objects as a pool
    under any order of completions, the streams as state machines, and start-up; the locale
    \<open>bidi_call\<close> reduces streams to sequences of single calls. \<^verbatim>\<open>Call_Objects\<close> (\<^verbatim>\<open>grpc/server.hpp\<close>): the classes of call
    objects, their constructors and the virtual \<^verbatim>\<open>proceed\<close>. \<^verbatim>\<open>Server_Lifecycle\<close>: all objects on all queues from
    \<^verbatim>\<open>run\<close> to the destructor; listeners are never missing, execution is sequential, shutdown is not safe.
  \<^item> \<^verbatim>\<open>Sync_Client\<close> (\<^verbatim>\<open>sync_client.cpp\<close>), \<^verbatim>\<open>Remote\<close>: the client's operations over an arbitrary stub, and
    client and server together. The locale \<open>remote_service\<close> states what the client needs of the stub; it is
    interpreted on \<open>loopback\<close>, a network that delivers to the server's own definitions. Every remote operation
    has the result and effect of the server's table. \<^verbatim>\<open>Stream_Threads\<close>: threads that share the stream of a path and hand its
    two mutexes over; linearizable writes and reads over the locale \<open>stream_service\<close>, no deadlock, and the two ways in which removing
    a stream leaves a dangling reference. It follows one path and one of the two maps of streams, which never share a lock.
  \<^item> \<^verbatim>\<open>Channel\<close>, \<^verbatim>\<open>Async_Client\<close> (\<^verbatim>\<open>channel.hpp\<close>, \<^verbatim>\<open>async_client.cpp\<close>): writers, scheduler and completion
    threads as a step relation with an invariant; order, bounds, at most one call, progress.
    \<^verbatim>\<open>Async_Lifecycle\<close>: \<^verbatim>\<open>flush\<close>, \<^verbatim>\<open>fsync\<close>, the timer, the completion threads and the destructor around it, with the
    server executing the stream at the other end; flushing is a barrier, the destructor returns and
    loses nothing, and a failed stream goes unreported.
    \<^verbatim>\<open>Rpc_Client_Layer\<close> (\<^verbatim>\<open>rpc_client.cpp\<close>): the layer that forwards to the client object.
  \<^item> \<^verbatim>\<open>Posix\<close>, \<^verbatim>\<open>Local_Ops\<close>, \<^verbatim>\<open>Nfs_Ops\<close> (\<^verbatim>\<open>lib/layers/local\<close>): system calls as a parameter, the two modes of the
    local layer on it. Directory reading ends and loses nothing; in \<^verbatim>\<open>nfs\<close> mode an answer means stable
    storage; the modes agree where they should. \<^verbatim>\<open>Table_Types\<close>: which pointers the tables fill and which the
    procedures call.
  \<^item> \<^verbatim>\<open>Config\<close> (\<^verbatim>\<open>config.cpp\<close>, \<^verbatim>\<open>local.cpp\<close>, \<^verbatim>\<open>server.cpp\<close>, \<^verbatim>\<open>client.cpp\<close> and the constructors of the layer
    configurations): from the YAML document to the composed table and the role the program runs in.
    \<^verbatim>\<open>Startup\<close> (\<^verbatim>\<open>src/rsafefs.cpp\<close>): the command line, \<^verbatim>\<open>main\<close> with its exit status, the destructors of the configuration.
  \<^item> This theory: a client on a server in \<^verbatim>\<open>nfs\<close> mode, through all the layers in between.

  \<^bold>\<open>State and effects.\<close> Every operation is a function from a state to a result and a new state, or to the
  undefined behaviour it runs into (null or dangling pointers, out-of-range copies, end iterators,
  failed assertions, a loop that never leaves). Threads appear as step relations
  (\<open>mc_step\<close>, \<open>unary_reachable\<close>, \<open>server_reachable\<close>, \<open>ac_internal\<close>, \<open>aw_progress\<close>, \<open>md_run\<close>, \<open>sw_step\<close>, \<open>dw_reachable\<close>) at the granularity of critical sections.
  Exceptions of the start-up code are values of \<open>exn\<close>.

  \<^bold>\<open>Loops.\<close> No fuel is used. Loops over data are structural; the read loop of the data cache terminates by a
  measure on the missing bytes and blocks; the directory loop is a partial function whose
  divergence is the value \<open>Diverges\<close>, and its return is proved for every stream that runs out of entries.

  \<^bold>\<open>Parameters.\<close> The kernel (\<open>posix\<close>), the YAML library (\<open>yaml\<close>), CLI11 (\<open>cli_parser\<close>), the gRPC stub (\<open>stub\<close>), the clock and the
  random generator are arguments of the definitions; what a property needs of them is a named hypothesis
  (\<open>kernel_reports\<close>, \<open>cli_contract\<close>, \<open>dir_stream\<close>, \<open>serves_file\<close>, ...), and each such property has a concrete run.
  The interpreted configuration is x86-64 Linux.

  \<^bold>\<open>gRPC.\<close> Its threads and failures appear as what it promises: a call or a stream answers or does not; a
  stream's status is OK only after the server has read it to its end; a completion concerns an object with an
  outstanding operation; a registration pending at shutdown completes with \<^verbatim>\<open>ok == false\<close>; a queue that has
  been shut down takes no new work. A \<^verbatim>\<open>proceed\<close> is one step: two pollers that run operations at the same time
  interleave only inside the kernel.

  \<^bold>\<open>Not modelled.\<close> Logging, with the level that debug mode sets; what \<^verbatim>\<open>fuse_main\<close> does with the table; the
  code under \<^verbatim>\<open>HAVE_UTIMENSAT\<close> and \<^verbatim>\<open>HAVE_SETXATTR\<close>, which no build defines.
\<close>

section \<open>A client on a server in nfs mode\<close>

text \<open>The table of a server whose stack is the local layer in \<^verbatim>\<open>nfs\<close> mode, and the client's methods on a connection to it.\<close>

definition nfs_server :: "'o posix \<Rightarrow> ('o local_state, dir_info) fuse_operations" where
  "nfs_server px = set_nfs_operations px null_operations"

definition nfs_client :: "'o posix \<Rightarrow> (('o local_state loopback_net, nat) client_state, dir_info) client_methods" where
  "nfs_client px = sync_client_methods (loopback (nfs_server px))"

abbreviation connected :: "('s loopback_net, nat) client_state \<Rightarrow> bool" where
  "connected cs \<equiv> usable lb_good lb_ropen lb_wopen cs"

lemma via_client_mirrors:
  assumes "mirrors connected lb_srv f (call g)" "f (lb_srv (snd cs)) = Inr (a, s')"
    and "rc_client rs = Some cs" "connected cs"
  obtains cs' where "via_client (Some g) call rs = Inr (a, rs\<lparr>rc_client := Some cs'\<rparr>)" "connected cs'" "lb_srv (snd cs') = s'"
proof -
  obtain cs' where "call g cs = Inr (a, cs')" "lb_srv (snd cs') = s'" "connected cs'"
    using assms unfolding mirrors_def by blast
  then show thesis
    using assms(3) that [of cs'] by (simp add: via_client_def)
qed

text \<open>What the client learns when it runs a name-space change of the server through the layers.\<close>

lemma remote_change_and_sync:
  assumes "kernel_reports px" "reports px change" "rc_client rs = Some cs" "connected cs"
    and "mirrors connected lb_srv f (call g)"
    and f: "f (lb_srv (snd cs)) = change_and_sync px change ps (lb_srv (snd cs))"
  shows "\<exists>res cs'. via_client (Some g) call rs = Inr (res, rs\<lparr>rc_client := Some cs'\<rparr>) \<and> connected cs' \<and>
     (res = 0 \<longleftrightarrow> (\<exists>os'. persisted px change ps (lo_os (lb_srv (snd cs))) os' \<and>
        lb_srv (snd cs') = (lb_srv (snd cs))\<lparr>lo_os := os'\<rparr>))"
proof -
  let ?s = "lb_srv (snd cs)"
  obtain res s' where r: "change_and_sync px change ps ?s = Inr (res, s')"
    by (cases "change_and_sync px change ps ?s") (auto simp: change_and_sync_def split: prod.splits)
  obtain cs' where v: "via_client (Some g) call rs = Inr (res, rs\<lparr>rc_client := Some cs'\<rparr>)" "connected cs'" "lb_srv (snd cs') = s'"
    by (rule via_client_mirrors [where call = call and g = g, OF assms(5) trans [OF f r] assms(3,4)])
  have "res = 0 \<longleftrightarrow> (\<exists>os'. persisted px change ps (lo_os ?s) os' \<and> s' = ?s\<lparr>lo_os := os'\<rparr>)"
    using change_and_sync_zero [OF assms(1,2), of ps ?s s'] r by auto
  with v show ?thesis by blast
qed

text \<open>A stable write: the bytes are written and the file is flushed.\<close>

definition stable_write :: "'o posix \<Rightarrow> int \<Rightarrow> bytes \<Rightarrow> int \<Rightarrow> int \<Rightarrow> 'o \<Rightarrow> 'o \<Rightarrow> bool" where
  "stable_write px fd buf offset res os os' \<longleftrightarrow>
     (\<exists>r os1 f. px_pwrite px fd buf (length buf) offset os = (r, os1) \<and> res = int_of_ssize r \<and>
        px_fsync px fd os1 = (f, os') \<and> f \<noteq> -1)"

lemma nfs_write_stable:
  assumes "kernel_reports px" "reports px (px_pwrite px (int_of_fh (fi_fh fi)) buf (length buf) offset)" "fi_flush fi \<noteq> 0"
    and "-1 \<le> fst (px_pwrite px (int_of_fh (fi_fh fi)) buf (length buf) offset (lo_os st))"
      "fst (px_pwrite px (int_of_fh (fi_fh fi)) buf (length buf) offset (lo_os st)) < 2 ^ 31"
  obtains res st' where "nfs_write px path buf (length buf) offset (Some fi) st = Inr ((res, Some fi), st')"
    "0 \<le> res \<longrightarrow> (\<exists>os'. stable_write px (int_of_fh (fi_fh fi)) buf offset res (lo_os st) os' \<and> st' = st\<lparr>lo_os := os'\<rparr>)"
proof -
  let ?fd = "int_of_fh (fi_fh fi)"
  obtain r os1 where w: "px_pwrite px ?fd buf (length buf) offset (lo_os st) = (r, os1)" by fastforce
  obtain f os2 where f: "px_fsync px ?fd os1 = (f, os2)" by fastforce
  have r: "int_of_ssize r = r"
    using assms(4,5) w by (intro int_of_ssize_exact) simp_all
  have e: "r = -1 \<Longrightarrow> 0 < px_errno px os1" "f = -1 \<Longrightarrow> 0 < px_errno px os2"
    using reportsD [OF assms(2)] reportsD [OF kernel_reportsD(2) [OF assms(1)]] w f by auto
  show thesis
    using w f r e assms(3) that
    by (cases "r = -1"; cases "f = -1")
       (auto simp: nfs_write_def sys_def minus_errno_def stable_write_def)
qed

text \<open>Documented behaviour of \<^verbatim>\<open>pwrite\<close> on Linux: -1 with \<^verbatim>\<open>errno\<close>, or at most 0x7ffff000 bytes.\<close>

definition kernel_writes :: "'o posix \<Rightarrow> bool" where
  "kernel_writes px \<longleftrightarrow>
     (\<forall>fd buf n off. reports px (px_pwrite px fd buf n off) \<and>
        (\<forall>os. -1 \<le> fst (px_pwrite px fd buf n off os) \<and> fst (px_pwrite px fd buf n off os) \<le> 0x7ffff000))"

lemma remote_write_stable:
  assumes "kernel_reports px" "kernel_writes px" "rc_client rs = Some cs" "connected cs" "sz \<le> length buf"
  shows "\<exists>res fi' cs'. rpc_client_write (nfs_client px) path buf sz offset (Some fi) rs =
       Inr ((res, fi'), rs\<lparr>rc_client := Some cs'\<rparr>) \<and> connected cs' \<and>
     (0 \<le> res \<longrightarrow> (\<exists>os'. stable_write px (int_of_fh (fi_fh fi)) (take sz buf) offset res (lo_os (lb_srv (snd cs))) os' \<and>
        lb_srv (snd cs') = (lb_srv (snd cs))\<lparr>lo_os := os'\<rparr>))"
proof -
  let ?fi = "fi\<lparr>fi_flush := 1\<rparr>" and ?s = "lb_srv (snd cs)"
  let ?pw = "px_pwrite px (int_of_fh (fi_fh ?fi)) (take sz buf) (length (take sz buf)) offset"
  have k: "reports px ?pw" "-1 \<le> fst (?pw (lo_os ?s))" "fst (?pw (lo_os ?s)) < 2 ^ 31"
    using assms(2) le_less_trans [of "fst (?pw (lo_os ?s))" "0x7ffff000" "2 ^ 31"] unfolding kernel_writes_def by simp_all
  obtain res s' where w: "nfs_write px path (take sz buf) (length (take sz buf)) offset (Some ?fi) ?s = Inr ((res, Some ?fi), s')"
    "0 \<le> res \<longrightarrow> (\<exists>os'. stable_write px (int_of_fh (fi_fh ?fi)) (take sz buf) offset res (lo_os ?s) os' \<and> s' = ?s\<lparr>lo_os := os'\<rparr>)"
    by (rule nfs_write_stable [OF assms(1) k(1) _ k(2,3), of path]) simp
  have "settle ?fi (nfs_write px path (take sz buf) sz offset) ?s = Inr ((res, Some (pointee ?fi (Some ?fi))), s')"
    using w(1) assms(5) by (simp add: settle_def min_absorb2)
  moreover have "mirrors connected lb_srv (settle ?fi (nfs_write px path (take sz buf) sz offset))
      (sc_write (loopback (nfs_server px)) path buf sz offset (Some fi))"
    by (rule loop.write_mirrors [OF _ assms(5)]) (simp add: nfs_server_def set_nfs_operations_def)
  ultimately obtain cs' where "via_client (Some (sc_write (loopback (nfs_server px)))) (\<lambda>f. f path buf sz offset (Some fi)) rs =
      Inr ((res, Some (pointee ?fi (Some ?fi))), rs\<lparr>rc_client := Some cs'\<rparr>)" "connected cs'" "lb_srv (snd cs') = s'"
    using via_client_mirrors [where call = "\<lambda>f. f path buf sz offset (Some fi)" and g = "sc_write (loopback (nfs_server px))"]
      assms(3,4) by metis
  moreover have "rpc_client_write (nfs_client px) path buf sz offset (Some fi) =
      via_client (Some (sc_write (loopback (nfs_server px)))) (\<lambda>f. f path buf sz offset (Some fi))"
    by (simp add: rpc_client_write_def nfs_client_def sync_client_methods_def)
  ultimately show ?thesis
    using w(2) by (intro exI [of _ res] exI [of _ "Some (pointee ?fi (Some ?fi))"] exI [of _ cs']) simp
qed

section \<open>Properties\<close>

text \<open>
  C1. End to end, an answer means stable storage. A client whose RPC layer has a usable connection
  to a server in \<^verbatim>\<open>nfs\<close> mode gets an answer for every directory creation, removal, renaming and
  write; the answer 0 of a name-space operation means exactly that the change is persisted in the
  server's kernel together with the directories it touches, and a write that answers a
  count was written and flushed there. The connection stays usable.
\<close>

theorem remote_changes_are_durable:
  assumes "kernel_reports px" "kernel_writes px" "rc_client rs = Some cs" "connected cs" "sz \<le> length buf"
    and s: "s = lb_srv (snd cs)" and p: "p = lo_root_path s @ path" and q: "q = lo_root_path s @ to"
  shows
   "(\<exists>res cs'. rpc_client_mkdir (nfs_client px) path mode rs = Inr (res, rs\<lparr>rc_client := Some cs'\<rparr>) \<and> connected cs' \<and>
       (res = 0 \<longleftrightarrow> (\<exists>os'. persisted px (px_mkdir px p mode) [p, fs_parent_path p] (lo_os s) os' \<and>
          lb_srv (snd cs') = s\<lparr>lo_os := os'\<rparr>))) \<and>
    (\<exists>res cs'. rpc_client_unlink (nfs_client px) path rs = Inr (res, rs\<lparr>rc_client := Some cs'\<rparr>) \<and> connected cs' \<and>
       (res = 0 \<longleftrightarrow> (\<exists>os'. persisted px (px_unlink px p) [fs_parent_path p] (lo_os s) os' \<and>
          lb_srv (snd cs') = s\<lparr>lo_os := os'\<rparr>))) \<and>
    (\<exists>res cs'. rpc_client_rename (nfs_client px) path to rs = Inr (res, rs\<lparr>rc_client := Some cs'\<rparr>) \<and> connected cs' \<and>
       (res = 0 \<longleftrightarrow> (\<exists>os'. persisted px (px_rename px p q) [q, fs_parent_path p, fs_parent_path q] (lo_os s) os' \<and>
          lb_srv (snd cs') = s\<lparr>lo_os := os'\<rparr>))) \<and>
    (\<exists>res fi' cs'. rpc_client_write (nfs_client px) path buf sz offset (Some fi) rs =
         Inr ((res, fi'), rs\<lparr>rc_client := Some cs'\<rparr>) \<and> connected cs' \<and>
       (0 \<le> res \<longrightarrow> (\<exists>os'. stable_write px (int_of_fh (fi_fh fi)) (take sz buf) offset res (lo_os s) os' \<and>
          lb_srv (snd cs') = s\<lparr>lo_os := os'\<rparr>)))"
proof -
  note r = kernel_reportsD [OF assms(1)]
  note c = remote_change_and_sync [OF assms(1) _ assms(3,4)]
  have m: "mirrors connected lb_srv (nfs_mkdir px path mode) (sc_mkdir (loopback (nfs_server px)) path mode)"
    "mirrors connected lb_srv (nfs_unlink px path) (sc_unlink (loopback (nfs_server px)) path)"
    "mirrors connected lb_srv (nfs_rename px path to) (sc_rename (loopback (nfs_server px)) path to)"
    by (rule loop.mkdir_mirrors loop.unlink_mirrors loop.rename_mirrors; simp add: nfs_server_def set_nfs_operations_def)+
  have e: "rpc_client_mkdir (nfs_client px) path mode = via_client (Some (sc_mkdir (loopback (nfs_server px)))) (\<lambda>f. f path mode)"
    "rpc_client_unlink (nfs_client px) path = via_client (Some (sc_unlink (loopback (nfs_server px)))) (\<lambda>f. f path)"
    "rpc_client_rename (nfs_client px) path to = via_client (Some (sc_rename (loopback (nfs_server px)))) (\<lambda>f. f path to)"
    by (simp_all add: rpc_client_mkdir_def rpc_client_unlink_def rpc_client_rename_def nfs_client_def sync_client_methods_def)
  have n: "nfs_mkdir px path mode s = change_and_sync px (px_mkdir px p mode) [p, fs_parent_path p] s"
    "nfs_unlink px path s = change_and_sync px (px_unlink px p) [fs_parent_path p] s"
    "nfs_rename px path to s = change_and_sync px (px_rename px p q) [q, fs_parent_path p, fs_parent_path q] s"
    by (simp_all add: nfs_mkdir_def nfs_unlink_def nfs_rename_def new_path_def p q Let_def)
  note w = remote_write_stable [OF assms(1-5), of path offset fi]
  show ?thesis
    unfolding e s using w
    by (intro conjI c [where call = "\<lambda>f. f path mode" and g = "sc_mkdir (loopback (nfs_server px))", OF r(6) m(1) n(1) [unfolded s]]
        c [where call = "\<lambda>f. f path" and g = "sc_unlink (loopback (nfs_server px))", OF r(7) m(2) n(2) [unfolded s]]
        c [where call = "\<lambda>f. f path to" and g = "sc_rename (loopback (nfs_server px))", OF r(10) m(3) n(3) [unfolded s]])
qed

definition demo_connection :: "(nat local_state loopback_net, nat) client_state" where
  "demo_connection = (\<lparr>sc_read_streams = fmempty, sc_write_streams = fmempty\<rparr>,
     \<lparr>lb_srv = idle_state ''/srv'', lb_rstreams = fmempty, lb_wstreams = fmempty, lb_next = 0\<rparr>)"

theorem remote_changes_are_durable_witness:
  "(\<exists>cs'. rpc_client_mkdir (nfs_client (steady_kernel [])) ''/d'' 0x1ED
       \<lparr>rc_config = None, rc_client = Some demo_connection\<rparr> =
     Inr (0, \<lparr>rc_config = None, rc_client = Some cs'\<rparr>)) \<and>
   persisted (steady_kernel []) (px_mkdir (steady_kernel []) ''/srv/d'' 0x1ED) [''/srv/d'', ''/srv''] 0 0"
proof -
  let ?px = "steady_kernel []" and ?s = "idle_state ''/srv''"
  let ?rs = "\<lparr>rc_config = None, rc_client = Some demo_connection\<rparr>"
  have c: "connected demo_connection" and s: "?s = lb_srv (snd demo_connection)"
    by (simp_all add: demo_connection_def usable_def lb_good_def streams_of_def)
  have k: "kernel_writes ?px"
    by (simp add: kernel_writes_def reports_def steady_kernel_def)
  have "nfs_mkdir ?px ''/d'' 0x1ED ?s = Inr (0, ?s)"
    by (simp add: nfs_mkdir_def change_and_sync_def sync_path_def sys_def idle_state_def new_path_def steady_kernel_def)
  then have run: "rpc_client_mkdir (nfs_client ?px) ''/d'' 0x1ED ?rs = Inr (0, ?rs\<lparr>rc_client := Some demo_connection\<rparr>)"
    by (simp add: rpc_client_mkdir_def via_client_def nfs_client_def sync_client_methods_def sc_mkdir_def loopback_def
        lb_call_def nfs_server_def set_nfs_operations_def demo_connection_def)
  have p: "fs_parent_path ''/srv/d'' = ''/srv''" "''/srv/d'' = lo_root_path ?s @ ''/d''" "lo_os ?s = 0"
    by (simp_all add: fs_parent_path_def idle_state_def)
  have t: "rc_client ?rs = Some demo_connection" "0 \<le> length ([] :: bytes)"
    by simp_all
  obtain res cs' where r: "rpc_client_mkdir (nfs_client ?px) ''/d'' 0x1ED ?rs = Inr (res, ?rs\<lparr>rc_client := Some cs'\<rparr>)"
    "res = 0 \<longleftrightarrow> (\<exists>os'. persisted ?px (px_mkdir ?px ''/srv/d'' 0x1ED) [''/srv/d'', ''/srv''] 0 os' \<and>
          lb_srv (snd cs') = ?s\<lparr>lo_os := os'\<rparr>)"
    using remote_changes_are_durable [where mode = "0x1ED", OF steady_kernel_reports k t(1) c t(2) s p(2) refl, THEN conjunct1]
    unfolding p(1,3) by blast
  have "res = 0" "cs' = demo_connection"
    using run r(1) by simp_all
  moreover have "lb_srv (snd demo_connection) = ?s\<lparr>lo_os := os'\<rparr> \<longleftrightarrow> os' = 0" for os'
    by (auto simp: demo_connection_def idle_state_def)
  ultimately show ?thesis
    using run r(2) by auto
qed

end
